(* ===== verification/Prelude.thy ===== *)
theory Prelude
  imports Main "HOL-Library.Signed_Division"
begin

text \<open>
  Shared vocabulary of the development: Go's machine integers, slices, times and
  errors, the schedule of outcomes of calls that leave the process, decimal
  printing, and the generic list lemmas that the component theories use.
\<close>

named_theorems go_defs \<open>definitions of the small helpers that component proofs unfold\<close>

section \<open>Machine integers\<close>

text \<open>
  Go's \<open>int\<close> and \<open>int64\<close> are 64 bit two's complement. A value is an \<^typ>\<open>int\<close>
  of that range; every arithmetic operation of the code whose result may leave the
  range goes through \<open>wrap64\<close>. \<open>wrap32\<close> is the conversion \<open>int32(x)\<close>.
  Division truncates towards zero (\<open>sdiv\<close>).
\<close>

definition int64 :: "int \<Rightarrow> bool" where
  "int64 x \<longleftrightarrow> - (2 ^ 63) \<le> x \<and> x < 2 ^ 63"

definition wrap64 :: "int \<Rightarrow> int" where
  "wrap64 x = (x + 2 ^ 63) mod 2 ^ 64 - 2 ^ 63"

definition int32 :: "int \<Rightarrow> bool" where
  "int32 x \<longleftrightarrow> - (2 ^ 31) \<le> x \<and> x < 2 ^ 31"

definition wrap32 :: "int \<Rightarrow> int" where
  "wrap32 x = (x + 2 ^ 31) mod 2 ^ 32 - 2 ^ 31"

lemma wrap64_id [simp]: "int64 x \<Longrightarrow> wrap64 x = x"
  by (simp add: int64_def wrap64_def)

lemma int64_wrap64 [simp]: "int64 (wrap64 x)"
proof -
  have "0 \<le> (x + 2 ^ 63) mod 2 ^ 64" and "(x + 2 ^ 63) mod 2 ^ 64 < 2 ^ 64"
    by simp_all
  then show ?thesis by (simp add: int64_def wrap64_def)
qed

lemma wrap32_id [simp]: "int32 x \<Longrightarrow> wrap32 x = x"
  by (simp add: int32_def wrap32_def)

lemma int32_wrap32 [simp]: "int32 (wrap32 x)"
proof -
  have "0 \<le> (x + 2 ^ 31) mod 2 ^ 32" and "(x + 2 ^ 31) mod 2 ^ 32 < 2 ^ 32"
    by simp_all
  then show ?thesis by (simp add: int32_def wrap32_def)
qed

lemma int64I: "- 9223372036854775808 \<le> x \<Longrightarrow> x < 9223372036854775808 \<Longrightarrow> int64 x"
  by (simp add: int64_def)

lemma int32_int64: "int32 x \<Longrightarrow> int64 x"
  by (simp add: int32_def int64_def)

lemma sdiv_nonneg: "(0::int) \<le> a \<Longrightarrow> 0 < b \<Longrightarrow> a sdiv b = a div b"
  by (cases "a = 0") (auto simp: signed_divide_int_def sgn_if)

section \<open>Times and durations\<close>

text \<open>
  A \<open>time.Time\<close> is the number of nanoseconds since Go's zero time (1 January of year 1,
  UTC), so \<open>IsZero\<close> is equality with 0; the location and the monotonic reading that a
  \<open>time.Time\<close> may also carry are not kept. A \<open>time.Duration\<close> is an \<open>int64\<close> of
  nanoseconds, and \<open>Time.Sub\<close> saturates at the ends of that range.
\<close>

type_synonym time = int
type_synonym duration = int

abbreviation (input) zero_time :: time where "zero_time \<equiv> 0"

definition IsZero :: "time \<Rightarrow> bool" where
  [go_defs]: "IsZero t \<longleftrightarrow> t = zero_time"

abbreviation (input) second :: duration where "second \<equiv> 1000000000"
abbreviation (input) minute :: duration where "minute \<equiv> 60000000000"
abbreviation (input) hour :: duration where "hour \<equiv> 3600000000000"

definition time_sub :: "time \<Rightarrow> time \<Rightarrow> duration" where
  "time_sub t u = max (- (2 ^ 63)) (min (2 ^ 63 - 1) (t - u))"

lemma time_sub_exact: "int64 (t - u) \<Longrightarrow> time_sub t u = t - u"
  by (simp add: int64_def time_sub_def)

lemma time_sub_le_iff: "int64 d \<Longrightarrow> d < 2 ^ 63 - 1 \<Longrightarrow> time_sub t u \<le> d \<longleftrightarrow> t - u \<le> d"
  by (auto simp: int64_def time_sub_def max_def min_def)

text \<open>
  \<open>int(d.Seconds())\<close>: \<open>Seconds\<close> is a float64, whose integer part is the quotient for
  every duration below \<open>2 ^ 23\<close> seconds (97 days), the only ones the program uses it on.
\<close>

definition whole_seconds :: "duration \<Rightarrow> int" where
  "whole_seconds d = d sdiv second"

lemma whole_seconds_pos: "0 < whole_seconds d \<longleftrightarrow> second \<le> d"
proof (cases "0 \<le> d")
  case True
  then show ?thesis by (simp add: whole_seconds_def sdiv_nonneg pos_imp_zdiv_pos_iff)
next
  case False
  then have "sgn d = - 1" by simp
  moreover have "0 \<le> \<bar>d\<bar> div second" by (simp add: pos_imp_zdiv_nonneg_iff)
  ultimately show ?thesis using False by (simp add: whole_seconds_def signed_divide_int_def)
qed

lemma whole_seconds_mult [simp]: "whole_seconds (n * second) = n"
  by (cases "n = 0") (auto simp: whole_seconds_def signed_divide_int_def abs_mult sgn_mult sgn_if)

section \<open>Slices\<close>

text \<open>
  A Go slice that is only read and replaced is \<open>None\<close> for the nil slice and \<open>Some xs\<close>
  otherwise; the two empty slices differ for \<open>reflect.DeepEqual\<close> and for JSON.
\<close>

type_synonym 'a slice = "'a list option"

definition elems :: "'a slice \<Rightarrow> 'a list" where
  "elems s = (case s of None \<Rightarrow> [] | Some xs \<Rightarrow> xs)"

lemma elems_simps [simp]: "elems None = []" "elems (Some xs) = xs"
  by (simp_all add: elems_def)

definition append_slice :: "'a slice \<Rightarrow> 'a \<Rightarrow> 'a slice" where
  [go_defs]: "append_slice s x = Some (elems s @ [x])"

text \<open>
  A pointer to the first element that satisfies a test, as \<open>for i := range xs\<close> finds it,
  is the index of that element; writing through the pointer is \<open>xs[i := x]\<close>.
\<close>

fun find_index :: "('a \<Rightarrow> bool) \<Rightarrow> 'a list \<Rightarrow> nat option" where
  "find_index P [] = None"
| "find_index P (x # xs) = (if P x then Some 0 else map_option Suc (find_index P xs))"

lemma find_index_SomeD:
  "find_index P xs = Some i \<Longrightarrow> i < length xs \<and> P (xs ! i) \<and> (\<forall>j < i. \<not> P (xs ! j))"
proof (induction xs arbitrary: i)
  case (Cons x xs)
  then show ?case by (cases i) (auto split: if_splits simp: less_Suc_eq_0_disj)
qed simp

lemma find_index_None [simp]: "find_index P xs = None \<longleftrightarrow> (\<forall>x \<in> set xs. \<not> P x)"
  by (induction xs) auto

lemma find_index_unique:
  assumes "i < length xs" "P (xs ! i)" "\<And>j. j < length xs \<Longrightarrow> P (xs ! j) \<Longrightarrow> j = i"
  shows "find_index P xs = Some i"
proof (cases "find_index P xs")
  case None
  with assms(1,2) show ?thesis by (auto dest: nth_mem)
next
  case (Some j)
  with assms(3) show ?thesis by (auto dest: find_index_SomeD)
qed

lemma find_index_cong:
  "length xs = length ys \<Longrightarrow> (\<And>i. i < length xs \<Longrightarrow> P (xs ! i) \<longleftrightarrow> Q (ys ! i)) \<Longrightarrow>
   find_index P xs = find_index Q ys"
proof (induction xs ys rule: list_induct2)
  case (Cons x xs y ys)
  from Cons.prems [of 0] have "P x \<longleftrightarrow> Q y" by simp
  moreover have "find_index P xs = find_index Q ys"
    using Cons.prems [of "Suc i" for i] by (intro Cons.IH) simp
  ultimately show ?case by simp
qed simp

section \<open>Decimal printing\<close>

definition digit_char :: "nat \<Rightarrow> char" where
  "digit_char d = char_of (48 + d)"

fun show_nat :: "nat \<Rightarrow> string" where
  "show_nat n = (if n < 10 then [digit_char n] else show_nat (n div 10) @ [digit_char (n mod 10)])"

declare show_nat.simps [simp del]

definition show_int :: "int \<Rightarrow> string" where
  "show_int i = (if i < 0 then CHR ''-'' # show_nat (nat (- i)) else show_nat (nat i))"

definition read_nat :: "string \<Rightarrow> nat" where
  "read_nat s = foldl (\<lambda>a c. 10 * a + (of_char c - 48)) 0 s"

lemma of_digit_char [simp]: "d < 10 \<Longrightarrow> of_char (digit_char d) = 48 + d"
  by (simp add: digit_char_def)

lemma read_show_nat [simp]: "read_nat (show_nat n) = n"
proof (induction n rule: show_nat.induct)
  case (1 n)
  show ?case
  proof (cases "n < 10")
    case True
    then show ?thesis by (simp add: show_nat.simps [of n] read_nat_def)
  next
    case False
    with 1 show ?thesis by (simp add: show_nat.simps [of n] read_nat_def)
  qed
qed

lemma show_nat_inject [simp]: "show_nat m = show_nat n \<longleftrightarrow> m = n"
  by (metis read_show_nat)

lemma show_nat_digits: "c \<in> set (show_nat n) \<Longrightarrow> \<exists>d < 10. c = digit_char d"
proof (induction n rule: show_nat.induct)
  case (1 n)
  then show ?case
    by (cases "n < 10") (auto simp: show_nat.simps [of n] intro: exI [of _ "n mod 10"])
qed

lemma digit_char_neq: "d < 10 \<Longrightarrow> of_char c < (48::nat) \<or> 57 < (of_char c :: nat) \<Longrightarrow> digit_char d \<noteq> c"
  using of_digit_char [of d] by force

lemma show_nat_notin:
  "of_char c < (48::nat) \<or> 57 < (of_char c :: nat) \<Longrightarrow> c \<notin> set (show_nat n)"
  using digit_char_neq show_nat_digits by blast

lemma show_nat_nonempty [simp]: "show_nat n \<noteq> []"
  by (subst show_nat.simps) simp

lemma show_int_nonempty [simp]: "show_int i \<noteq> []"
  by (simp add: show_int_def)

lemma minus_notin_show_nat [simp]: "CHR ''-'' \<notin> set (show_nat n)"
  and colon_notin_show_nat [simp]: "CHR '':'' \<notin> set (show_nat n)"
  by (rule show_nat_notin, simp)+

lemma show_int_inject [simp]: "show_int i = show_int j \<longleftrightarrow> i = j"
proof -
  have "CHR ''-'' # s \<noteq> show_nat n" for s n
    using minus_notin_show_nat [of n] by (metis list.set_intros(1))
  then show ?thesis
    by (auto simp: show_int_def) (metis show_nat_inject eq_nat_nat_iff neg_0_le_iff_le nat_le_iff)+
qed

text \<open>A separator that does not occur in the left parts splits a string in one way.\<close>

lemma append_sep_inject:
  "c \<notin> set xs \<Longrightarrow> c \<notin> set ys \<Longrightarrow> xs @ c # us = ys @ c # vs \<longleftrightarrow> xs = ys \<and> us = vs"
proof (induction xs arbitrary: ys)
  case Nil
  then show ?case by (cases ys) auto
next
  case (Cons x xs)
  then show ?case by (cases ys) auto
qed

lemma append_sep_inject_right:
  assumes "c \<notin> set us" "c \<notin> set vs"
  shows "xs @ c # us = ys @ c # vs \<longleftrightarrow> xs = ys \<and> us = vs"
proof -
  have "xs @ c # us = ys @ c # vs \<longleftrightarrow> rev us @ c # rev xs = rev vs @ c # rev ys"
    by (metis append.assoc append_Cons append_Nil rev.simps(2) rev_append rev_rev_ident)
  with assms show ?thesis by (auto simp: append_sep_inject)
qed

section \<open>Errors\<close>

text \<open>
  An error is one made outside the repository (with its text), one of the two context
  errors, a gRPC status, or what \<open>fmt.Errorf\<close> and \<open>errors.Join\<close> build from them. The
  parts of an \<open>Errorf\<close> are the literal pieces of the format and the arguments of its
  \<open>%q\<close>, \<open>%d\<close> and \<open>%w\<close> (or \<open>%v\<close>) verbs.
\<close>

datatype go_error =
    External string
  | CtxCanceled
  | CtxDeadline
  | Status string string
  | Errorf "err_part list"
  | Joined "go_error list"
and err_part = Txt string | Quoted string | Num int | Wrapped go_error

text \<open>
  \<open>%q\<close> is \<open>strconv.Quote\<close>: double quotes around the text, backslash escapes for the
  quote, the backslash and the control characters. Bytes from 128 on belong to printable
  UTF-8 sequences and are left alone.
\<close>

definition hex_digit :: "nat \<Rightarrow> char" where
  "hex_digit d = (if d < 10 then digit_char d else char_of (87 + d))"

definition quote_char :: "char \<Rightarrow> string" where
  "quote_char c = (let n = of_char c :: nat; bs = CHR 0x5C in
     if n = 0x22 \<or> n = 0x5C then [bs, c]
     else if n = 7 then [bs, CHR ''a''] else if n = 8 then [bs, CHR ''b'']
     else if n = 9 then [bs, CHR ''t''] else if n = 10 then [bs, CHR ''n'']
     else if n = 11 then [bs, CHR ''v''] else if n = 12 then [bs, CHR ''f'']
     else if n = 13 then [bs, CHR ''r'']
     else if n < 32 \<or> n = 127 then [bs, CHR ''x'', hex_digit (n div 16), hex_digit (n mod 16)]
     else [c])"

definition go_quote :: "string \<Rightarrow> string" where
  "go_quote s = CHR 0x22 # concat (map quote_char s) @ [CHR 0x22]"

fun join_with :: "string \<Rightarrow> string list \<Rightarrow> string" where
  "join_with sep [] = []"
| "join_with sep [x] = x"
| "join_with sep (x # xs) = x @ sep @ join_with sep xs"

text \<open>\<open>err.Error()\<close>.\<close>

fun error_text :: "go_error \<Rightarrow> string" and part_text :: "err_part \<Rightarrow> string" where
  "error_text (External s) = s"
| "error_text CtxCanceled = ''context canceled''"
| "error_text CtxDeadline = ''context deadline exceeded''"
| "error_text (Status c s) = ''rpc error: code = '' @ c @ '' desc = '' @ s"
| "error_text (Errorf ps) = concat (map part_text ps)"
| "error_text (Joined es) = join_with [CHR 0x0A] (map error_text es)"
| "part_text (Txt s) = s"
| "part_text (Quoted s) = go_quote s"
| "part_text (Num i) = show_int i"
| "part_text (Wrapped e) = error_text e"

section \<open>Calls that leave the process\<close>

text \<open>
  A call to PostgreSQL, Redis, NATS or a peer service succeeds, fails before it has any
  effect, or takes effect and loses the reply. Which of the three happens to each call in
  turn is a schedule in the state of the caller: any behaviour of the other side is some
  schedule, and an exhausted schedule means success.
\<close>

datatype fault = NoFault | FailBefore go_error | FailAfter go_error

definition next_fault :: "fault list \<Rightarrow> fault" where
  "next_fault fs = (case fs of [] \<Rightarrow> NoFault | f # _ \<Rightarrow> f)"

definition rest_faults :: "fault list \<Rightarrow> fault list" where
  "rest_faults fs = (case fs of [] \<Rightarrow> [] | _ # rest \<Rightarrow> rest)"

lemma next_fault_simps [simp]:
  "next_fault [] = NoFault" "next_fault (f # fs) = f"
  "rest_faults [] = []" "rest_faults (f # fs) = fs"
  by (simp_all add: next_fault_def rest_faults_def)

text \<open>Inside a transaction, and for a read, both kinds of failure are just an error.\<close>

definition fault_error :: "fault \<Rightarrow> go_error option" where
  "fault_error f = (case f of NoFault \<Rightarrow> None | FailBefore e \<Rightarrow> Some e | FailAfter e \<Rightarrow> Some e)"

lemma fault_error_simps [simp]:
  "fault_error NoFault = None" "fault_error (FailBefore e) = Some e" "fault_error (FailAfter e) = Some e"
  by (simp_all add: fault_error_def)

text \<open>The successive results of \<open>ctx.Err()\<close>, in the same way.\<close>

type_synonym polls = "go_error option list"

definition next_poll :: "polls \<Rightarrow> go_error option" where
  "next_poll ps = (case ps of [] \<Rightarrow> None | p # _ \<Rightarrow> p)"

definition rest_polls :: "polls \<Rightarrow> polls" where
  "rest_polls ps = (case ps of [] \<Rightarrow> [] | _ # rest \<Rightarrow> rest)"

lemma next_poll_simps [simp]:
  "next_poll [] = None" "next_poll (p # ps) = p"
  "rest_polls [] = []" "rest_polls (p # ps) = ps"
  by (simp_all add: next_poll_def rest_polls_def)

end
