(* ===== verification/Models.thy ===== *)
theory Models
  imports Prelude
begin

text \<open>
  The data the services share (\<open>internal/models\<close>, \<open>internal/constants\<close>): rooms,
  players, summoner spells and the Champion Select session of the League client.
\<close>

section \<open>Summoner spells, players, rooms\<close>

record summoner_spell =
  Name :: string
  IsReady :: bool
  BaseCooldown :: int
  CooldownEndTime :: time
  RemainingCooldown :: int

record player =
  Champion :: string
  ChampionImage :: string
  GameName :: string
  TagLine :: string
  ChampionId :: int
  SummonerSpellHaste :: int
  Spells :: "summoner_spell slice"

record room =
  Id :: string
  Players :: "player slice"
  LastUpdated :: time

text \<open>\<open>FindSpell\<close> returns a pointer into the player's spells: here its index.\<close>

definition FindSpell :: "player \<Rightarrow> string \<Rightarrow> nat option" where
  "FindSpell p spellName = find_index (\<lambda>s. Name s = spellName) (elems (Spells p))"

text \<open>
  \<open>Room.Clone\<close> copies the players and their spells into fresh slices: the content is
  the same, and a nil slice becomes an empty one.
\<close>

definition clone_player :: "player \<Rightarrow> player" where
  "clone_player p = p\<lparr>Spells := Some (elems (Spells p))\<rparr>"

definition Clone :: "room \<Rightarrow> room" where
  "Clone r = r\<lparr>Players := Some (map clone_player (elems (Players r)))\<rparr>"

lemma clone_player_simps [simp]:
  "Champion (clone_player p) = Champion p" "ChampionImage (clone_player p) = ChampionImage p"
  "GameName (clone_player p) = GameName p" "TagLine (clone_player p) = TagLine p"
  "ChampionId (clone_player p) = ChampionId p"
  "SummonerSpellHaste (clone_player p) = SummonerSpellHaste p"
  "Spells (clone_player p) = Some (elems (Spells p))"
  by (simp_all add: clone_player_def)

lemma clone_player_idem [simp]: "clone_player (clone_player p) = clone_player p"
  by (simp add: clone_player_def)

lemma Clone_simps [simp]:
  "Id (Clone r) = Id r" "LastUpdated (Clone r) = LastUpdated r"
  "Players (Clone r) = Some (map clone_player (elems (Players r)))"
  by (simp_all add: Clone_def)

lemma Clone_idem [simp]: "Clone (Clone r) = Clone r"
  by (simp add: Clone_def)

section \<open>Champion Select\<close>

record champ_select_player =
  CellId :: int
  SelChampionId :: int
  Spell1Id :: int
  Spell2Id :: int
  SelGameName :: string
  SelTagLine :: string
  Puuid :: string
  Team :: int

record champ_select_session =
  GameId :: int
  LocalPlayerCellId :: int
  MyTeam :: "champ_select_player slice"
  TheirTeam :: "champ_select_player slice"

section \<open>Constants\<close>

definition DefaultSummonerSpellHaste :: int where
  "DefaultSummonerSpellHaste = 18"

definition RoomExpirationDuration :: duration where
  "RoomExpirationDuration = 180 * minute"

section \<open>Room identifiers\<close>

text \<open>
  \<open>services.BuildRoomId\<close>: the loop stops at the first member of the team that sits in the
  local player's cell. \<open>None\<close> is the nil session.
\<close>

fun local_team :: "int \<Rightarrow> champ_select_player list \<Rightarrow> int" where
  "local_team cell [] = 0"
| "local_team cell (p # ps) = (if CellId p = cell then Team p else local_team cell ps)"

definition BuildRoomId :: "champ_select_session option \<Rightarrow> string" where
  "BuildRoomId sess = (case sess of None \<Rightarrow> []
     | Some s \<Rightarrow>
        (let teamId = local_team (LocalPlayerCellId s) (elems (MyTeam s))
         in if GameId s = 0 \<or> teamId = 0 then []
            else show_int (GameId s) @ ''-'' @ show_int teamId))"

lemma show_int_minus_inject:
  "show_int a @ CHR ''-'' # s = show_int b @ CHR ''-'' # t \<longleftrightarrow> a = b \<and> s = t"
proof -
  have sep: "show_nat m @ CHR ''-'' # s = show_nat n @ CHR ''-'' # t \<longleftrightarrow> m = n \<and> s = t" for m n
    by (simp add: append_sep_inject)
  have ne: "show_nat m @ u \<noteq> CHR ''-'' # v" for m u v
    using minus_notin_show_nat [of m] show_nat_nonempty [of m] by (cases "show_nat m") auto
  show ?thesis
    by (cases "a < 0"; cases "b < 0") (auto simp: show_int_def sep ne ne [symmetric])
qed

lemma BuildRoomId_empty_iff:
  "BuildRoomId (Some s) = [] \<longleftrightarrow>
     GameId s = 0 \<or> local_team (LocalPlayerCellId s) (elems (MyTeam s)) = 0"
  by (simp add: BuildRoomId_def Let_def)

section \<open>Properties\<close>

text \<open>
  C33: the room identifier determines the game and the local team: two sessions with a room
  get the same identifier only if they have the same game and the same team number, and a
  session gets none exactly when it has no game or no team for the local player.
\<close>

theorem room_id_identifies_game_and_team:
  "(BuildRoomId (Some s) = [] \<longleftrightarrow> GameId s = 0 \<or> local_team (LocalPlayerCellId s) (elems (MyTeam s)) = 0) \<and>
   (BuildRoomId (Some s) = BuildRoomId (Some t) \<and> BuildRoomId (Some s) \<noteq> [] \<longrightarrow>
      GameId s = GameId t \<and>
      local_team (LocalPlayerCellId s) (elems (MyTeam s)) = local_team (LocalPlayerCellId t) (elems (MyTeam t)))"
  using BuildRoomId_empty_iff [of s] BuildRoomId_empty_iff [of t]
  by (auto simp: BuildRoomId_def Let_def show_int_minus_inject)

theorem room_id_identifies_game_and_team_witness:
  "BuildRoomId (Some \<lparr>GameId = 0, LocalPlayerCellId = 0, MyTeam = None, TheirTeam = None\<rparr>) = []"
  using room_id_identifies_game_and_team
    [of "\<lparr>GameId = 0, LocalPlayerCellId = 0, MyTeam = None, TheirTeam = None\<rparr>"
        "\<lparr>GameId = 0, LocalPlayerCellId = 0, MyTeam = None, TheirTeam = None\<rparr>"] by simp

end
