(* ===== verification/Spells.thy ===== *)
theory Spells
  imports Models
begin

text \<open>
  Summoner spells and their cooldowns: \<open>internal/services/summoner_spell_service.go\<close> and the
  pure part of the cooldown refresh in \<open>internal/services/room_service.go\<close>. A Go panic
  (division by zero) is \<open>None\<close>; \<open>time.Now()\<close> is the parameter \<open>now\<close>.
\<close>

section \<open>Spell tables\<close>

definition GetSpellName :: "int \<Rightarrow> string" where
  "GetSpellName spellId =
     (if spellId = 1 then ''Cleanse''
      else if spellId = 3 then ''Exhaust''
      else if spellId = 4 then ''Flash''
      else if spellId = 6 then ''Ghost''
      else if spellId = 7 then ''Heal''
      else if spellId = 11 then ''Smite''
      else if spellId = 12 then ''Teleport''
      else if spellId = 14 then ''Ignite''
      else if spellId = 21 then ''Barrier''
      else ''Unknown'')"

definition GetSpellCooldown :: "int \<Rightarrow> int" where
  "GetSpellCooldown spellId =
     (if spellId = 4 then 300
      else if spellId = 14 then 180
      else if spellId = 7 then 240
      else if spellId = 3 then 240
      else if spellId = 6 then 240
      else if spellId = 12 then 300
      else if spellId = 11 then 15
      else if spellId = 21 then 180
      else if spellId = 1 then 240
      else 300)"

lemma GetSpellCooldown_bounds [simp]:
  "0 < GetSpellCooldown i" "GetSpellCooldown i \<le> 300" "15 \<le> GetSpellCooldown i"
  by (simp_all add: GetSpellCooldown_def)

section \<open>Cooldown with haste\<close>

definition CalculateCooldown :: "int \<Rightarrow> int \<Rightarrow> int option" where
  "CalculateCooldown baseCooldown summonerSpellHaste =
     (let d = wrap64 (100 + summonerSpellHaste)
      in if d = 0 then None else Some (wrap64 (wrap64 (baseCooldown * 100) sdiv d)))"

lemma cooldown_quotient_le:
  fixes base haste :: int
  assumes "0 \<le> base" "0 \<le> haste"
  shows "base * 100 div (100 + haste) \<le> base"
proof -
  have "base * 100 div (100 + haste) \<le> base * 100 div 100"
    using assms by (intro zdiv_mono2) auto
  then show ?thesis by simp
qed

lemma CalculateCooldown_eq:
  assumes "0 \<le> base" "base < 2 ^ 56" "0 \<le> haste" "haste < 2 ^ 62"
  shows "CalculateCooldown base haste = Some (base * 100 div (100 + haste))"
proof -
  have b: "int64 (base * 100)" and h: "int64 (100 + haste)"
    using assms by (simp_all add: int64_def)
  have "0 \<le> base * 100 div (100 + haste)"
    using assms by (simp add: pos_imp_zdiv_nonneg_iff)
  with cooldown_quotient_le [OF assms(1,3)] assms(2)
  have "int64 (base * 100 div (100 + haste))" by (simp add: int64_def)
  with b h assms show ?thesis
    by (simp add: CalculateCooldown_def Let_def sdiv_nonneg)
qed

section \<open>Toggling a spell\<close>

definition set_spell :: "player \<Rightarrow> nat \<Rightarrow> summoner_spell \<Rightarrow> player" where
  "set_spell p i s = p\<lparr>Spells := Some ((elems (Spells p))[i := s])\<rparr>"

definition TogglePlayerSpell :: "time \<Rightarrow> player \<Rightarrow> string \<Rightarrow> (player \<times> bool) option" where
  "TogglePlayerSpell now p spellName =
     (case FindSpell p spellName of
        None \<Rightarrow> Some (p, False)
      | Some i \<Rightarrow>
          (let spell = elems (Spells p) ! i
           in if \<not> IsReady spell then
                Some (set_spell p i
                  (spell\<lparr>IsReady := True, CooldownEndTime := zero_time, RemainingCooldown := 0\<rparr>), True)
              else
                (case CalculateCooldown (BaseCooldown spell) (SummonerSpellHaste p) of
                   None \<Rightarrow> None
                 | Some cooldown \<Rightarrow>
                     Some (set_spell p i
                       (spell\<lparr>IsReady := False, RemainingCooldown := cooldown,
                              CooldownEndTime := now + wrap64 (cooldown * second)\<rparr>), True))))"

section \<open>Carrying spell state over to a new player entry\<close>

definition copy_spell :: "player \<Rightarrow> summoner_spell \<Rightarrow> summoner_spell" where
  "copy_spell oldPlayer newSpell =
     (case FindSpell oldPlayer (Name newSpell) of
        None \<Rightarrow> newSpell
      | Some i \<Rightarrow>
          (let oldSpell = elems (Spells oldPlayer) ! i
           in newSpell\<lparr>IsReady := IsReady oldSpell, CooldownEndTime := CooldownEndTime oldSpell,
                       RemainingCooldown := RemainingCooldown oldSpell\<rparr>))"

definition CopySpellState :: "player \<Rightarrow> player \<Rightarrow> player" where
  "CopySpellState oldPlayer newPlayer =
     newPlayer\<lparr>Spells := map_option (map (copy_spell oldPlayer)) (Spells newPlayer)\<rparr>"

section \<open>Refreshing cooldowns\<close>

definition refresh_spell :: "time \<Rightarrow> summoner_spell \<Rightarrow> summoner_spell \<times> bool" where
  "refresh_spell now spell =
     (if IsReady spell \<or> IsZero (CooldownEndTime spell) then
        (if RemainingCooldown spell \<noteq> 0 then (spell\<lparr>RemainingCooldown := 0\<rparr>, True)
         else (spell, False))
      else
        (let remaining = whole_seconds (time_sub (CooldownEndTime spell) now)
         in if remaining \<le> 0 then
              (spell\<lparr>IsReady := True, RemainingCooldown := 0, CooldownEndTime := zero_time\<rparr>, True)
            else if RemainingCooldown spell \<noteq> remaining then
              (spell\<lparr>RemainingCooldown := remaining\<rparr>, True)
            else (spell, False)))"

text \<open>The two nested loops over players and spells; the flag is the variable \<open>changed\<close>.\<close>

fun refresh_spells :: "time \<Rightarrow> summoner_spell list \<Rightarrow> bool \<Rightarrow> summoner_spell list \<times> bool" where
  "refresh_spells now [] changed = ([], changed)"
| "refresh_spells now (s # ss) changed =
     (let (s', c) = refresh_spell now s;
          (ss', changed') = refresh_spells now ss (changed \<or> c)
      in (s' # ss', changed'))"

fun refresh_players :: "time \<Rightarrow> player list \<Rightarrow> bool \<Rightarrow> player list \<times> bool" where
  "refresh_players now [] changed = ([], changed)"
| "refresh_players now (p # ps) changed =
     (let (ss, c) = (case Spells p of None \<Rightarrow> (None, changed)
                       | Some ss \<Rightarrow> map_prod Some id (refresh_spells now ss changed));
          (ps', changed') = refresh_players now ps c
      in (p\<lparr>Spells := ss\<rparr> # ps', changed'))"

definition refreshRoomCooldowns :: "time \<Rightarrow> room \<Rightarrow> room \<times> bool" where
  "refreshRoomCooldowns now r =
     (case Players r of
        None \<Rightarrow> (r, False)
      | Some ps \<Rightarrow>
          (let (ps', changed) = refresh_players now ps False in (r\<lparr>Players := Some ps'\<rparr>, changed)))"

subsection \<open>The loops as maps\<close>

lemma refresh_spells_eq:
  "refresh_spells now ss c =
     (map (fst \<circ> refresh_spell now) ss, c \<or> (\<exists>s \<in> set ss. snd (refresh_spell now s)))"
  by (induction ss arbitrary: c) (auto simp: split_beta Let_def)

definition refresh_player :: "time \<Rightarrow> player \<Rightarrow> player" where
  "refresh_player now p = p\<lparr>Spells := map_option (map (fst \<circ> refresh_spell now)) (Spells p)\<rparr>"

lemma refresh_players_eq:
  "refresh_players now ps c =
     (map (refresh_player now) ps,
      c \<or> (\<exists>p \<in> set ps. \<exists>s \<in> set (elems (Spells p)). snd (refresh_spell now s)))"
  by (induction ps arbitrary: c)
     (auto simp: split_beta Let_def refresh_spells_eq refresh_player_def split: option.splits)

lemma refresh_spell_unchanged: "\<not> snd (refresh_spell now s) \<Longrightarrow> fst (refresh_spell now s) = s"
  by (auto simp: refresh_spell_def Let_def split: if_splits)

lemma refresh_spell_idem:
  "refresh_spell now (fst (refresh_spell now s)) = (fst (refresh_spell now s), False)"
  by (auto simp: refresh_spell_def Let_def)

lemma refresh_player_idem:
  "refresh_player now (refresh_player now p) = refresh_player now p"
  by (cases "Spells p") (simp_all add: refresh_player_def refresh_spell_idem)

lemma refreshRoomCooldowns_eq:
  "refreshRoomCooldowns now r =
     (r\<lparr>Players := map_option (map (refresh_player now)) (Players r)\<rparr>,
      \<exists>p \<in> set (elems (Players r)). \<exists>s \<in> set (elems (Spells p)). snd (refresh_spell now s))"
  by (cases "Players r") (auto simp: refreshRoomCooldowns_def refresh_players_eq)

lemma refresh_player_unchanged:
  assumes "\<forall>s \<in> set (elems (Spells p)). \<not> snd (refresh_spell now s)"
  shows "refresh_player now p = p"
  using assms
  by (cases "Spells p") (auto simp: refresh_player_def refresh_spell_unchanged cong: map_cong)


section \<open>Well-formed spells\<close>

text \<open>
  What every stored spell satisfies: a ready spell shows no remaining cooldown and has no end
  time, a running one has an end time, and the base cooldown is one the tables can give. An
  end time counts as one from the first second of Go's calendar on, so that the predicate does
  not depend on how finely a store keeps times. A stored player carries the default haste.
\<close>

definition wf_spell :: "summoner_spell \<Rightarrow> bool" where
  "wf_spell s \<longleftrightarrow>
     (if IsReady s then CooldownEndTime s < second \<and> RemainingCooldown s = 0
      else second \<le> CooldownEndTime s \<and> 0 \<le> RemainingCooldown s) \<and>
     15 \<le> BaseCooldown s \<and> BaseCooldown s \<le> 300"

definition wf_player :: "player \<Rightarrow> bool" where
  "wf_player p \<longleftrightarrow> SummonerSpellHaste p = DefaultSummonerSpellHaste \<and>
     (\<forall>s \<in> set (elems (Spells p)). wf_spell s)"

lemma wf_player_spell: "wf_player p \<Longrightarrow> i < length (elems (Spells p)) \<Longrightarrow> wf_spell (elems (Spells p) ! i)"
  by (simp add: wf_player_def)

lemma wf_clone_player [simp]: "wf_player (clone_player p) = wf_player p"
  by (simp add: wf_player_def)

lemma FindSpell_SomeD:
  "FindSpell p n = Some i \<Longrightarrow> i < length (elems (Spells p)) \<and> Name (elems (Spells p) ! i) = n"
  unfolding FindSpell_def by (drule find_index_SomeD) simp

lemma set_spell_simps [simp]:
  "Champion (set_spell p i s) = Champion p" "ChampionImage (set_spell p i s) = ChampionImage p"
  "GameName (set_spell p i s) = GameName p" "TagLine (set_spell p i s) = TagLine p"
  "ChampionId (set_spell p i s) = ChampionId p"
  "SummonerSpellHaste (set_spell p i s) = SummonerSpellHaste p"
  "Spells (set_spell p i s) = Some ((elems (Spells p))[i := s])"
  by (simp_all add: set_spell_def)

lemma wf_set_spell: "wf_player p \<Longrightarrow> wf_spell s \<Longrightarrow> wf_player (set_spell p i s)"
  by (auto simp: wf_player_def dest!: set_update_subset_insert [THEN subsetD])

text \<open>The cooldown of a well-formed spell under the default haste: no overflow, no panic.\<close>

definition effective_cooldown :: "summoner_spell \<Rightarrow> int" where
  "effective_cooldown s = BaseCooldown s * 100 div (100 + DefaultSummonerSpellHaste)"

lemma wf_cooldown_bounds:
  assumes "wf_spell s"
  shows "12 \<le> effective_cooldown s" "effective_cooldown s \<le> 254"
proof -
  have b: "15 \<le> BaseCooldown s" "BaseCooldown s \<le> 300"
    using assms by (simp_all add: wf_spell_def)
  have e: "effective_cooldown s = BaseCooldown s * 100 div 118"
    by (simp add: effective_cooldown_def DefaultSummonerSpellHaste_def)
  from b show "12 \<le> effective_cooldown s" unfolding e by linarith
  from b show "effective_cooldown s \<le> 254" unfolding e by linarith
qed

lemma wf_CalculateCooldown:
  "wf_spell s \<Longrightarrow>
   CalculateCooldown (BaseCooldown s) DefaultSummonerSpellHaste = Some (effective_cooldown s)"
  unfolding effective_cooldown_def
  by (rule CalculateCooldown_eq) (simp_all add: wf_spell_def DefaultSummonerSpellHaste_def)

lemma wf_cooldown_wrap:
  "wf_spell s \<Longrightarrow> wrap64 (effective_cooldown s * second) = effective_cooldown s * second"
  using wf_cooldown_bounds [of s] by (intro wrap64_id int64I) simp_all

text \<open>What a toggle does, branch by branch, for a well-formed player.\<close>

definition toggled :: "time \<Rightarrow> summoner_spell \<Rightarrow> summoner_spell" where
  "toggled now s =
     (if IsReady s then
        s\<lparr>IsReady := False, RemainingCooldown := effective_cooldown s,
          CooldownEndTime := now + effective_cooldown s * second\<rparr>
      else s\<lparr>IsReady := True, CooldownEndTime := zero_time, RemainingCooldown := 0\<rparr>)"

lemma TogglePlayerSpell_wf:
  assumes "wf_player p"
  shows "TogglePlayerSpell now p n =
     (case FindSpell p n of None \<Rightarrow> Some (p, False)
      | Some i \<Rightarrow> Some (set_spell p i (toggled now (elems (Spells p) ! i)), True))"
proof (cases "FindSpell p n")
  case None
  then show ?thesis by (simp add: TogglePlayerSpell_def)
next
  case (Some i)
  with assms have "wf_spell (elems (Spells p) ! i)"
    by (auto dest: FindSpell_SomeD wf_player_spell)
  with assms Some show ?thesis
    by (auto simp: TogglePlayerSpell_def toggled_def wf_player_def wf_CalculateCooldown wf_cooldown_wrap Let_def)
qed

lemma toggled_simps [simp]: "Name (toggled now s) = Name s" "BaseCooldown (toggled now s) = BaseCooldown s"
  "IsReady (toggled now s) \<longleftrightarrow> \<not> IsReady s"
  by (simp_all add: toggled_def)

lemma wf_toggled: "wf_spell s \<Longrightarrow> 0 \<le> now \<Longrightarrow> wf_spell (toggled now s)"
  using wf_cooldown_bounds [of s] by (auto simp: toggled_def wf_spell_def IsZero_def)

lemma wf_TogglePlayerSpell:
  assumes "wf_player p" "0 \<le> now" "TogglePlayerSpell now p n = Some (p', c)"
  shows "wf_player p'"
proof (cases "FindSpell p n")
  case None
  with assms show ?thesis by (simp add: TogglePlayerSpell_wf)
next
  case (Some i)
  with assms(1) have "wf_spell (elems (Spells p) ! i)"
    by (auto dest: FindSpell_SomeD wf_player_spell)
  with assms Some show ?thesis by (auto simp: TogglePlayerSpell_wf intro: wf_set_spell wf_toggled)
qed

lemma wf_copy_spell: "wf_player old \<Longrightarrow> wf_spell s \<Longrightarrow> wf_spell (copy_spell old s)"
  by (auto simp: copy_spell_def Let_def wf_spell_def split: option.splits
      dest!: FindSpell_SomeD wf_player_spell)

lemma wf_CopySpellState: "wf_player old \<Longrightarrow> wf_player new \<Longrightarrow> wf_player (CopySpellState old new)"
  by (cases "Spells new") (auto simp: CopySpellState_def wf_player_def intro: wf_copy_spell [unfolded wf_player_def])

lemma wf_refresh_spell: "wf_spell s \<Longrightarrow> wf_spell (fst (refresh_spell now s))"
  by (auto simp: refresh_spell_def Let_def wf_spell_def go_defs split: if_splits)

lemma wf_refresh_player: "wf_player p \<Longrightarrow> wf_player (refresh_player now p)"
  by (cases "Spells p") (auto simp: refresh_player_def wf_player_def wf_refresh_spell)

text \<open>The countdown of a running spell.\<close>

lemma refresh_running:
  assumes "wf_spell s" "\<not> IsReady s" "int64 (CooldownEndTime s - now)"
  shows "fst (refresh_spell now s) =
     (if CooldownEndTime s - now < second
      then s\<lparr>IsReady := True, RemainingCooldown := 0, CooldownEndTime := zero_time\<rparr>
      else s\<lparr>RemainingCooldown := (CooldownEndTime s - now) div second\<rparr>)"
proof -
  let ?d = "CooldownEndTime s - now"
  have sub: "time_sub (CooldownEndTime s) now = ?d"
    using assms(3) by (rule time_sub_exact)
  have nz: "\<not> IsZero (CooldownEndTime s)"
    using assms(1,2) by (simp add: wf_spell_def IsZero_def)
  have upd: "s\<lparr>RemainingCooldown := q\<rparr> = s" if "RemainingCooldown s = q" for q
    using that by simp
  show ?thesis
  proof (cases "?d < second")
    case True
    then have "whole_seconds ?d \<le> 0" using whole_seconds_pos [of ?d] by linarith
    with True nz assms(2) show ?thesis by (simp add: refresh_spell_def sub Let_def)
  next
    case False
    then have "\<not> whole_seconds ?d \<le> 0" using whole_seconds_pos [of ?d] by linarith
    moreover have "whole_seconds ?d = ?d div second"
      using False by (simp add: whole_seconds_def sdiv_nonneg)
    ultimately show ?thesis
      using False nz assms(2) upd by (simp add: refresh_spell_def sub Let_def)
  qed
qed

section \<open>Properties\<close>



text \<open>
  A toggle by mistake can be taken back: toggling a ready spell and toggling it again,
  at any later time, restores the player exactly.
\<close>

theorem toggle_twice_restores_ready_spell:
  assumes "wf_player p" "Spells p = Some ss" "FindSpell p n = Some i"
    and "IsReady (ss ! i)" "CooldownEndTime (ss ! i) = zero_time"
  shows "\<exists>p1. TogglePlayerSpell now p n = Some (p1, True) \<and> TogglePlayerSpell now' p1 n = Some (p, True)"
proof -
  let ?s = "ss ! i" and ?p1 = "set_spell p i (toggled now (ss ! i))"
  have i: "i < length ss" using FindSpell_SomeD [OF assms(3)] assms(2) by simp
  have wf: "wf_spell ?s" using wf_player_spell [OF assms(1), of i] assms(2) i by simp
  have "FindSpell ?p1 n = FindSpell p n"
    unfolding FindSpell_def using i assms(2) by (intro find_index_cong) (auto simp: nth_list_update)
  then have f: "FindSpell ?p1 n = Some i" using assms(3) by simp
  have "toggled now' (toggled now ?s) = ?s"
    using wf assms(4,5) by (simp add: toggled_def wf_spell_def)
  moreover have "toggled now' (toggled now ?s) =
      (toggled now ?s)\<lparr>IsReady := True, CooldownEndTime := zero_time, RemainingCooldown := 0\<rparr>"
    using assms(4) by (simp add: toggled_def)
  ultimately have "TogglePlayerSpell now' ?p1 n = Some (set_spell ?p1 i ?s, True)"
    using f i assms(2,4) by (simp add: TogglePlayerSpell_def)
  moreover have "set_spell ?p1 i ?s = p" using assms(2) by (simp add: set_spell_def)
  moreover have "TogglePlayerSpell now p n = Some (?p1, True)"
    using TogglePlayerSpell_wf [OF assms(1), of now n] assms(2,3) by simp
  ultimately show ?thesis by simp
qed

theorem toggle_twice_restores_ready_spell_witness:
  "\<exists>p p1. TogglePlayerSpell 5 p ''Flash'' = Some (p1, True) \<and> TogglePlayerSpell 9 p1 ''Flash'' = Some (p, True)"
proof -
  let ?ss = "[\<lparr>Name = ''Flash'', IsReady = True, BaseCooldown = 300, CooldownEndTime = zero_time, RemainingCooldown = 0\<rparr>]"
  let ?p = "\<lparr>Champion = [], ChampionImage = [], GameName = ''me'', TagLine = ''EUW'', ChampionId = 1,
             SummonerSpellHaste = 18, Spells = Some ?ss\<rparr>"
  have "wf_player ?p" "Spells ?p = Some ?ss" "FindSpell ?p ''Flash'' = Some 0" "IsReady (?ss ! 0)"
    "CooldownEndTime (?ss ! 0) = zero_time"
    by (simp_all add: wf_player_def wf_spell_def DefaultSummonerSpellHaste_def FindSpell_def)
  from toggle_twice_restores_ready_spell [OF this] show ?thesis by blast
qed

text \<open>
  The countdown: refreshing a running spell shows the whole seconds that are left, and
  makes it ready when less than one is left; the end of the cooldown never moves.
\<close>

theorem countdown_of_running_spell:
  assumes "wf_spell s" "\<not> IsReady s" "int64 (CooldownEndTime s - now)"
  shows "let s' = fst (refresh_spell now s); left = CooldownEndTime s - now in
    if left < second then IsReady s' \<and> RemainingCooldown s' = 0 \<and> CooldownEndTime s' = zero_time
    else \<not> IsReady s' \<and> RemainingCooldown s' = left div second \<and> CooldownEndTime s' = CooldownEndTime s"
  using refresh_running [OF assms] assms(2) by (simp add: Let_def)

theorem countdown_of_running_spell_witness:
  "IsReady (fst (refresh_spell (9 * second)
     \<lparr>Name = ''Flash'', IsReady = False, BaseCooldown = 300, CooldownEndTime = 9 * second, RemainingCooldown = 3\<rparr>))"
proof -
  let ?s = "\<lparr>Name = ''Flash'', IsReady = False, BaseCooldown = 300, CooldownEndTime = 9 * second, RemainingCooldown = 3\<rparr>"
  have "wf_spell ?s" "\<not> IsReady ?s" "int64 (CooldownEndTime ?s - 9 * second)"
    by (simp_all add: wf_spell_def int64_def)
  from countdown_of_running_spell [OF this] show ?thesis by (simp add: Let_def)
qed

text \<open>
  Refreshing is idempotent: a second refresh of a room at the same time changes nothing
  and reports that nothing changed, so an unchanged room is not saved or announced again.
\<close>

theorem refresh_room_idempotent:
  "refreshRoomCooldowns now (fst (refreshRoomCooldowns now r)) = (fst (refreshRoomCooldowns now r), False)"
proof -
  have "\<not> snd (refresh_spell now s)" if "s \<in> set (elems (Spells (refresh_player now p)))" for s p
    using that by (cases "Spells p") (auto simp: refresh_player_def refresh_spell_idem)
  then show ?thesis
    by (cases "Players r") (auto simp: refreshRoomCooldowns_eq refresh_player_idem comp_def)
qed

end
