(* ===== verification/RoomStore.thy ===== *)
theory RoomStore
  imports Spells "HOL-Library.AList" "HOL-Library.Multiset"
begin

text \<open>
  The room repository interface (\<open>internal/repositories/room_repository.go\<close>) as a locale,
  and its in-memory implementation (\<open>in_memory_room_repository.go\<close>).
\<close>

section \<open>What a store keeps of a room\<close>

text \<open>
  A store hands out rooms whose slices are not nil and whose times went through its own
  representation: \<open>f\<close> for the end of a cooldown, \<open>g\<close> for the time of the last update.
\<close>

definition store_spell :: "(time \<Rightarrow> time) \<Rightarrow> summoner_spell \<Rightarrow> summoner_spell" where
  "store_spell f s = s\<lparr>CooldownEndTime := f (CooldownEndTime s)\<rparr>"

definition store_player :: "(time \<Rightarrow> time) \<Rightarrow> player \<Rightarrow> player" where
  "store_player f p = p\<lparr>Spells := Some (map (store_spell f) (elems (Spells p)))\<rparr>"

definition store_room :: "(time \<Rightarrow> time) \<Rightarrow> (time \<Rightarrow> time) \<Rightarrow> room \<Rightarrow> room" where
  "store_room f g r =
     r\<lparr>Players := Some (map (store_player f) (elems (Players r))), LastUpdated := g (LastUpdated r)\<rparr>"

lemma store_spell_simps [simp]:
  "Name (store_spell f s) = Name s" "IsReady (store_spell f s) = IsReady s"
  "BaseCooldown (store_spell f s) = BaseCooldown s"
  "RemainingCooldown (store_spell f s) = RemainingCooldown s"
  "CooldownEndTime (store_spell f s) = f (CooldownEndTime s)"
  by (simp_all add: store_spell_def)

lemma store_player_simps [simp]:
  "Champion (store_player f p) = Champion p" "ChampionImage (store_player f p) = ChampionImage p"
  "GameName (store_player f p) = GameName p" "TagLine (store_player f p) = TagLine p"
  "ChampionId (store_player f p) = ChampionId p"
  "SummonerSpellHaste (store_player f p) = SummonerSpellHaste p"
  "Spells (store_player f p) = Some (map (store_spell f) (elems (Spells p)))"
  by (simp_all add: store_player_def)

lemma store_room_simps [simp]:
  "Id (store_room f g r) = Id r" "LastUpdated (store_room f g r) = g (LastUpdated r)"
  "Players (store_room f g r) = Some (map (store_player f) (elems (Players r)))"
  by (simp_all add: store_room_def)

lemma store_spell_id [simp]: "store_spell (\<lambda>t. t) = (\<lambda>s. s)"
  by (rule ext) (simp add: store_spell_def)

lemma store_player_id [simp]: "store_player (\<lambda>t. t) = clone_player"
  by (rule ext) (simp add: store_player_def clone_player_def)

lemma store_room_id [simp]: "store_room (\<lambda>t. t) (\<lambda>t. t) = Clone"
  by (rule ext) (simp add: store_room_def Clone_def)

text \<open>What a read may return for a stored value: the value, or a room that is stored as it.\<close>

definition agree :: "(time \<Rightarrow> time) \<Rightarrow> (time \<Rightarrow> time) \<Rightarrow> room \<Rightarrow> room \<Rightarrow> bool" where
  "agree f g x v \<longleftrightarrow> x = v \<or> store_room f g x = v"

lemma agree_refl [simp]: "agree f g x x"
  by (simp add: agree_def)

lemma agree_Id: "agree f g x v \<Longrightarrow> Id x = Id v"
  by (auto simp: agree_def)

section \<open>The interface\<close>

text \<open>
  The four operations over the state \<open>'s\<close> of an implementation. \<open>Get\<close> returns a room
  or, with \<open>exists = false\<close>, none; a nil room is \<open>None\<close> for \<open>Save\<close>.
\<close>

record 's room_repo =
  repo_get :: "string \<Rightarrow> 's \<Rightarrow> 's \<times> (go_error + room option)"
  repo_get_all :: "'s \<Rightarrow> 's \<times> (go_error + room list)"
  repo_save :: "room option \<Rightarrow> 's \<Rightarrow> 's \<times> (go_error + unit)"
  repo_delete :: "string \<Rightarrow> 's \<Rightarrow> 's \<times> (go_error + unit)"

text \<open>
  The contract. \<open>view\<close> is the abstract content, a map from identifiers to stored rooms. A
  failed write leaves the old content or, when only the reply was lost, the new one.
\<close>

locale room_repository =
  fixes r :: "'s room_repo"
    and view :: "'s \<Rightarrow> string \<Rightarrow> room option"
    and inv :: "'s \<Rightarrow> bool"
    and f g :: "time \<Rightarrow> time"
  assumes view_Id: "inv s \<Longrightarrow> view s i = Some v \<Longrightarrow> Id v = i"
    and get_inv: "inv s \<Longrightarrow> repo_get r i s = (s', res) \<Longrightarrow> inv s' \<and> view s' = view s"
    and get_None: "inv s \<Longrightarrow> repo_get r i s = (s', Inr None) \<Longrightarrow> view s i = None"
    and get_Some: "inv s \<Longrightarrow> repo_get r i s = (s', Inr (Some x)) \<Longrightarrow>
           \<exists>v. view s i = Some v \<and> agree f g x v"
    and get_all_inv: "inv s \<Longrightarrow> repo_get_all r s = (s', res2) \<Longrightarrow> inv s' \<and> view s' = view s"
    and get_all_Inr: "inv s \<Longrightarrow> repo_get_all r s = (s', Inr xs) \<Longrightarrow>
           set xs = ran (view s) \<and> distinct (map Id xs)"
    and save_nil: "inv s \<Longrightarrow> repo_save r None s = (s', res3) \<Longrightarrow> inv s' \<and> view s' = view s"
    and save_Inr: "inv s \<Longrightarrow> Id x \<noteq> [] \<Longrightarrow> repo_save r (Some x) s = (s', Inr u) \<Longrightarrow>
           inv s' \<and> view s' = (view s)(Id x \<mapsto> store_room f g x)"
    and save_Inl: "inv s \<Longrightarrow> Id x \<noteq> [] \<Longrightarrow> repo_save r (Some x) s = (s', Inl e) \<Longrightarrow>
           inv s' \<and> (view s' = view s \<or> view s' = (view s)(Id x \<mapsto> store_room f g x))"
    and delete_Inr: "inv s \<Longrightarrow> repo_delete r i s = (s', Inr u) \<Longrightarrow>
           inv s' \<and> view s' = (view s)(i := None)"
    and delete_Inl: "inv s \<Longrightarrow> repo_delete r i s = (s', Inl e) \<Longrightarrow>
           inv s' \<and> (view s' = view s \<or> view s' = (view s)(i := None))"
begin

lemma get_Id: "inv s \<Longrightarrow> repo_get r i s = (s', Inr (Some x)) \<Longrightarrow> Id x = i"
  using get_Some view_Id agree_Id by metis

lemma get_known:
  "inv s \<Longrightarrow> repo_get r i s = (s', Inr ro) \<Longrightarrow> view s i = None \<longleftrightarrow> ro = None"
  using get_None get_Some by (cases ro) fastforce+

text \<open>A room that was saved is the room that is read back, whatever happens to other rooms.\<close>

lemma save_then_get:
  assumes "inv s" "Id x \<noteq> []" "repo_save r (Some x) s = (s1, Inr u)"
    and "repo_get r (Id x) s1 = (s2, Inr ro)"
  shows "\<exists>y. ro = Some y \<and> agree f g y (store_room f g x)"
proof -
  from save_Inr [OF assms(1-3)] have s1: "inv s1" "view s1 (Id x) = Some (store_room f g x)"
    by simp_all
  with assms(4) get_None obtain y where "ro = Some y" by (cases ro) fastforce+
  with get_Some [OF s1(1)] assms(4) s1(2) show ?thesis by fastforce
qed

lemma delete_then_get:
  "inv s \<Longrightarrow> repo_delete r i s = (s1, Inr u) \<Longrightarrow> repo_get r i s1 = (s2, Inr ro) \<Longrightarrow> ro = None"
  by (metis delete_Inr fun_upd_same get_known)

lemma get_all_lookup:
  assumes "inv s" "repo_get_all r s = (s', Inr xs)"
  shows "x \<in> set xs \<longleftrightarrow> view s (Id x) = Some x"
  using get_all_Inr [OF assms] view_Id [OF assms(1)] by (auto simp: ran_def)

end

section \<open>The in-memory repository\<close>

text \<open>
  A map from identifiers to rooms under a lock, so each operation is atomic; each starts by
  asking \<open>ctx.Err()\<close>. The map is an association list. Go iterates over a map in an
  unspecified order, which is the field \<open>mem_order\<close>. Rooms are cloned in and out.
\<close>

record mem_repo =
  mem_rooms :: "(string \<times> room) list"
  mem_polls :: polls
  mem_order :: "room list \<Rightarrow> room list"

definition mem_Get :: "string \<Rightarrow> mem_repo \<Rightarrow> mem_repo \<times> (go_error + room option)" where
  "mem_Get i s =
     (let s' = s\<lparr>mem_polls := rest_polls (mem_polls s)\<rparr>
      in case next_poll (mem_polls s) of
           Some e \<Rightarrow> (s', Inl e)
         | None \<Rightarrow> (s', Inr (map_option Clone (map_of (mem_rooms s) i))))"

definition mem_GetAll :: "mem_repo \<Rightarrow> mem_repo \<times> (go_error + room list)" where
  "mem_GetAll s =
     (let s' = s\<lparr>mem_polls := rest_polls (mem_polls s)\<rparr>
      in case next_poll (mem_polls s) of
           Some e \<Rightarrow> (s', Inl e)
         | None \<Rightarrow> (s', Inr (map Clone (mem_order s (map snd (mem_rooms s))))))"

definition mem_Save :: "room option \<Rightarrow> mem_repo \<Rightarrow> mem_repo \<times> (go_error + unit)" where
  "mem_Save ro s =
     (let s' = s\<lparr>mem_polls := rest_polls (mem_polls s)\<rparr>
      in case next_poll (mem_polls s) of
           Some e \<Rightarrow> (s', Inl e)
         | None \<Rightarrow> (case ro of
               None \<Rightarrow> (s', Inr ())
             | Some x \<Rightarrow> (s'\<lparr>mem_rooms := AList.update (Id x) (Clone x) (mem_rooms s)\<rparr>, Inr ())))"

definition mem_Delete :: "string \<Rightarrow> mem_repo \<Rightarrow> mem_repo \<times> (go_error + unit)" where
  "mem_Delete i s =
     (let s' = s\<lparr>mem_polls := rest_polls (mem_polls s)\<rparr>
      in case next_poll (mem_polls s) of
           Some e \<Rightarrow> (s', Inl e)
         | None \<Rightarrow> (s'\<lparr>mem_rooms := AList.delete i (mem_rooms s)\<rparr>, Inr ()))"

definition NewInMemoryRoomRepository :: "polls \<Rightarrow> (room list \<Rightarrow> room list) \<Rightarrow> mem_repo" where
  "NewInMemoryRoomRepository ps order = \<lparr>mem_rooms = [], mem_polls = ps, mem_order = order\<rparr>"

definition in_memory_repo :: "mem_repo room_repo" where
  "in_memory_repo = \<lparr>repo_get = mem_Get, repo_get_all = mem_GetAll, repo_save = mem_Save,
                     repo_delete = mem_Delete\<rparr>"

definition mem_view :: "mem_repo \<Rightarrow> string \<Rightarrow> room option" where
  "mem_view s = map_of (mem_rooms s)"

definition mem_inv :: "mem_repo \<Rightarrow> bool" where
  "mem_inv s \<longleftrightarrow> distinct (map fst (mem_rooms s)) \<and>
     (\<forall>(i, x) \<in> set (mem_rooms s). Id x = i \<and> Clone x = x) \<and>
     (\<forall>xs. mset (mem_order s xs) = mset xs)"

lemmas mem_defs = mem_Get_def mem_GetAll_def mem_Save_def mem_Delete_def mem_view_def
  in_memory_repo_def Let_def

lemma mem_inv_new: "(\<And>xs. mset (order xs) = mset xs) \<Longrightarrow> mem_inv (NewInMemoryRoomRepository ps order)"
  by (simp add: mem_inv_def NewInMemoryRoomRepository_def)

lemma map_of_AList_update: "map_of (AList.update k v xs) = (map_of xs)(k \<mapsto> v)"
  by (simp add: AList.update_conv fun_eq_iff)

lemma map_of_AList_delete: "map_of (AList.delete k xs) = (map_of xs)(k := None)"
  by (simp add: AList.delete_conv fun_eq_iff)

lemma set_AList_update: "(i, x) \<in> set (AList.update k v xs) \<Longrightarrow> (i, x) = (k, v) \<or> (i, x) \<in> set xs"
  by (induction xs) (auto split: if_splits)

lemma mem_inv_update: "mem_inv s \<Longrightarrow> mem_inv (s\<lparr>mem_polls := ps, mem_rooms := AList.update (Id x) (Clone x) (mem_rooms s)\<rparr>)"
  by (auto simp: mem_inv_def distinct_update dest!: set_AList_update)

lemma mem_inv_delete: "mem_inv s \<Longrightarrow> mem_inv (s\<lparr>mem_polls := ps, mem_rooms := AList.delete i (mem_rooms s)\<rparr>)"
  by (auto simp: mem_inv_def AList.delete_eq distinct_map_filter)

lemma mem_inv_polls [simp]: "mem_inv (s\<lparr>mem_polls := ps\<rparr>) = mem_inv s"
  by (simp add: mem_inv_def)

lemma mem_inv_lookup: "mem_inv s \<Longrightarrow> map_of (mem_rooms s) i = Some x \<Longrightarrow> Id x = i \<and> Clone x = x"
  by (auto simp: mem_inv_def dest: map_of_SomeD)

lemma mem_GetAll_rooms:
  assumes "mem_inv s" "xs = map Clone (mem_order s (map snd (mem_rooms s)))"
  shows "set xs = ran (map_of (mem_rooms s))" "distinct (map Id xs)"
proof -
  let ?ys = "map snd (mem_rooms s)"
  have ids: "map Id ?ys = map fst (mem_rooms s)"
    using assms(1) by (auto simp: mem_inv_def intro!: map_cong)
  have m: "mset (mem_order s ?ys) = mset ?ys"
    using assms(1) by (simp add: mem_inv_def)
  have "Clone ` set ?ys = (\<lambda>x. x) ` set ?ys"
    using assms(1) by (intro image_cong) (auto simp: mem_inv_def)
  then have cl: "Clone ` set ?ys = set ?ys" by simp
  have "set xs = set ?ys"
    using assms(2) cl mset_eq_setD [OF m] by simp
  then show "set xs = ran (map_of (mem_rooms s))"
    using assms(1) by (simp add: mem_inv_def ran_distinct)
  have "mset (map Id xs) = mset (map Id ?ys)"
    using m assms(2) by (simp add: multiset.map_comp comp_def)
  then have "distinct (map Id xs) \<longleftrightarrow> distinct (map Id ?ys)"
    by (rule mset_eq_imp_distinct_iff)
  then show "distinct (map Id xs)"
    unfolding ids using assms(1) by (simp add: mem_inv_def)
qed

interpretation mem: room_repository in_memory_repo mem_view mem_inv "\<lambda>t. t" "\<lambda>t. t"
proof (unfold_locales, goal_cases)
  case (1 s i v)
  then show ?case by (auto simp: mem_view_def dest: mem_inv_lookup)
next
  case (4 s i s' x)
  then show ?case
    by (auto simp: mem_defs agree_def split: option.splits) (metis mem_inv_lookup)
next
  case (6 s s' xs)
  then show ?case by (auto simp: mem_defs mem_GetAll_rooms split: option.splits)
qed (auto simp: mem_defs map_of_AList_update map_of_AList_delete mem_inv_update mem_inv_delete
       split: option.splits)

end
