(* ===== verification/Events.thy ===== *)
theory Events
  imports Prelude "HOL-Library.Word"
begin

unbundle bit_operations_syntax

text \<open>
  Events and their wire format (\<open>internal/messaging\<close>: \<open>events.go\<close>, \<open>durable_events.go\<close>,
  \<open>game_events.go\<close>, \<open>dead_letter_events.go\<close>, \<open>dead_letter_publisher.go\<close>) and the two
  publishing calls of the NATS client (\<open>nats.go\<close>, \<open>jetstream.go\<close>).
\<close>

section \<open>Subjects, streams, consumers\<close>

definition SubjectCurrentRoomChanged :: string where
  [go_defs]: "SubjectCurrentRoomChanged = ''room.current.changed''"

definition SubjectRoomUpdated :: string where
  [go_defs]: "SubjectRoomUpdated = ''room.updated''"

definition SubjectGameStarted :: string where
  [go_defs]: "SubjectGameStarted = ''game.started''"

definition SubjectGameEnded :: string where
  [go_defs]: "SubjectGameEnded = ''game.ended''"

definition SubjectGameDeadLetter :: string where
  [go_defs]: "SubjectGameDeadLetter = ''dead.game''"

definition ConsumerGameEvents :: string where
  [go_defs]: "ConsumerGameEvents = ''game-events-processor''"

section \<open>JSON payloads\<close>

text \<open>
  A \<open>[]byte\<close> payload is modelled by what \<open>encoding/json\<close> sees in it. For the struct it is
  decoded into, every field of the document is missing, null, of a wrong type or out of
  range, or a value; the document may also be empty, not JSON, the literal null, or JSON
  that is not an object. A missing or null field keeps the zero value; a bad one is an
  error. The wire type \<open>'w\<close> is the record of the fields of one struct.
\<close>

datatype 'a jfield = Absent | JNull | JBad | JVal 'a

datatype 'w payload = EmptyBytes | Malformed | NullDocument | NonObject | Object 'w

definition field_or :: "'a \<Rightarrow> 'a jfield \<Rightarrow> 'a option" where
  "field_or z fld = (case fld of Absent \<Rightarrow> Some z | JNull \<Rightarrow> Some z | JBad \<Rightarrow> None | JVal v \<Rightarrow> Some v)"

definition json_valid :: "'w payload \<Rightarrow> bool" where
  [go_defs]: "json_valid p \<longleftrightarrow> p \<noteq> EmptyBytes \<and> p \<noteq> Malformed"

definition json_error :: go_error where
  "json_error = External ''json: cannot decode''"

definition unmarshal :: "('w \<Rightarrow> 'e option) \<Rightarrow> 'e \<Rightarrow> 'w payload \<Rightarrow> go_error + 'e" where
  "unmarshal dec zero p =
     (case p of
        Object w \<Rightarrow> (case dec w of None \<Rightarrow> Inl json_error | Some e \<Rightarrow> Inr e)
      | NullDocument \<Rightarrow> Inr zero
      | _ \<Rightarrow> Inl json_error)"

lemma field_or_simps [simp]:
  "field_or z Absent = Some z" "field_or z JNull = Some z"
  "field_or z JBad = None" "field_or z (JVal v) = Some v"
  by (simp_all add: field_or_def)

lemma unmarshal_simps [simp]:
  "unmarshal dec zero (Object w) = (case dec w of None \<Rightarrow> Inl json_error | Some e \<Rightarrow> Inr e)"
  "unmarshal dec zero NullDocument = Inr zero"
  "unmarshal dec zero EmptyBytes = Inl json_error"
  "unmarshal dec zero Malformed = Inl json_error"
  "unmarshal dec zero NonObject = Inl json_error"
  by (simp_all add: unmarshal_def)

section \<open>Room notifications\<close>

text \<open>Both structs have the one field \<open>roomId\<close>.\<close>

record room_event = EventRoomID :: string

type_synonym room_payload = "string jfield payload"

definition marshal_room_event :: "room_event \<Rightarrow> room_payload" where
  "marshal_room_event e = Object (JVal (EventRoomID e))"

definition unmarshal_room_event :: "room_payload \<Rightarrow> go_error + room_event" where
  "unmarshal_room_event =
     unmarshal (\<lambda>w. map_option (\<lambda>i. \<lparr>EventRoomID = i\<rparr>) (field_or [] w)) \<lparr>EventRoomID = []\<rparr>"

lemma room_event_roundtrip [simp]: "unmarshal_room_event (marshal_room_event e) = Inr e"
  by (simp add: unmarshal_room_event_def marshal_room_event_def)

text \<open>
  \<open>Client.Publish\<close> on the core NATS connection: the messages handed to the server, in
  order, and the schedule of the outcomes of the calls.
\<close>

record nats =
  nats_sent :: "(string \<times> room_payload) list"
  nats_faults :: "fault list"

definition Publish :: "string \<Rightarrow> room_payload \<Rightarrow> nats \<Rightarrow> nats \<times> (go_error + unit)" where
  "Publish subject data n =
     (let n1 = n\<lparr>nats_faults := rest_faults (nats_faults n)\<rparr>;
          n2 = n1\<lparr>nats_sent := nats_sent n @ [(subject, data)]\<rparr>;
          err = (\<lambda>e. Inl (Errorf [Txt ''publish '', Quoted subject, Txt '': '', Wrapped e]))
      in case next_fault (nats_faults n) of
           NoFault \<Rightarrow> (n2, Inr ())
         | FailBefore e \<Rightarrow> (n1, err e)
         | FailAfter e \<Rightarrow> (n2, err e))"

section \<open>Game events\<close>

definition GameEventVersion :: int where
  "GameEventVersion = 1"

record event_metadata =
  EventID :: string
  OccurredAt :: time
  Version :: int

text \<open>\<open>GameStartedEvent\<close> and \<open>GameEndedEvent\<close> have the same fields.\<close>

record game_event = event_metadata +
  GameID :: int
  RoomID :: string

record game_wire =
  w_eventId :: "string jfield"
  w_occurredAt :: "time jfield"
  w_version :: "int jfield"
  w_gameId :: "int jfield"
  w_roomId :: "string jfield"

type_synonym game_payload = "game_wire payload"

definition marshal_game_event :: "game_event \<Rightarrow> game_payload" where
  "marshal_game_event e =
     Object \<lparr>w_eventId = JVal (EventID e), w_occurredAt = JVal (OccurredAt e),
             w_version = JVal (Version e), w_gameId = JVal (GameID e), w_roomId = JVal (RoomID e)\<rparr>"

definition decode_game_wire :: "game_wire \<Rightarrow> game_event option" where
  "decode_game_wire w =
     Option.bind (field_or [] (w_eventId w)) (\<lambda>i.
     Option.bind (field_or zero_time (w_occurredAt w)) (\<lambda>t.
     Option.bind (field_or 0 (w_version w)) (\<lambda>v.
     Option.bind (field_or 0 (w_gameId w)) (\<lambda>g.
     Option.bind (field_or [] (w_roomId w)) (\<lambda>r.
       Some \<lparr>EventID = i, OccurredAt = t, Version = v, GameID = g, RoomID = r\<rparr>)))))"

definition unmarshal_game_event :: "game_payload \<Rightarrow> go_error + game_event" where
  "unmarshal_game_event =
     unmarshal decode_game_wire
       \<lparr>EventID = [], OccurredAt = zero_time, Version = 0, GameID = 0, RoomID = []\<rparr>"

lemma game_event_roundtrip [simp]: "unmarshal_game_event (marshal_game_event e) = Inr e"
  by (simp add: unmarshal_game_event_def marshal_game_event_def decode_game_wire_def)

lemma marshal_game_event_valid [simp]: "json_valid (marshal_game_event e)"
  by (simp add: marshal_game_event_def json_valid_def)

text \<open>
  The checks of \<open>messaging.validateGameEvent\<close>, in order.
\<close>

definition validateGameEvent :: "'a event_metadata_scheme \<Rightarrow> int \<Rightarrow> string \<Rightarrow> go_error option" where
  "validateGameEvent m gameID roomID =
     (if EventID m = [] then Some (Errorf [Txt ''event ID is required''])
      else if IsZero (OccurredAt m) then Some (Errorf [Txt ''occurredAt is required''])
      else if Version m \<le> 0 then Some (Errorf [Txt ''event version must be positive''])
      else if gameID \<le> 0 then Some (Errorf [Txt ''game ID must be positive''])
      else if roomID = [] then Some (Errorf [Txt ''room ID is required''])
      else None)"

lemma validateGameEvent_None_iff:
  "validateGameEvent m g r = None \<longleftrightarrow>
     EventID m \<noteq> [] \<and> OccurredAt m \<noteq> zero_time \<and> 0 < Version m \<and> 0 < g \<and> r \<noteq> []"
  by (simp add: validateGameEvent_def IsZero_def not_le)

section \<open>Event identifiers\<close>

text \<open>
  \<open>newEventID\<close>: 16 bytes from \<open>crypto/rand\<close>, with the version and the variant set by bit
  masks, printed in the five groups of a UUID. The bytes are the argument; a failing source
  is an error of the caller.
\<close>

definition hex_byte :: "8 word \<Rightarrow> string" where
  "hex_byte b = [hex_digit (unat (b AND 0xF0) div 16), hex_digit (unat (b AND 0x0F))]"

definition hex_bytes :: "8 word list \<Rightarrow> string" where
  "hex_bytes bs = concat (map hex_byte bs)"

definition set_uuid_bits :: "8 word list \<Rightarrow> 8 word list" where
  "set_uuid_bits v =
     (let v1 = v[6 := ((v ! 6) AND 0x0F) OR 0x40] in v1[8 := ((v1 ! 8) AND 0x3F) OR 0x80])"

definition uuid_text :: "8 word list \<Rightarrow> string" where
  "uuid_text v =
     hex_bytes (take 4 v) @ ''-'' @ hex_bytes (take 2 (drop 4 v)) @ ''-'' @
     hex_bytes (take 2 (drop 6 v)) @ ''-'' @ hex_bytes (take 2 (drop 8 v)) @ ''-'' @
     hex_bytes (take 6 (drop 10 v))"

definition newEventID :: "go_error + 8 word list \<Rightarrow> go_error + string" where
  "newEventID rnd =
     (case rnd of
        Inl e \<Rightarrow> Inl (Errorf [Txt ''generate event ID: '', Wrapped e])
      | Inr value \<Rightarrow> Inr (uuid_text (set_uuid_bits value)))"

definition NewEventMetadata :: "go_error + 8 word list \<Rightarrow> time \<Rightarrow> go_error + event_metadata" where
  "NewEventMetadata rnd now =
     (case newEventID rnd of
        Inl e \<Rightarrow> Inl e
      | Inr eventID \<Rightarrow> Inr \<lparr>EventID = eventID, OccurredAt = now, Version = GameEventVersion\<rparr>)"

lemma length_hex_byte [simp]: "length (hex_byte b) = 2"
  by (simp add: hex_byte_def)

lemma length_hex_bytes [simp]: "length (hex_bytes bs) = 2 * length bs"
  by (induction bs) (simp_all add: hex_bytes_def)

lemma length_set_uuid_bits [simp]: "length (set_uuid_bits v) = length v"
  by (simp add: set_uuid_bits_def Let_def)

lemma newEventID_nonempty: "newEventID rnd = Inr i \<Longrightarrow> i \<noteq> []"
  by (auto simp: newEventID_def uuid_text_def split: sum.splits)

lemma NewEventMetadata_Inr:
  "NewEventMetadata rnd now = Inr m \<Longrightarrow> EventID m \<noteq> [] \<and> OccurredAt m = now \<and> Version m = 1"
  by (auto simp: NewEventMetadata_def GameEventVersion_def split: sum.splits dest: newEventID_nonempty)

section \<open>Dead letters\<close>

record game_dead_letter = event_metadata +
  OriginalSubject :: string
  OriginalPayload :: game_payload
  DLError :: string
  DeliveryCount :: nat
  SourceStream :: string
  StreamSequence :: nat
  Consumer :: string

record dead_wire =
  d_eventId :: "string jfield"
  d_occurredAt :: "time jfield"
  d_version :: "int jfield"
  d_originalSubject :: "string jfield"
  d_originalPayload :: "game_payload jfield"
  d_error :: "string jfield"
  d_deliveryCount :: "nat jfield"
  d_sourceStream :: "string jfield"
  d_streamSequence :: "nat jfield"
  d_consumer :: "string jfield"

type_synonym dead_payload = "dead_wire payload"

definition marshal_dead_letter :: "game_dead_letter \<Rightarrow> dead_payload" where
  "marshal_dead_letter e =
     Object \<lparr>d_eventId = JVal (EventID e), d_occurredAt = JVal (OccurredAt e),
             d_version = JVal (Version e), d_originalSubject = JVal (OriginalSubject e),
             d_originalPayload = JVal (OriginalPayload e), d_error = JVal (DLError e),
             d_deliveryCount = JVal (DeliveryCount e), d_sourceStream = JVal (SourceStream e),
             d_streamSequence = JVal (StreamSequence e), d_consumer = JVal (Consumer e)\<rparr>"

definition zero_dead_letter :: game_dead_letter where
  "zero_dead_letter =
     \<lparr>EventID = [], OccurredAt = zero_time, Version = 0, OriginalSubject = [],
      OriginalPayload = EmptyBytes, DLError = [], DeliveryCount = 0, SourceStream = [],
      StreamSequence = 0, Consumer = []\<rparr>"

definition decode_dead_wire :: "dead_wire \<Rightarrow> game_dead_letter option" where
  "decode_dead_wire w =
     Option.bind (field_or [] (d_eventId w)) (\<lambda>i.
     Option.bind (field_or zero_time (d_occurredAt w)) (\<lambda>t.
     Option.bind (field_or 0 (d_version w)) (\<lambda>v.
     Option.bind (field_or [] (d_originalSubject w)) (\<lambda>sub.
     Option.bind (field_or EmptyBytes (d_originalPayload w)) (\<lambda>p.
     Option.bind (field_or [] (d_error w)) (\<lambda>er.
     Option.bind (field_or 0 (d_deliveryCount w)) (\<lambda>n.
     Option.bind (field_or [] (d_sourceStream w)) (\<lambda>st.
     Option.bind (field_or 0 (d_streamSequence w)) (\<lambda>sq.
     Option.bind (field_or [] (d_consumer w)) (\<lambda>c.
       Some \<lparr>EventID = i, OccurredAt = t, Version = v, OriginalSubject = sub,
             OriginalPayload = p, DLError = er, DeliveryCount = n, SourceStream = st,
             StreamSequence = sq, Consumer = c\<rparr>))))))))))"

definition unmarshal_dead_letter :: "dead_payload \<Rightarrow> go_error + game_dead_letter" where
  "unmarshal_dead_letter = unmarshal decode_dead_wire zero_dead_letter"

lemma dead_letter_roundtrip [simp]: "unmarshal_dead_letter (marshal_dead_letter e) = Inr e"
  by (simp add: unmarshal_dead_letter_def marshal_dead_letter_def decode_dead_wire_def)

definition validateGameDeadLetterEvent :: "game_dead_letter \<Rightarrow> go_error option" where
  "validateGameDeadLetterEvent e =
     (if EventID e = [] then Some (Errorf [Txt ''event ID is required''])
      else if IsZero (OccurredAt e) then Some (Errorf [Txt ''occurredAt is required''])
      else if Version e \<le> 0 then Some (Errorf [Txt ''event version must be positive''])
      else if OriginalSubject e = [] then Some (Errorf [Txt ''original subject is required''])
      else if DLError e = [] then Some (Errorf [Txt ''error is required''])
      else if DeliveryCount e = 0 then Some (Errorf [Txt ''delivery count must be positive''])
      else if SourceStream e = [] then Some (Errorf [Txt ''source stream is required''])
      else if StreamSequence e = 0 then Some (Errorf [Txt ''stream sequence must be positive''])
      else if Consumer e = [] then Some (Errorf [Txt ''consumer is required''])
      else None)"

definition deadLetterMessageID :: "game_dead_letter \<Rightarrow> string" where
  "deadLetterMessageID e =
     SourceStream e @ '':'' @ show_nat (StreamSequence e) @ '':'' @ Consumer e"

section \<open>Durable publication\<close>

text \<open>
  \<open>Client.PublishDurable\<close> on JetStream. \<open>js_sent\<close> lists the messages the server stored or
  recognised (subject, message ID, payload); each call's reply is the next of \<open>js_replies\<close>:
  an acknowledgement, a failure before the server saw the message, or a lost reply.
\<close>

record publish_ack =
  AckStream :: string
  AckSequence :: nat
  Duplicate :: bool

datatype js_reply = Ack publish_ack | JsFail go_error | JsLost go_error

datatype js_payload = GamePayload game_payload | DeadPayload dead_payload

record jetstream =
  js_sent :: "(string \<times> string \<times> js_payload) list"
  js_replies :: "js_reply list"

definition next_reply :: "js_reply list \<Rightarrow> js_reply" where
  "next_reply rs = (case rs of [] \<Rightarrow> Ack \<lparr>AckStream = [], AckSequence = 0, Duplicate = False\<rparr> | r # _ \<Rightarrow> r)"

definition PublishDurable ::
  "string \<Rightarrow> string \<Rightarrow> js_payload \<Rightarrow> jetstream \<Rightarrow> jetstream \<times> (go_error + publish_ack)" where
  "PublishDurable subject messageID data j =
     (if messageID = [] then (j, Inl (Errorf [Txt ''durable message ID is required'']))
      else
        (let j1 = j\<lparr>js_replies := tl (js_replies j)\<rparr>;
             j2 = j1\<lparr>js_sent := js_sent j @ [(subject, messageID, data)]\<rparr>;
             err = (\<lambda>e. Inl (Errorf [Txt ''durable publish '', Quoted subject, Txt '': '', Wrapped e]))
         in case next_reply (js_replies j) of
              Ack a \<Rightarrow> (j2, Inr a)
            | JsFail e \<Rightarrow> (j1, err e)
            | JsLost e \<Rightarrow> (j2, err e)))"

lemma PublishDurable_Inr:
  "PublishDurable subj i data j = (j', Inr a) \<Longrightarrow>
   i \<noteq> [] \<and> js_sent j' = js_sent j @ [(subj, i, data)]"
  by (auto simp: PublishDurable_def Let_def split: if_splits js_reply.splits)

lemma PublishDurable_sent:
  "PublishDurable subj i data j = (j', res) \<Longrightarrow>
   js_sent j' = js_sent j \<or> js_sent j' = js_sent j @ [(subj, i, data)]"
  by (auto simp: PublishDurable_def Let_def split: if_splits js_reply.splits)

text \<open>The error text of a failed publication is never empty.\<close>

lemma PublishDurable_error_text:
  "PublishDurable subj i data j = (j', Inl e) \<Longrightarrow> error_text e \<noteq> []"
  by (auto simp: PublishDurable_def Let_def split: if_splits js_reply.splits)

definition PublishGameStarted :: "game_event \<Rightarrow> jetstream \<Rightarrow> jetstream \<times> (go_error + publish_ack)" where
  "PublishGameStarted event j =
     (case validateGameEvent event (GameID event) (RoomID event) of
        Some e \<Rightarrow> (j, Inl (Errorf [Txt ''validate game started event: '', Wrapped e]))
      | None \<Rightarrow> PublishDurable SubjectGameStarted (EventID event) (GamePayload (marshal_game_event event)) j)"

definition PublishGameEnded :: "game_event \<Rightarrow> jetstream \<Rightarrow> jetstream \<times> (go_error + publish_ack)" where
  "PublishGameEnded event j =
     (case validateGameEvent event (GameID event) (RoomID event) of
        Some e \<Rightarrow> (j, Inl (Errorf [Txt ''validate game ended event: '', Wrapped e]))
      | None \<Rightarrow> PublishDurable SubjectGameEnded (EventID event) (GamePayload (marshal_game_event event)) j)"

definition PublishGameDeadLetter ::
  "game_dead_letter \<Rightarrow> jetstream \<Rightarrow> jetstream \<times> (go_error + publish_ack)" where
  "PublishGameDeadLetter event j =
     (case validateGameDeadLetterEvent event of
        Some e \<Rightarrow> (j, Inl (Errorf [Txt ''validate game dead-letter event: '', Wrapped e]))
      | None \<Rightarrow> PublishDurable SubjectGameDeadLetter (deadLetterMessageID event)
                  (DeadPayload (marshal_dead_letter event)) j)"

lemma deadLetterMessageID_inject:
  assumes "CHR '':'' \<notin> set (SourceStream a)" "CHR '':'' \<notin> set (SourceStream b)"
  shows "deadLetterMessageID a = deadLetterMessageID b \<longleftrightarrow>
    SourceStream a = SourceStream b \<and> StreamSequence a = StreamSequence b \<and> Consumer a = Consumer b"
  using assms by (simp add: deadLetterMessageID_def append_sep_inject)

end
