(* ===== verification/RoomServ.thy ===== *)
theory RoomServ
  imports RoomStore Events
begin

text \<open>
  \<open>RoomService\<close> (\<open>internal/services/room_service.go\<close>): every operation over an arbitrary
  repository \<open>r\<close>. The mutex makes the locked part of an operation atomic, so an operation
  is a function on the service state. \<open>time.Now()\<close> is a parameter: \<open>now\<close> for spell times,
  \<open>saved\<close> for \<open>LastUpdated\<close>. Errors of a publication are logged by the code and dropped.
\<close>

record 's room_service =
  repo_state :: 's
  currentRoomID :: string
  conn :: nats
  ctx_polls :: polls

definition NewRoomService :: "'s \<Rightarrow> nats \<Rightarrow> polls \<Rightarrow> 's room_service" where
  "NewRoomService s n ps = \<lparr>repo_state = s, currentRoomID = [], conn = n, ctx_polls = ps\<rparr>"

section \<open>Reads\<close>

definition GetRoomSnapshot ::
  "'s room_repo \<Rightarrow> string \<Rightarrow> 's room_service \<Rightarrow> 's room_service \<times> (go_error + room option)" where
  "GetRoomSnapshot r roomID st =
     (case repo_get r roomID (repo_state st) of
        (s, Inl e) \<Rightarrow> (st\<lparr>repo_state := s\<rparr>,
          Inl (Errorf [Txt ''get room '', Quoted roomID, Txt '': '', Wrapped e]))
      | (s, Inr ro) \<Rightarrow> (st\<lparr>repo_state := s\<rparr>, Inr ro))"

definition GetRoomSnapshots ::
  "'s room_repo \<Rightarrow> 's room_service \<Rightarrow> 's room_service \<times> (go_error + room list)" where
  "GetRoomSnapshots r st =
     (case repo_get_all r (repo_state st) of
        (s, Inl e) \<Rightarrow> (st\<lparr>repo_state := s\<rparr>, Inl (Errorf [Txt ''get all rooms: '', Wrapped e]))
      | (s, Inr xs) \<Rightarrow> (st\<lparr>repo_state := s\<rparr>, Inr xs))"

section \<open>Notifications\<close>

definition publishRoomUpdated :: "string \<Rightarrow> 's room_service \<Rightarrow> 's room_service \<times> (go_error + unit)" where
  "publishRoomUpdated roomID st =
     (let (n, res) = Publish SubjectRoomUpdated (marshal_room_event \<lparr>EventRoomID = roomID\<rparr>) (conn st)
      in (st\<lparr>conn := n\<rparr>, res))"

definition publishCurrentRoomChanged ::
  "string \<Rightarrow> 's room_service \<Rightarrow> 's room_service \<times> (go_error + unit)" where
  "publishCurrentRoomChanged roomID st =
     (let (n, res) =
        Publish SubjectCurrentRoomChanged (marshal_room_event \<lparr>EventRoomID = roomID\<rparr>) (conn st)
      in (st\<lparr>conn := n\<rparr>, res))"

section \<open>The current room\<close>

definition SetCurrentRoomID :: "string \<Rightarrow> 's room_service \<Rightarrow> 's room_service" where
  "SetCurrentRoomID roomID st =
     (if currentRoomID st = roomID then st
      else fst (publishCurrentRoomChanged roomID (st\<lparr>currentRoomID := roomID\<rparr>)))"

definition GetCurrentRoomID :: "'s room_service \<Rightarrow> string" where
  "GetCurrentRoomID st = currentRoomID st"

definition ClearCurrentRoomID :: "string \<Rightarrow> 's room_service \<Rightarrow> 's room_service" where
  "ClearCurrentRoomID roomID st =
     (if currentRoomID st \<noteq> roomID then st
      else fst (publishCurrentRoomChanged [] (st\<lparr>currentRoomID := []\<rparr>)))"

definition clearCurrentRoomIDLocked :: "string \<Rightarrow> 's room_service \<Rightarrow> 's room_service" where
  "clearCurrentRoomIDLocked roomID st =
     (if currentRoomID st = roomID then st\<lparr>currentRoomID := []\<rparr> else st)"

section \<open>Writes\<close>

definition saveRoom ::
  "'s room_repo \<Rightarrow> time \<Rightarrow> room option \<Rightarrow> 's room_service \<Rightarrow> 's room_service \<times> (go_error + unit)" where
  "saveRoom r saved ro st =
     (case ro of
        None \<Rightarrow> (st, Inr ())
      | Some x \<Rightarrow>
          (case repo_save r (Some (x\<lparr>LastUpdated := saved\<rparr>)) (repo_state st) of
             (s, Inl e) \<Rightarrow> (st\<lparr>repo_state := s\<rparr>,
               Inl (Errorf [Txt ''save room '', Quoted (Id x), Txt '': '', Wrapped e]))
           | (s, Inr u) \<Rightarrow> (st\<lparr>repo_state := s\<rparr>, Inr ())))"

definition CreateRoom ::
  "'s room_repo \<Rightarrow> time \<Rightarrow> string \<Rightarrow> 's room_service \<Rightarrow> 's room_service \<times> (go_error + room option)" where
  "CreateRoom r now roomID st =
     (if roomID = [] then (st, Inr None)
      else
        (case repo_get r roomID (repo_state st) of
           (s, Inl e) \<Rightarrow> (st\<lparr>repo_state := s\<rparr>,
             Inl (Errorf [Txt ''check existing room '', Quoted roomID, Txt '': '', Wrapped e]))
         | (s, Inr (Some existingRoom)) \<Rightarrow> (st\<lparr>repo_state := s\<rparr>, Inr (Some existingRoom))
         | (s, Inr None) \<Rightarrow>
             (let x = \<lparr>Id = roomID, Players = None, LastUpdated = now\<rparr>
              in case repo_save r (Some x) s of
                   (s', Inl e) \<Rightarrow> (st\<lparr>repo_state := s'\<rparr>,
                     Inl (Errorf [Txt ''save room '', Quoted roomID, Txt '': '', Wrapped e]))
                 | (s', Inr u) \<Rightarrow> (st\<lparr>repo_state := s'\<rparr>, Inr (Some (Clone x))))))"

definition FindPlayerByRiotId :: "room \<Rightarrow> string \<Rightarrow> string \<Rightarrow> nat option" where
  "FindPlayerByRiotId x gameName tagLine =
     find_index (\<lambda>p. GameName p = gameName \<and> TagLine p = tagLine) (elems (Players x))"

definition default_spells :: "summoner_spell slice" where
  "default_spells = Some
     [\<lparr>Name = ''Flash'', IsReady = True, BaseCooldown = 300,
       CooldownEndTime = zero_time, RemainingCooldown = 0\<rparr>,
      \<lparr>Name = ''Ignite'', IsReady = True, BaseCooldown = 180,
       CooldownEndTime = zero_time, RemainingCooldown = 0\<rparr>]"

definition new_player :: "player \<Rightarrow> player" where
  "new_player p =
     (let p1 = p\<lparr>SummonerSpellHaste := DefaultSummonerSpellHaste\<rparr>
      in if elems (Spells p) = [] then p1\<lparr>Spells := default_spells\<rparr> else p1)"

definition set_player :: "room \<Rightarrow> nat \<Rightarrow> player \<Rightarrow> room" where
  "set_player x i p = x\<lparr>Players := Some ((elems (Players x))[i := p])\<rparr>"

definition addPlayerLocked ::
  "'s room_repo \<Rightarrow> time \<Rightarrow> string \<Rightarrow> player \<Rightarrow> 's room_service \<Rightarrow>
   's room_service \<times> (go_error + bool)" where
  "addPlayerLocked r saved roomID p st =
     (case repo_get r roomID (repo_state st) of
        (s, Inl e) \<Rightarrow> (st\<lparr>repo_state := s\<rparr>,
          Inl (Errorf [Txt ''get room '', Quoted roomID, Txt '' for adding player: '', Wrapped e]))
      | (s, Inr None) \<Rightarrow> (st\<lparr>repo_state := s\<rparr>, Inr False)
      | (s, Inr (Some x)) \<Rightarrow>
          (let x' = (case FindPlayerByRiotId x (GameName p) (TagLine p) of
                       Some i \<Rightarrow> set_player x i
                         ((elems (Players x) ! i)\<lparr>Champion := Champion p, ChampionId := ChampionId p\<rparr>)
                     | None \<Rightarrow> x\<lparr>Players := append_slice (Players x) (new_player p)\<rparr>)
           in case saveRoom r saved (Some x') (st\<lparr>repo_state := s\<rparr>) of
                (st', Inl e) \<Rightarrow> (st', Inl e)
              | (st', Inr u) \<Rightarrow> (st', Inr True)))"

definition AddPlayer ::
  "'s room_repo \<Rightarrow> time \<Rightarrow> string \<Rightarrow> player \<Rightarrow> 's room_service \<Rightarrow>
   's room_service \<times> (go_error + bool)" where
  "AddPlayer r saved roomID p st =
     (case addPlayerLocked r saved roomID p st of
        (st', Inl e) \<Rightarrow> (st', Inl e)
      | (st', Inr updated) \<Rightarrow>
          if \<not> updated then (st', Inr False)
          else (fst (publishRoomUpdated roomID st'), Inr True))"

subsection \<open>Refreshing the cooldowns of every room\<close>

text \<open>
  The loop over the rooms of \<open>GetAll\<close>: it asks the context before each room, saves a changed
  room as it is (its \<open>LastUpdated\<close> stays) and stops at the first error, dropping the list of
  rooms updated so far. \<open>clock k\<close> is the reading of the clock for the \<open>k\<close>-th room. The
  elements of the list are never nil, so the nil guard of \<open>refreshRoomCooldowns\<close> has no case.
\<close>

fun refresh_rooms ::
  "'s room_repo \<Rightarrow> (nat \<Rightarrow> time) \<Rightarrow> nat \<Rightarrow> room list \<Rightarrow> string list \<Rightarrow> 's room_service \<Rightarrow>
   's room_service \<times> (go_error + string list)" where
  "refresh_rooms r clock k [] ids st = (st, Inr ids)"
| "refresh_rooms r clock k (x # xs) ids st =
     (let st1 = st\<lparr>ctx_polls := rest_polls (ctx_polls st)\<rparr>
      in case next_poll (ctx_polls st) of
           Some e \<Rightarrow> (st1, Inl e)
         | None \<Rightarrow>
             (case refreshRoomCooldowns (clock k) x of
                (x', False) \<Rightarrow> refresh_rooms r clock (Suc k) xs ids st1
              | (x', True) \<Rightarrow>
                  (case repo_save r (Some x') (repo_state st1) of
                     (s, Inl e) \<Rightarrow> (st1\<lparr>repo_state := s\<rparr>,
                       Inl (Errorf [Txt ''save room '', Quoted (Id x'),
                                    Txt '' after cooldown refresh: '', Wrapped e]))
                   | (s, Inr u) \<Rightarrow>
                       refresh_rooms r clock (Suc k) xs (ids @ [Id x']) (st1\<lparr>repo_state := s\<rparr>))))"

definition refreshCooldownsLocked ::
  "'s room_repo \<Rightarrow> (nat \<Rightarrow> time) \<Rightarrow> 's room_service \<Rightarrow> 's room_service \<times> (go_error + string list)" where
  "refreshCooldownsLocked r clock st =
     (case repo_get_all r (repo_state st) of
        (s, Inl e) \<Rightarrow> (st\<lparr>repo_state := s\<rparr>,
          Inl (Errorf [Txt ''get rooms for cooldown refresh: '', Wrapped e]))
      | (s, Inr xs) \<Rightarrow> refresh_rooms r clock 0 xs [] (st\<lparr>repo_state := s\<rparr>))"

fun publish_all :: "string list \<Rightarrow> 's room_service \<Rightarrow> 's room_service" where
  "publish_all [] st = st"
| "publish_all (i # is) st = publish_all is (fst (publishRoomUpdated i st))"

definition RefreshCooldowns ::
  "'s room_repo \<Rightarrow> (nat \<Rightarrow> time) \<Rightarrow> 's room_service \<Rightarrow> 's room_service \<times> (go_error + unit)" where
  "RefreshCooldowns r clock st =
     (case refreshCooldownsLocked r clock st of
        (st', Inl e) \<Rightarrow> (st', Inl e)
      | (st', Inr ids) \<Rightarrow> (publish_all ids st', Inr ()))"

subsection \<open>Replacing the players of a room\<close>

text \<open>One iteration of the loop of \<open>ReplacePlayers\<close>: the state of the spells the room knows.\<close>

definition carry_over :: "room \<Rightarrow> player \<Rightarrow> player" where
  "carry_over x newPlayer =
     (let p = (case Spells newPlayer of None \<Rightarrow> newPlayer\<lparr>Spells := Some []\<rparr> | Some _ \<Rightarrow> newPlayer)
      in case FindPlayerByRiotId x (GameName p) (TagLine p) of
           None \<Rightarrow> p
         | Some i \<Rightarrow> CopySpellState (elems (Players x) ! i) p)"

definition ReplacePlayers ::
  "'s room_repo \<Rightarrow> time \<Rightarrow> string \<Rightarrow> player slice \<Rightarrow> 's room_service \<Rightarrow>
   's room_service \<times> (go_error + bool)" where
  "ReplacePlayers r saved roomID players st =
     (case repo_get r roomID (repo_state st) of
        (s, Inl e) \<Rightarrow> (st\<lparr>repo_state := s\<rparr>,
          Inl (Errorf [Txt ''get room '', Quoted roomID, Txt '' for replacing players: '', Wrapped e]))
      | (s, Inr None) \<Rightarrow> (st\<lparr>repo_state := s\<rparr>, Inr False)
      | (s, Inr (Some x)) \<Rightarrow>
          (let players' = map_option (map (carry_over x)) players
           in if Players x = players' then (st\<lparr>repo_state := s\<rparr>, Inr False)
              else
                (case saveRoom r saved (Some (x\<lparr>Players := players'\<rparr>)) (st\<lparr>repo_state := s\<rparr>) of
                   (st', Inl e) \<Rightarrow> (st', Inl e)
                 | (st', Inr u) \<Rightarrow> (st', Inr True))))"

subsection \<open>Toggling a spell\<close>

text \<open>
  The result \<open>None\<close> is a panic in \<open>CalculateCooldown\<close>; the mutex is then never released.
\<close>

definition toggleSpellByRiotIDLocked ::
  "'s room_repo \<Rightarrow> time \<Rightarrow> time \<Rightarrow> string \<Rightarrow> string \<Rightarrow> string \<Rightarrow> string \<Rightarrow> 's room_service \<Rightarrow>
   ('s room_service \<times> (go_error + bool)) option" where
  "toggleSpellByRiotIDLocked r now saved roomID gameName tagLine spellName st =
     (case repo_get r roomID (repo_state st) of
        (s, Inl e) \<Rightarrow> Some (st\<lparr>repo_state := s\<rparr>,
          Inl (Errorf [Txt ''get room '', Quoted roomID, Txt '' for toggling spell: '', Wrapped e]))
      | (s, Inr None) \<Rightarrow> Some (st\<lparr>repo_state := s\<rparr>, Inr False)
      | (s, Inr (Some x)) \<Rightarrow>
          (case FindPlayerByRiotId x gameName tagLine of
             None \<Rightarrow> Some (st\<lparr>repo_state := s\<rparr>, Inr False)
           | Some i \<Rightarrow>
               (case TogglePlayerSpell now (elems (Players x) ! i) spellName of
                  None \<Rightarrow> None
                | Some (p', False) \<Rightarrow> Some (st\<lparr>repo_state := s\<rparr>, Inr False)
                | Some (p', True) \<Rightarrow>
                    (case saveRoom r saved (Some (set_player x i p')) (st\<lparr>repo_state := s\<rparr>) of
                       (st', Inl e) \<Rightarrow> Some (st', Inl e)
                     | (st', Inr u) \<Rightarrow> Some (st', Inr True)))))"

definition ToggleSpellByRiotId ::
  "'s room_repo \<Rightarrow> time \<Rightarrow> time \<Rightarrow> string \<Rightarrow> string \<Rightarrow> string \<Rightarrow> string \<Rightarrow> 's room_service \<Rightarrow>
   ('s room_service \<times> (go_error + bool)) option" where
  "ToggleSpellByRiotId r now saved roomID gameName tagLine spellName st =
     (case toggleSpellByRiotIDLocked r now saved roomID gameName tagLine spellName st of
        None \<Rightarrow> None
      | Some (st', Inl e) \<Rightarrow> Some (st', Inl e)
      | Some (st', Inr updated) \<Rightarrow>
          if \<not> updated then Some (st', Inr False)
          else Some (fst (publishRoomUpdated roomID st'), Inr True))"

subsection \<open>Removing expired rooms\<close>

fun cleanup_rooms ::
  "'s room_repo \<Rightarrow> time \<Rightarrow> room list \<Rightarrow> 's room_service \<Rightarrow> 's room_service \<times> (go_error + unit)" where
  "cleanup_rooms r now [] st = (st, Inr ())"
| "cleanup_rooms r now (x # xs) st =
     (let st1 = st\<lparr>ctx_polls := rest_polls (ctx_polls st)\<rparr>
      in case next_poll (ctx_polls st) of
           Some e \<Rightarrow> (st1, Inl e)
         | None \<Rightarrow>
             if time_sub now (LastUpdated x) \<le> RoomExpirationDuration then cleanup_rooms r now xs st1
             else
               (case repo_delete r (Id x) (repo_state st1) of
                  (s, Inl e) \<Rightarrow> (st1\<lparr>repo_state := s\<rparr>,
                    Inl (Errorf [Txt ''delete expired room '', Quoted (Id x), Txt '': '', Wrapped e]))
                | (s, Inr u) \<Rightarrow>
                    cleanup_rooms r now xs (clearCurrentRoomIDLocked (Id x) (st1\<lparr>repo_state := s\<rparr>))))"

definition cleanupOldRooms ::
  "'s room_repo \<Rightarrow> time \<Rightarrow> 's room_service \<Rightarrow> 's room_service \<times> (go_error + unit)" where
  "cleanupOldRooms r now st =
     (case repo_get_all r (repo_state st) of
        (s, Inl e) \<Rightarrow> (st\<lparr>repo_state := s\<rparr>, Inl (Errorf [Txt ''get rooms for cleanup: '', Wrapped e]))
      | (s, Inr xs) \<Rightarrow> cleanup_rooms r now xs (st\<lparr>repo_state := s\<rparr>))"

subsection \<open>Synchronisation with Champion Select\<close>

record champion_info =
  ChampID :: int
  ChampName :: string
  ImageURL :: string

text \<open>
  The champion catalog is an interface; \<open>cat\<close> is its \<open>Get\<close> over a state of its own. If it
  fails and the context is cancelled the synchronisation stops, otherwise the champion is
  \<open>Unknown\<close>. The error keeps \<open>ctx.Err()\<close>.
\<close>

definition session_player :: "champ_select_player \<Rightarrow> champion_info \<Rightarrow> player" where
  "session_player m champion =
     \<lparr>Champion = ChampName champion, ChampionImage = ImageURL champion,
      GameName = SelGameName m, TagLine = SelTagLine m, ChampionId = SelChampionId m,
      SummonerSpellHaste = DefaultSummonerSpellHaste,
      Spells = Some
        [\<lparr>Name = GetSpellName (Spell1Id m), IsReady = True,
          BaseCooldown = GetSpellCooldown (Spell1Id m), CooldownEndTime = zero_time,
          RemainingCooldown = 0\<rparr>,
         \<lparr>Name = GetSpellName (Spell2Id m), IsReady = True,
          BaseCooldown = GetSpellCooldown (Spell2Id m), CooldownEndTime = zero_time,
          RemainingCooldown = 0\<rparr>]\<rparr>"

fun session_players ::
  "(int \<Rightarrow> 'c \<Rightarrow> 'c \<times> (go_error + champion_info)) \<Rightarrow> champ_select_player list \<Rightarrow> player list \<Rightarrow>
   'c \<Rightarrow> polls \<Rightarrow> 'c \<times> polls \<times> (go_error + player list)" where
  "session_players cat [] players c ps = (c, ps, Inr players)"
| "session_players cat (m # ms) players c ps =
     (case cat (SelChampionId m) c of
        (c', Inr champion) \<Rightarrow> session_players cat ms (players @ [session_player m champion]) c' ps
      | (c', Inl err) \<Rightarrow>
          (case next_poll ps of
             Some e \<Rightarrow> (c', rest_polls ps,
               Inl (Errorf [Txt ''get champion '', Num (SelChampionId m), Txt '': '', Wrapped e]))
           | None \<Rightarrow>
               session_players cat ms
                 (players @ [session_player m
                    \<lparr>ChampID = SelChampionId m, ChampName = ''Unknown'', ImageURL = []\<rparr>])
                 c' (rest_polls ps)))"

definition SyncFromChampSelect ::
  "'s room_repo \<Rightarrow> (int \<Rightarrow> 'c \<Rightarrow> 'c \<times> (go_error + champion_info)) \<Rightarrow> time \<Rightarrow> string \<Rightarrow>
   champ_select_session option \<Rightarrow> 'c \<Rightarrow> 's room_service \<Rightarrow> 'c \<times> 's room_service \<times> (go_error + bool)" where
  "SyncFromChampSelect r cat saved roomID sess c st =
     (case (roomID, sess) of
        ([], _) \<Rightarrow> (c, st, Inr False)
      | (_, None) \<Rightarrow> (c, st, Inr False)
      | (_, Some se) \<Rightarrow>
          (case session_players cat (elems (MyTeam se)) [] c (ctx_polls st) of
             (c', ps, Inl e) \<Rightarrow> (c', st\<lparr>ctx_polls := ps\<rparr>, Inl e)
           | (c', ps, Inr players) \<Rightarrow>
               (case ReplacePlayers r saved roomID (Some players) (st\<lparr>ctx_polls := ps\<rparr>) of
                  (st', Inl e) \<Rightarrow> (c', st', Inl e)
                | (st', Inr updated) \<Rightarrow>
                    if \<not> updated then (c', st', Inr False)
                    else (c', SetCurrentRoomID roomID (fst (publishRoomUpdated roomID st')), Inr True))))"

end
