(* ===== verification/RoomSpec.thy ===== *)
theory RoomSpec
  imports RoomServ
begin

text \<open>
  What the operations of the room service do to the content of its repository, proved once
  for every repository that meets the contract.
\<close>

section \<open>Well-formed rooms\<close>

definition riot_ids :: "room \<Rightarrow> (string \<times> string) list" where
  "riot_ids x = map (\<lambda>p. (GameName p, TagLine p)) (elems (Players x))"

definition room_ok :: "room \<Rightarrow> bool" where
  "room_ok x \<longleftrightarrow> distinct (riot_ids x) \<and> (\<forall>p \<in> set (elems (Players x)). wf_player p)"

definition rooms_ok :: "(string \<Rightarrow> room option) \<Rightarrow> bool" where
  "rooms_ok m \<longleftrightarrow> (\<forall>i v. m i = Some v \<longrightarrow> i \<noteq> [] \<and> room_ok v)"

lemma rooms_ok_upd: "rooms_ok m \<Longrightarrow> i \<noteq> [] \<Longrightarrow> room_ok v \<Longrightarrow> rooms_ok (m(i \<mapsto> v))"
  by (simp add: rooms_ok_def)

lemma rooms_ok_del: "rooms_ok m \<Longrightarrow> rooms_ok (m(i := None))"
  by (simp add: rooms_ok_def)

lemma room_ok_LastUpdated [simp]: "room_ok (x\<lparr>LastUpdated := t\<rparr>) = room_ok x"
  by (simp add: room_ok_def riot_ids_def)

lemma FindPlayer_SomeD:
  "FindPlayerByRiotId x g t = Some i \<Longrightarrow>
   i < length (elems (Players x)) \<and> GameName (elems (Players x) ! i) = g \<and>
   TagLine (elems (Players x) ! i) = t"
  unfolding FindPlayerByRiotId_def by (drule find_index_SomeD) simp

lemma FindPlayer_None: "FindPlayerByRiotId x g t = None \<longleftrightarrow> (g, t) \<notin> set (riot_ids x)"
  by (auto simp: FindPlayerByRiotId_def riot_ids_def)

lemma set_player_simps [simp]:
  "Id (set_player x i p) = Id x" "LastUpdated (set_player x i p) = LastUpdated x"
  "elems (Players (set_player x i p)) = (elems (Players x))[i := p]"
  by (simp_all add: set_player_def)

lemma riot_ids_set_player:
  "i < length (elems (Players x)) \<Longrightarrow> GameName p = GameName (elems (Players x) ! i) \<Longrightarrow>
   TagLine p = TagLine (elems (Players x) ! i) \<Longrightarrow> riot_ids (set_player x i p) = riot_ids x"
  by (simp add: riot_ids_def map_update) (metis (no_types, lifting) length_map list_update_id nth_map)

lemma room_ok_set_player:
  "room_ok x \<Longrightarrow> i < length (elems (Players x)) \<Longrightarrow> GameName p = GameName (elems (Players x) ! i) \<Longrightarrow>
   TagLine p = TagLine (elems (Players x) ! i) \<Longrightarrow> wf_player p \<Longrightarrow> room_ok (set_player x i p)"
  by (auto simp: room_ok_def riot_ids_set_player dest!: set_update_subset_insert [THEN subsetD])

lemma wf_default_spells: "s \<in> set (elems default_spells) \<Longrightarrow> wf_spell s"
  by (auto simp: default_spells_def wf_spell_def)

lemma wf_new_player:
  "(\<And>s. s \<in> set (elems (Spells p)) \<Longrightarrow> wf_spell s) \<Longrightarrow> wf_player (new_player p)"
  by (auto simp: new_player_def wf_player_def Let_def wf_default_spells)

lemma new_player_simps [simp]:
  "GameName (new_player p) = GameName p" "TagLine (new_player p) = TagLine p"
  by (simp_all add: new_player_def Let_def)

lemma room_ok_append:
  assumes "room_ok x" "FindPlayerByRiotId x (GameName p) (TagLine p) = None"
    and "\<And>s. s \<in> set (elems (Spells p)) \<Longrightarrow> wf_spell s"
  shows "room_ok (x\<lparr>Players := append_slice (Players x) (new_player p)\<rparr>)"
  using assms wf_new_player [of p]
  by (auto simp: room_ok_def riot_ids_def FindPlayer_None append_slice_def)

lemma wf_session_player: "wf_player (session_player m c)"
  by (auto simp: session_player_def wf_player_def wf_spell_def)

lemma carry_over_simps [simp]:
  "GameName (carry_over x p) = GameName p" "TagLine (carry_over x p) = TagLine p"
  by (auto simp: carry_over_def CopySpellState_def Let_def split: option.splits)

lemma wf_carry_over:
  assumes "room_ok x" "wf_player p"
  shows "wf_player (carry_over x p)"
proof -
  have "wf_player (p\<lparr>Spells := Some []\<rparr>)"
    using assms(2) by (simp add: wf_player_def)
  moreover have "wf_player (elems (Players x) ! i)" if "FindPlayerByRiotId x g t = Some i" for g t i
    using that assms(1) by (auto simp: room_ok_def dest!: FindPlayer_SomeD)
  ultimately show ?thesis
    using assms(2) by (auto simp: carry_over_def Let_def wf_CopySpellState split: option.splits)
qed

lemma wf_store_spell:
  "(\<And>t. second \<le> f t \<longleftrightarrow> second \<le> t) \<Longrightarrow> wf_spell (store_spell f s) = wf_spell s"
  by (simp add: wf_spell_def flip: not_le)

subsection \<open>Refresh and expiry of one stored room\<close>

definition refreshed :: "(time \<Rightarrow> time) \<Rightarrow> (time \<Rightarrow> time) \<Rightarrow> time \<Rightarrow> room \<Rightarrow> room" where
  "refreshed f g now v =
     (if snd (refreshRoomCooldowns now v) then store_room f g (fst (refreshRoomCooldowns now v)) else v)"

definition expired :: "time \<Rightarrow> room \<Rightarrow> bool" where
  "expired now v \<longleftrightarrow> RoomExpirationDuration < time_sub now (LastUpdated v)"

fun changed_ids :: "(nat \<Rightarrow> time) \<Rightarrow> nat \<Rightarrow> room list \<Rightarrow> string list" where
  "changed_ids clock k [] = []"
| "changed_ids clock k (x # xs) =
     (if snd (refreshRoomCooldowns (clock k) x) then [Id x] else []) @ changed_ids clock (Suc k) xs"

lemma refreshRoomCooldowns_simps [simp]:
  "Id (fst (refreshRoomCooldowns now x)) = Id x"
  "LastUpdated (fst (refreshRoomCooldowns now x)) = LastUpdated x"
  "elems (Players (fst (refreshRoomCooldowns now x))) = map (refresh_player now) (elems (Players x))"
  by (simp_all add: refreshRoomCooldowns_eq) (cases "Players x"; simp)

lemma refresh_player_simps [simp]:
  "GameName (refresh_player now p) = GameName p" "TagLine (refresh_player now p) = TagLine p"
  by (simp_all add: refresh_player_def)

lemma room_ok_refresh: "room_ok x \<Longrightarrow> room_ok (fst (refreshRoomCooldowns now x))"
  by (simp add: room_ok_def riot_ids_def comp_def wf_refresh_player)

lemma session_players_Inr:
  assumes "session_players cat ms players c ps = (c', ps', Inr out)"
  shows "\<exists>new. out = players @ new \<and> length new = length ms \<and>
    (\<forall>k < length ms. \<exists>champ. new ! k = session_player (ms ! k) champ)"
  using assms
proof (induction ms arbitrary: players c ps)
  case (Cons m ms)
  from Cons.prems obtain champ c1 ps1 where
    "session_players cat ms (players @ [session_player m champ]) c1 ps1 = (c', ps', Inr out)"
    by (auto split: prod.splits sum.splits option.splits)
  from Cons.IH [OF this] obtain new where new: "out = (players @ [session_player m champ]) @ new"
    "length new = length ms" "\<forall>k < length ms. \<exists>champ. new ! k = session_player (ms ! k) champ"
    by blast
  then show ?case
    by (intro exI [of _ "session_player m champ # new"]) (auto simp: nth_Cons split: nat.split)
qed simp

lemma session_player_ids [simp]:
  "GameName (session_player m c) = SelGameName m" "TagLine (session_player m c) = SelTagLine m"
  by (simp_all add: session_player_def)

definition member_ids :: "champ_select_session \<Rightarrow> (string \<times> string) list" where
  "member_ids se = map (\<lambda>m. (SelGameName m, SelTagLine m)) (elems (MyTeam se))"

lemma session_players_ids:
  assumes "session_players cat ms [] c ps = (c', ps', Inr out)"
  shows "map (\<lambda>p. (GameName p, TagLine p)) out = map (\<lambda>m. (SelGameName m, SelTagLine m)) ms"
    and "\<forall>p \<in> set out. wf_player p"
proof -
  from session_players_Inr [OF assms] obtain new where out: "out = new" "length new = length ms"
    "\<forall>k < length ms. \<exists>champ. new ! k = session_player (ms ! k) champ" by auto
  show "map (\<lambda>p. (GameName p, TagLine p)) out = map (\<lambda>m. (SelGameName m, SelTagLine m)) ms"
    using out by (intro nth_equalityI) auto
  show "\<forall>p \<in> set out. wf_player p"
    using out by (force simp: in_set_conv_nth wf_session_player)
qed

section \<open>The service over any repository\<close>

text \<open>The content a service works on, and the invariant its operations keep.\<close>

definition service_view :: "('s \<Rightarrow> string \<Rightarrow> room option) \<Rightarrow> 's room_service \<Rightarrow> string \<Rightarrow> room option" where
  "service_view view st = view (repo_state st)"

definition service_inv ::
  "('s \<Rightarrow> string \<Rightarrow> room option) \<Rightarrow> ('s \<Rightarrow> bool) \<Rightarrow> 's room_service \<Rightarrow> bool" where
  "service_inv view I st \<longleftrightarrow> I (repo_state st) \<and> rooms_ok (view (repo_state st))"

lemma saveRoom_LastUpdated: "saveRoom r saved (Some (x\<lparr>LastUpdated := t\<rparr>)) = saveRoom r saved (Some x)"
  by (rule ext) (simp add: saveRoom_def)

text \<open>The connection after a notification.\<close>

definition notify_room :: "string \<Rightarrow> nats \<Rightarrow> nats" where
  "notify_room i n = fst (Publish SubjectRoomUpdated (marshal_room_event \<lparr>EventRoomID = i\<rparr>) n)"

definition notify_current :: "string \<Rightarrow> nats \<Rightarrow> nats" where
  "notify_current i n =
     fst (Publish SubjectCurrentRoomChanged (marshal_room_event \<lparr>EventRoomID = i\<rparr>) n)"

lemma publish_eqs:
  "fst (publishRoomUpdated i st) = st\<lparr>conn := notify_room i (conn st)\<rparr>"
  "fst (publishCurrentRoomChanged i st) = st\<lparr>conn := notify_current i (conn st)\<rparr>"
  by (simp_all add: publishRoomUpdated_def publishCurrentRoomChanged_def notify_room_def
      notify_current_def split_beta)

lemma notify_sent:
  "nats_sent (notify_room i n) =
     nats_sent n @ (case next_fault (nats_faults n) of FailBefore e \<Rightarrow> []
       | _ \<Rightarrow> [(SubjectRoomUpdated, marshal_room_event \<lparr>EventRoomID = i\<rparr>)])"
  "nats_sent (notify_current i n) =
     nats_sent n @ (case next_fault (nats_faults n) of FailBefore e \<Rightarrow> []
       | _ \<Rightarrow> [(SubjectCurrentRoomChanged, marshal_room_event \<lparr>EventRoomID = i\<rparr>)])"
  by (simp_all add: notify_room_def notify_current_def Publish_def Let_def split: fault.split)

text \<open>What one toggle, one added player and one replacement store for the room that was read.\<close>

definition add_to_room :: "time \<Rightarrow> room \<Rightarrow> player \<Rightarrow> room" where
  "add_to_room saved x p =
     (case FindPlayerByRiotId x (GameName p) (TagLine p) of
        Some i \<Rightarrow> set_player x i
          ((elems (Players x) ! i)\<lparr>Champion := Champion p, ChampionId := ChampionId p\<rparr>)
      | None \<Rightarrow> x\<lparr>Players := append_slice (Players x) (new_player p)\<rparr>)\<lparr>LastUpdated := saved\<rparr>"

definition replace_in_room :: "time \<Rightarrow> room \<Rightarrow> player slice \<Rightarrow> room" where
  "replace_in_room saved x players =
     x\<lparr>Players := map_option (map (carry_over x)) players, LastUpdated := saved\<rparr>"

definition toggle_in_room :: "time \<Rightarrow> time \<Rightarrow> room \<Rightarrow> nat \<Rightarrow> nat \<Rightarrow> room" where
  "toggle_in_room now saved x k j =
     (let p = elems (Players x) ! k
      in (set_player x k (set_spell p j (toggled now (elems (Spells p) ! j))))\<lparr>LastUpdated := saved\<rparr>)"

text \<open>
  The service needs one more law: the store's times keep the difference between a running and
  an idle spell.
\<close>

locale room_service = room_repository r view inv f g
  for r :: "'s room_repo" and view inv f g +
  assumes f_running: "second \<le> f t \<longleftrightarrow> second \<le> t"
begin

lemma wf_store_player [simp]: "wf_player (store_player f p) = wf_player p"
  using wf_store_spell [OF f_running] by (auto simp: wf_player_def)

lemma riot_ids_store [simp]: "riot_ids (store_room f g x) = riot_ids x"
  by (simp add: riot_ids_def)

lemma room_ok_store [simp]: "room_ok (store_room f g x) = room_ok x"
  by (simp add: room_ok_def)

lemma agree_room_ok: "agree f g x v \<Longrightarrow> room_ok x = room_ok v"
  by (auto simp: agree_def)

lemma agree_riot_ids: "agree f g x v \<Longrightarrow> riot_ids x = riot_ids v"
  by (auto simp: agree_def)

abbreviation sview :: "'s room_service \<Rightarrow> string \<Rightarrow> room option" where
  "sview \<equiv> service_view view"

abbreviation sinv :: "'s room_service \<Rightarrow> bool" where
  "sinv \<equiv> service_inv view inv"

lemma sinv_simps [simp]:
  "sinv (st\<lparr>conn := c\<rparr>) = sinv st" "sinv (st\<lparr>currentRoomID := i\<rparr>) = sinv st"
  "sinv (st\<lparr>ctx_polls := ps\<rparr>) = sinv st"
  "sview (st\<lparr>conn := c\<rparr>) = sview st" "sview (st\<lparr>currentRoomID := i\<rparr>) = sview st"
  "sview (st\<lparr>ctx_polls := ps\<rparr>) = sview st"
  by (simp_all add: service_inv_def service_view_def)

text \<open>A read keeps everything and returns a well-formed room under its identifier.\<close>

lemma get_step:
  assumes "sinv st" "repo_get r i (repo_state st) = (s, res)"
  shows "sinv (st\<lparr>repo_state := s\<rparr>)" "sview (st\<lparr>repo_state := s\<rparr>) = sview st"
    and "res = Inr None \<Longrightarrow> sview st i = None"
    and "res = Inr (Some x) \<Longrightarrow>
           Id x = i \<and> i \<noteq> [] \<and> room_ok x \<and> (\<exists>v. sview st i = Some v \<and> agree f g x v)"
proof -
  have inv: "inv (repo_state st)" and ok: "rooms_ok (view (repo_state st))"
    using assms(1) by (simp_all add: service_inv_def)
  from get_inv [OF inv assms(2)] ok
  show "sinv (st\<lparr>repo_state := s\<rparr>)" "sview (st\<lparr>repo_state := s\<rparr>) = sview st"
    by (simp_all add: service_inv_def service_view_def)
  show "sview st i = None" if "res = Inr None"
    using get_None [OF inv] assms(2) that by (auto simp: service_view_def)
  show "Id x = i \<and> i \<noteq> [] \<and> room_ok x \<and> (\<exists>v. sview st i = Some v \<and> agree f g x v)"
    if "res = Inr (Some x)"
  proof -
    from get_Some [OF inv] assms(2) that obtain v where
      "view (repo_state st) i = Some v" "agree f g x v" by blast
    moreover from this ok have "i \<noteq> []" "room_ok v" by (auto simp: rooms_ok_def)
    moreover have "Id x = i" using get_Id [OF inv] assms(2) that by blast
    ultimately show ?thesis by (auto simp: service_view_def agree_room_ok)
  qed
qed

text \<open>A save of a well-formed room: stored on success, old or new content on an error.\<close>

lemma save_step:
  assumes "sinv st" "repo_save r (Some x) (repo_state st) = (s, res)" "Id x \<noteq> []" "room_ok x"
  shows "sinv (st\<lparr>repo_state := s\<rparr>)"
    and "res = Inr u \<Longrightarrow> sview (st\<lparr>repo_state := s\<rparr>) = (sview st)(Id x \<mapsto> store_room f g x)"
    and "sview (st\<lparr>repo_state := s\<rparr>) = sview st \<or>
         sview (st\<lparr>repo_state := s\<rparr>) = (sview st)(Id x \<mapsto> store_room f g x)"
proof -
  have inv: "inv (repo_state st)" and ok: "rooms_ok (view (repo_state st))"
    using assms(1) by (simp_all add: service_inv_def)
  have *: "inv s \<and> (view s = view (repo_state st) \<or>
      view s = (view (repo_state st))(Id x \<mapsto> store_room f g x))"
    using save_Inr [OF inv assms(3)] save_Inl [OF inv assms(3)] assms(2) by (cases res) blast+
  then show "sview (st\<lparr>repo_state := s\<rparr>) = sview st \<or>
         sview (st\<lparr>repo_state := s\<rparr>) = (sview st)(Id x \<mapsto> store_room f g x)"
    by (simp add: service_view_def)
  from * ok assms(3,4) show "sinv (st\<lparr>repo_state := s\<rparr>)"
    by (auto simp: service_inv_def intro!: rooms_ok_upd)
  show "res = Inr u \<Longrightarrow> sview (st\<lparr>repo_state := s\<rparr>) = (sview st)(Id x \<mapsto> store_room f g x)"
    using save_Inr [OF inv assms(3)] assms(2) by (simp add: service_view_def fun_eq_iff)
qed

lemma saveRoom_step:
  assumes "sinv st" "saveRoom r t (Some x) st = (st', res)" "Id x \<noteq> []" "room_ok x"
  shows "sinv st' \<and> conn st' = conn st \<and> currentRoomID st' = currentRoomID st"
    and "res = Inr u \<Longrightarrow> sview st' = (sview st)(Id x \<mapsto> store_room f g (x\<lparr>LastUpdated := t\<rparr>))"
    and "sview st' = sview st \<or> sview st' = (sview st)(Id x \<mapsto> store_room f g (x\<lparr>LastUpdated := t\<rparr>))"
proof -
  obtain s q where sv: "repo_save r (Some (x\<lparr>LastUpdated := t\<rparr>)) (repo_state st) = (s, q)"
    by (meson surj_pair)
  note step = save_step [OF assms(1) sv, simplified, OF assms(3,4)]
  from sv assms(2) have st': "st' = st\<lparr>repo_state := s\<rparr>" and res: "\<And>u. res = Inr u \<Longrightarrow> q = Inr u"
    by (auto simp: saveRoom_def split: sum.splits)
  from step(1) show "sinv st' \<and> conn st' = conn st \<and> currentRoomID st' = currentRoomID st"
    by (simp add: st')
  from step(3) show "sview st' = sview st \<or>
      sview st' = (sview st)(Id x \<mapsto> store_room f g (x\<lparr>LastUpdated := t\<rparr>))"
    by (simp add: st')
  show "sview st' = (sview st)(Id x \<mapsto> store_room f g (x\<lparr>LastUpdated := t\<rparr>))" if "res = Inr u"
    using step(2) res that by (simp add: st')
qed

lemma CreateRoom_step:
  assumes "sinv st" "CreateRoom r now i st = (st', res)"
  shows "sinv st' \<and> conn st' = conn st \<and> currentRoomID st' = currentRoomID st"
    and "sview st i \<noteq> None \<or> i = [] \<Longrightarrow> sview st' = sview st"
    and "sview st' = sview st \<or>
         sview st' = (sview st)(i \<mapsto> store_room f g \<lparr>Id = i, Players = None, LastUpdated = now\<rparr>)"
    and "res = Inr (Some x) \<Longrightarrow> Id x = i \<and> i \<noteq> [] \<and> sview st' i \<noteq> None"
    and "res = Inr None \<Longrightarrow> i = []"
proof -
  let ?x = "\<lparr>Id = i, Players = None, LastUpdated = now\<rparr>"
  have okx: "room_ok ?x" by (simp add: room_ok_def riot_ids_def)
  obtain s q where g: "repo_get r i (repo_state st) = (s, q)" by (meson surj_pair)
  note gs = get_step [OF assms(1) g]
  let ?st1 = "st\<lparr>repo_state := s\<rparr>"
  obtain s' q' where sv: "repo_save r (Some ?x) (repo_state ?st1) = (s', q')" by (meson surj_pair)
  note ss = save_step [OF gs(1) sv _ okx, simplified gs(2), simplified]
  consider "i = []" "st' = st" "res = Inr None"
    | e where "i \<noteq> []" "q = Inl e" "st' = ?st1" "\<exists>e'. res = Inl e'"
    | y where "i \<noteq> []" "q = Inr (Some y)" "st' = ?st1" "res = Inr (Some y)"
    | e where "i \<noteq> []" "q = Inr None" "q' = Inl e" "st' = st\<lparr>repo_state := s'\<rparr>" "\<exists>e'. res = Inl e'"
    | u where "i \<noteq> []" "q = Inr None" "q' = Inr u" "st' = st\<lparr>repo_state := s'\<rparr>" "res = Inr (Some (Clone ?x))"
    using assms(2) g sv by (cases q; cases q') (auto simp: CreateRoom_def split: if_splits option.splits)
  note cases = this
  show "sinv st' \<and> conn st' = conn st \<and> currentRoomID st' = currentRoomID st"
    by (rule cases) (use assms(1) gs(1) ss(1) in auto)
  show "sview st i \<noteq> None \<or> i = [] \<Longrightarrow> sview st' = sview st"
    by (rule cases) (use gs(2,3) in auto)
  show "sview st' = sview st \<or> sview st' = (sview st)(i \<mapsto> store_room f g ?x)"
    by (rule cases) (use gs(2) ss(3) in auto)
  show "res = Inr (Some x) \<Longrightarrow> Id x = i \<and> i \<noteq> [] \<and> sview st' i \<noteq> None"
    by (rule cases) (use gs(2,4) ss(2) in auto)
  show "res = Inr None \<Longrightarrow> i = []"
    by (rule cases) auto
qed

text \<open>
  The operations that change one room share a shape: they read the room, may save a new
  version of it related to what was read by \<open>Q\<close>, and return true after a save that
  succeeded, with the connection changed by \<open>N\<close>; \<open>F\<close> is why they return false.
\<close>

definition wrote :: "'s room_service \<Rightarrow> 's room_service \<Rightarrow> string \<Rightarrow> (room \<Rightarrow> room \<Rightarrow> bool) \<Rightarrow> bool" where
  "wrote st st' i Q \<longleftrightarrow> (\<exists>x v x'. sview st i = Some v \<and> agree f g x v \<and> Q x x' \<and>
     sview st' = (sview st)(i \<mapsto> store_room f g x'))"

definition updates ::
  "'s room_service \<Rightarrow> string \<Rightarrow> (room \<Rightarrow> room \<Rightarrow> bool) \<Rightarrow> (nats \<Rightarrow> nats) \<Rightarrow> bool \<Rightarrow>
   's room_service \<Rightarrow> go_error + bool \<Rightarrow> bool" where
  "updates st i Q N F st' res \<longleftrightarrow> sinv st' \<and> currentRoomID st' = currentRoomID st \<and>
     (case res of
        Inr True \<Rightarrow> conn st' = N (conn st) \<and> wrote st st' i Q
      | Inr False \<Rightarrow> sview st' = sview st \<and> conn st' = conn st \<and> F
      | Inl e \<Rightarrow> conn st' = conn st \<and> (sview st' = sview st \<or> wrote st st' i Q))"

lemma updatesD:
  assumes "updates st i Q N F st' res"
  shows "sinv st'" "currentRoomID st' = currentRoomID st"
    and "res = Inr True \<Longrightarrow> conn st' = N (conn st) \<and> wrote st st' i Q"
    and "res = Inr False \<Longrightarrow> sview st' = sview st \<and> conn st' = conn st \<and> F"
    and "res = Inl e \<Longrightarrow> conn st' = conn st \<and> (sview st' = sview st \<or> wrote st st' i Q)"
  using assms by (auto simp: updates_def)

lemma updates_read:
  assumes "sinv st" "repo_get r i (repo_state st) = (s, q)"
    and "st' = st\<lparr>repo_state := s\<rparr>" "res = Inr False \<and> F \<or> (\<exists>e. res = Inl e)"
  shows "updates st i Q N F st' res"
  using get_step(1,2) [OF assms(1,2)] assms(3,4) by (auto simp: updates_def)

lemma updates_save:
  assumes "sinv st" "repo_get r i (repo_state st) = (s, Inr (Some x))"
    and "saveRoom r saved (Some x') (st\<lparr>repo_state := s\<rparr>) = (st2, q2)"
    and "Id x' = i" "room_ok x \<Longrightarrow> room_ok x'" "Q x (x'\<lparr>LastUpdated := saved\<rparr>)"
    and "\<And>e. q2 = Inl e \<Longrightarrow> st' = st2 \<and> (\<exists>e. res = Inl e)"
    and "\<And>u. q2 = Inr u \<Longrightarrow> st' = st2\<lparr>conn := N (conn st2)\<rparr> \<and> res = Inr True"
  shows "updates st i Q N F st' res"
proof -
  note gs = get_step [OF assms(1,2)]
  from gs(4) obtain v where x: "i \<noteq> []" "room_ok x" "sview st i = Some v" "agree f g x v"
    by blast
  note ss = saveRoom_step [OF gs(1) assms(3), unfolded assms(4) gs(2), OF x(1) assms(5) [OF x(2)], simplified]
  have w: "wrote st st2 i Q" if "sview st2 = (sview st)(i \<mapsto> store_room f g (x'\<lparr>LastUpdated := saved\<rparr>))"
    using that x(3,4) assms(6) by (auto simp: wrote_def)
  show ?thesis
  proof (cases q2)
    case (Inl e)
    with assms(7) ss(1,3) w show ?thesis by (auto simp: updates_def)
  next
    case (Inr u)
    with ss(2) have "sview st2 = (sview st)(i \<mapsto> store_room f g (x'\<lparr>LastUpdated := saved\<rparr>))"
      by simp
    with assms(8) [OF Inr] ss(1) w show ?thesis by (auto simp: updates_def wrote_def)
  qed
qed

lemma room_ok_add_to_room:
  assumes "room_ok x" "\<And>s. s \<in> set (elems (Spells p)) \<Longrightarrow> wf_spell s"
  shows "room_ok (add_to_room saved x p)"
proof (cases "FindPlayerByRiotId x (GameName p) (TagLine p)")
  case None
  with assms show ?thesis by (simp add: add_to_room_def room_ok_append)
next
  case (Some i)
  then have i: "i < length (elems (Players x))" by (auto dest: FindPlayer_SomeD)
  with assms(1) have "wf_player (elems (Players x) ! i)" by (simp add: room_ok_def)
  with Some i assms(1) show ?thesis
    by (auto simp: add_to_room_def wf_player_def intro!: room_ok_set_player)
qed

lemma AddPlayer_updates:
  assumes "sinv st" "AddPlayer r saved i p st = (st', res)"
    and "\<And>s. s \<in> set (elems (Spells p)) \<Longrightarrow> wf_spell s"
  shows "updates st i (\<lambda>x x'. x' = add_to_room saved x p) (notify_room i) (sview st i = None) st' res"
proof -
  obtain s q where g: "repo_get r i (repo_state st) = (s, q)" by (meson surj_pair)
  show ?thesis
  proof (cases "\<exists>x. q = Inr (Some x)")
    case False
    with assms(2) g get_step(3) [OF assms(1) g] show ?thesis
      by (intro updates_read [OF assms(1) g])
         (auto simp: AddPlayer_def addPlayerLocked_def split: sum.splits option.splits)
  next
    case True
    then obtain x where x: "q = Inr (Some x)" by blast
    let ?x = "add_to_room saved x p"
    obtain st2 q2 where sv: "saveRoom r saved (Some ?x) (st\<lparr>repo_state := s\<rparr>) = (st2, q2)"
      by (meson surj_pair)
    have "AddPlayer r saved i p st =
       (case q2 of Inl e \<Rightarrow> (st2, Inl e) | Inr u \<Rightarrow> (fst (publishRoomUpdated i st2), Inr True))"
      using sv by (simp add: AddPlayer_def addPlayerLocked_def g x add_to_room_def Let_def
          saveRoom_LastUpdated split: sum.split)
    moreover have "Id ?x = i" "?x\<lparr>LastUpdated := saved\<rparr> = ?x"
      using get_step(4) [OF assms(1) g x] by (simp_all add: add_to_room_def split: option.split)
    ultimately show ?thesis
      using assms(2) by (intro updates_save [OF assms(1) g [unfolded x] sv])
        (auto simp: publish_eqs intro!: room_ok_add_to_room assms(3))
  qed
qed

lemma room_ok_replace:
  assumes "room_ok x" "\<forall>p \<in> set (elems players). wf_player p"
    and "distinct (map (\<lambda>p. (GameName p, TagLine p)) (elems players))"
  shows "room_ok (x\<lparr>Players := map_option (map (carry_over x)) players\<rparr>)"
  using assms by (cases players) (auto simp: room_ok_def riot_ids_def comp_def wf_carry_over)

lemma ReplacePlayers_updates:
  assumes "sinv st" "ReplacePlayers r saved i players st = (st', res)"
    and "\<forall>p \<in> set (elems players). wf_player p"
    and "distinct (map (\<lambda>p. (GameName p, TagLine p)) (elems players))"
  shows "updates st i (\<lambda>x x'. x' = replace_in_room saved x players \<and> Players x' \<noteq> Players x)
           (\<lambda>n. n) (\<forall>v. sview st i = Some v \<longrightarrow>
             (\<exists>x. agree f g x v \<and> Players (replace_in_room saved x players) = Players x)) st' res"
proof -
  obtain s q where g: "repo_get r i (repo_state st) = (s, q)" by (meson surj_pair)
  show ?thesis
  proof (cases "\<exists>x. q = Inr (Some x) \<and> Players x \<noteq> map_option (map (carry_over x)) players")
    case False
    with assms(2) g get_step(3,4) [OF assms(1) g] show ?thesis
      by (intro updates_read [OF assms(1) g])
         (auto simp: ReplacePlayers_def Let_def replace_in_room_def split: sum.splits option.splits)
  next
    case True
    then obtain x where x: "q = Inr (Some x)" "Players x \<noteq> map_option (map (carry_over x)) players"
      by blast
    let ?x = "x\<lparr>Players := map_option (map (carry_over x)) players\<rparr>"
    obtain st2 q2 where sv: "saveRoom r saved (Some ?x) (st\<lparr>repo_state := s\<rparr>) = (st2, q2)"
      by (meson surj_pair)
    have "ReplacePlayers r saved i players st =
       (case q2 of Inl e \<Rightarrow> (st2, Inl e) | Inr u \<Rightarrow> (st2, Inr True))"
      using sv x(2) by (simp add: ReplacePlayers_def g x(1) Let_def split: sum.split)
    moreover have "Id ?x = i" using get_step(4) [OF assms(1) g x(1)] by simp
    ultimately show ?thesis
      using assms(2) x(2) by (intro updates_save [OF assms(1) g [unfolded x(1)] sv])
        (auto simp: replace_in_room_def intro!: room_ok_replace assms(3,4))
  qed
qed

lemma toggle_player_cases:
  assumes "room_ok x" "FindPlayerByRiotId x gn tg = Some k"
  shows "TogglePlayerSpell now (elems (Players x) ! k) sp =
    (case FindSpell (elems (Players x) ! k) sp of None \<Rightarrow> Some (elems (Players x) ! k, False)
     | Some j \<Rightarrow> Some (set_spell (elems (Players x) ! k) j
                   (toggled now (elems (Spells (elems (Players x) ! k)) ! j)), True))"
  using assms by (intro TogglePlayerSpell_wf) (auto simp: room_ok_def dest: FindPlayer_SomeD)

lemma room_ok_toggle_in_room:
  assumes "room_ok x" "0 \<le> now" "FindPlayerByRiotId x gn tg = Some k"
    and "FindSpell (elems (Players x) ! k) sp = Some j"
  shows "room_ok (toggle_in_room now saved x k j)"
proof -
  from assms(3) have "k < length (elems (Players x))" by (auto dest: FindPlayer_SomeD)
  moreover from this assms(1) have "wf_player (elems (Players x) ! k)" by (simp add: room_ok_def)
  moreover from this assms(4) have "wf_spell (elems (Spells (elems (Players x) ! k)) ! j)"
    by (auto dest: FindSpell_SomeD wf_player_spell)
  ultimately show ?thesis
    using assms(1,2) by (auto simp: toggle_in_room_def Let_def intro!: room_ok_set_player wf_set_spell wf_toggled)
qed

lemma ToggleSpell_updates:
  assumes "sinv st" "0 \<le> now"
  obtains st' res where "ToggleSpellByRiotId r now saved i gn tg sp st = Some (st', res)"
    and "updates st i (\<lambda>x x'. \<exists>k j. FindPlayerByRiotId x gn tg = Some k \<and>
             FindSpell (elems (Players x) ! k) sp = Some j \<and> x' = toggle_in_room now saved x k j)
           (notify_room i)
           (\<forall>v. sview st i = Some v \<longrightarrow> (\<exists>x. agree f g x v \<and> (\<forall>k. FindPlayerByRiotId x gn tg = Some k \<longrightarrow>
             FindSpell (elems (Players x) ! k) sp = None))) st' res"
proof -
  obtain s q where g: "repo_get r i (repo_state st) = (s, q)" by (meson surj_pair)
  note gs = get_step [OF assms(1) g]
  show ?thesis
  proof (cases "\<exists>x k j. q = Inr (Some x) \<and> FindPlayerByRiotId x gn tg = Some k \<and>
      FindSpell (elems (Players x) ! k) sp = Some j")
    case False
    then consider e where "q = Inl e" | "q = Inr None" "sview st i = None"
      | x v where "q = Inr (Some x)" "room_ok x" "sview st i = Some v" "agree f g x v"
          "\<forall>k. FindPlayerByRiotId x gn tg = Some k \<longrightarrow> FindSpell (elems (Players x) ! k) sp = None"
      using gs(3,4) by (metis not_None_eq sum.exhaust)
    then show ?thesis
    proof cases
      case 1
      with g show ?thesis
        by (intro that updates_read [OF assms(1) g])
           (auto simp: ToggleSpellByRiotId_def toggleSpellByRiotIDLocked_def)
    next
      case 2
      with g show ?thesis
        by (intro that updates_read [OF assms(1) g])
           (auto simp: ToggleSpellByRiotId_def toggleSpellByRiotIDLocked_def)
    next
      case (3 x v)
      have "ToggleSpellByRiotId r now saved i gn tg sp st = Some (st\<lparr>repo_state := s\<rparr>, Inr False)"
        using g 3 toggle_player_cases [OF 3(2)]
        by (cases "FindPlayerByRiotId x gn tg")
           (simp_all add: ToggleSpellByRiotId_def toggleSpellByRiotIDLocked_def)
      with 3 show ?thesis
        by (intro that updates_read [OF assms(1) g]) auto
    qed
  next
    case True
    then obtain x k j where x: "q = Inr (Some x)" and fp: "FindPlayerByRiotId x gn tg = Some k"
      and fs: "FindSpell (elems (Players x) ! k) sp = Some j" by blast
    let ?x = "toggle_in_room now saved x k j"
    from gs(4) [OF x] have "room_ok x" "Id x = i" by simp_all
    obtain st2 q2 where sv: "saveRoom r saved (Some ?x) (st\<lparr>repo_state := s\<rparr>) = (st2, q2)"
      by (meson surj_pair)
    have eq: "ToggleSpellByRiotId r now saved i gn tg sp st = Some
       (case q2 of Inl e \<Rightarrow> (st2, Inl e) | Inr u \<Rightarrow> (fst (publishRoomUpdated i st2), Inr True))"
      using sv toggle_player_cases [OF \<open>room_ok x\<close> fp, of now sp]
      by (simp add: ToggleSpellByRiotId_def toggleSpellByRiotIDLocked_def g x fp fs
          toggle_in_room_def Let_def saveRoom_LastUpdated split: sum.split)
    obtain st' res where out: "(case q2 of Inl e \<Rightarrow> (st2, Inl e)
        | Inr u \<Rightarrow> (fst (publishRoomUpdated i st2), Inr True)) = (st', res)" by (meson surj_pair)
    have "Id ?x = i" "?x\<lparr>LastUpdated := saved\<rparr> = ?x"
      using \<open>Id x = i\<close> by (simp_all add: toggle_in_room_def Let_def)
    then have "updates st i (\<lambda>x x'. \<exists>k j. FindPlayerByRiotId x gn tg = Some k \<and>
        FindSpell (elems (Players x) ! k) sp = Some j \<and> x' = toggle_in_room now saved x k j)
        (notify_room i) F st' res" for F
      using fp fs assms(2) out by (intro updates_save [OF assms(1) g [unfolded x] sv])
         (auto simp: publish_eqs intro: room_ok_toggle_in_room)
    then show ?thesis using eq out by (intro that) auto
  qed
qed

subsection \<open>The background jobs\<close>

lemma refresh_rooms_step:
  assumes "refresh_rooms r clock k xs ids st = (st', res)" "sinv st" "distinct (map Id xs)"
    and "\<And>x. x \<in> set xs \<Longrightarrow> sview st (Id x) = Some x"
  shows "sinv st' \<and> conn st' = conn st \<and> currentRoomID st' = currentRoomID st \<and>
    (\<forall>i. i \<notin> Id ` set xs \<longrightarrow> sview st' i = sview st i) \<and>
    (\<forall>x \<in> set xs. sview st' (Id x) = Some x \<or> (\<exists>k. sview st' (Id x) = Some (refreshed f g (clock k) x))) \<and>
    (\<forall>ids'. res = Inr ids' \<longrightarrow> ids' = ids @ changed_ids clock k xs \<and>
       (\<forall>x \<in> set xs. \<exists>k. sview st' (Id x) = Some (refreshed f g (clock k) x) \<and>
          (refreshed f g (clock k) x \<noteq> x \<longrightarrow> Id x \<in> set ids')))"
  using assms
proof (induction xs arbitrary: k ids st)
  case (Cons x xs)
  let ?st1 = "st\<lparr>ctx_polls := rest_polls (ctx_polls st)\<rparr>"
  let ?x = "fst (refreshRoomCooldowns (clock k) x)"
  have vx: "sview st (Id x) = Some x" using Cons.prems(4) by simp
  have vxs: "\<And>y. y \<in> set xs \<Longrightarrow> sview st (Id y) = Some y" using Cons.prems(4) by simp
  have d: "distinct (map Id xs)" using Cons.prems(3) by simp
  have ne: "\<And>y. y \<in> set xs \<Longrightarrow> Id y \<noteq> Id x" "Id x \<notin> Id ` set xs"
    using Cons.prems(3) by (auto simp: image_iff)
  have ok: "Id x \<noteq> []" "room_ok x"
    using vx Cons.prems(2) by (auto simp: service_inv_def service_view_def rooms_ok_def)
  show ?case
  proof (cases "next_poll (ctx_polls st)")
    case (Some e)
    then have "st' = ?st1" "res = Inl e" using Cons.prems(1) by (simp_all add: Let_def)
    then show ?thesis using Cons.prems(2) vx vxs by auto
  next
    case poll: None
    show ?thesis
    proof (cases "snd (refreshRoomCooldowns (clock k) x)")
      case False
      then have same: "refreshed f g (clock k) x = x" by (simp add: refreshed_def)
      have rec: "refresh_rooms r clock (Suc k) xs ids ?st1 = (st', res)"
        using Cons.prems(1) poll False by (simp add: Let_def split: prod.splits bool.splits)
      have "sview st' (Id x) = Some (refreshed f g (clock k) x)"
        using Cons.IH [OF rec] Cons.prems(2) d vxs ne vx same by simp
      then have "\<exists>k. sview st' (Id x) = Some (refreshed f g (clock k) x) \<and> (refreshed f g (clock k) x \<noteq> x \<longrightarrow> P)" for P
        using same by blast
      with Cons.IH [OF rec] Cons.prems(2) d vxs False show ?thesis by auto
    next
      case True
      obtain s q where sv: "repo_save r (Some ?x) (repo_state st) = (s, q)" by (meson surj_pair)
      let ?st2 = "?st1\<lparr>repo_state := s\<rparr>"
      have okx: "Id ?x \<noteq> []" "room_ok ?x" using ok room_ok_refresh by simp_all
      have sv1: "repo_save r (Some ?x) (repo_state ?st1) = (s, q)" using sv by simp
      have i1: "sinv ?st1" using Cons.prems(2) by simp
      note ss = save_step [OF i1 sv1 okx]
      have rf: "store_room f g ?x = refreshed f g (clock k) x" using True by (simp add: refreshed_def)
      show ?thesis
      proof (cases q)
        case (Inl e)
        then have "st' = ?st2" "\<exists>e. res = Inl e"
          using Cons.prems(1) poll True sv by (auto simp: Let_def split: prod.splits bool.splits)
        with ss(1,3) rf vx vxs ne show ?thesis by auto
      next
        case (Inr u)
        then have rec: "refresh_rooms r clock (Suc k) xs (ids @ [Id x]) ?st2 = (st', res)"
          using Cons.prems(1) poll True sv
          by (simp add: Let_def split: prod.splits bool.splits) (metis fst_conv refreshRoomCooldowns_simps(1))
        have v2: "sview ?st2 = (sview st)(Id x \<mapsto> refreshed f g (clock k) x)"
          using ss(2) Inr rf by simp
        have ih: "sview ?st2 (Id y) = Some y" if "y \<in> set xs" for y
          using that v2 vxs ne by simp
        note IH = Cons.IH [OF rec ss(1) d ih]
        have "sview st' (Id x) = Some (refreshed f g (clock k) x)"
          using IH ne v2 by simp
        with IH v2 True ne show ?thesis by auto
      qed
    qed
  qed
qed auto

lemma cleanup_rooms_step:
  assumes "cleanup_rooms r now xs st = (st', res)" "sinv st" "distinct (map Id xs)"
    and "\<And>x. x \<in> set xs \<Longrightarrow> sview st (Id x) = Some x"
  shows "sinv st' \<and> conn st' = conn st \<and>
    (\<forall>i. i \<notin> Id ` set xs \<longrightarrow> sview st' i = sview st i) \<and>
    (\<forall>x \<in> set xs. sview st' (Id x) = Some x \<or> expired now x \<and> sview st' (Id x) = None) \<and>
    (currentRoomID st' = currentRoomID st \<or> currentRoomID st' = [] \<and> sview st' (currentRoomID st) = None) \<and>
    (\<forall>u. res = Inr u \<longrightarrow>
       (\<forall>x \<in> set xs. sview st' (Id x) = (if expired now x then None else Some x)) \<and>
       currentRoomID st' =
         (if \<exists>x \<in> set xs. Id x = currentRoomID st \<and> expired now x then [] else currentRoomID st))"
  using assms
proof (induction xs arbitrary: st)
  case (Cons x xs)
  let ?st1 = "st\<lparr>ctx_polls := rest_polls (ctx_polls st)\<rparr>"
  have vx: "sview st (Id x) = Some x" using Cons.prems(4) by simp
  have vxs: "\<And>y. y \<in> set xs \<Longrightarrow> sview st (Id y) = Some y" using Cons.prems(4) by simp
  have d: "distinct (map Id xs)" using Cons.prems(3) by simp
  have ne: "\<And>y. y \<in> set xs \<Longrightarrow> Id y \<noteq> Id x" "Id x \<notin> Id ` set xs"
    using Cons.prems(3) by (auto simp: image_iff)
  show ?case
  proof (cases "next_poll (ctx_polls st)")
    case (Some e)
    then have "st' = ?st1" "res = Inl e" using Cons.prems(1) by (simp_all add: Let_def)
    then show ?thesis using Cons.prems(2) vx vxs by auto
  next
    case poll: None
    show ?thesis
    proof (cases "expired now x")
      case False
      then have rec: "cleanup_rooms r now xs ?st1 = (st', res)"
        using Cons.prems(1) poll by (simp add: expired_def not_less Let_def)
      have "sview st' (Id x) = Some x"
        using Cons.IH [OF rec] Cons.prems(2) d vxs ne vx by simp
      with Cons.IH [OF rec] Cons.prems(2) d vxs False show ?thesis by auto
    next
      case True
      obtain s q where dl: "repo_delete r (Id x) (repo_state st) = (s, q)" by (meson surj_pair)
      let ?st2 = "?st1\<lparr>repo_state := s\<rparr>"
      have inv: "inv (repo_state st)" and ok: "rooms_ok (view (repo_state st))"
        using Cons.prems(2) by (simp_all add: service_inv_def)
      have v2: "inv s \<and> (view s = view (repo_state st) \<or> view s = (view (repo_state st))(Id x := None))"
        using delete_Inl [OF inv] delete_Inr [OF inv] dl by (cases q) blast+
      then have i2: "sinv ?st2" using ok by (auto simp: service_inv_def rooms_ok_del)
      show ?thesis
      proof (cases q)
        case (Inl e)
        then have "st' = ?st2" "\<exists>e. res = Inl e"
          using Cons.prems(1) poll True dl by (auto simp: expired_def Let_def)
        with i2 v2 True vx vxs ne show ?thesis
          by (auto simp: service_view_def)
      next
        case (Inr u)
        let ?st3 = "clearCurrentRoomIDLocked (Id x) ?st2"
        have rec: "cleanup_rooms r now xs ?st3 = (st', res)"
          using Cons.prems(1) poll True dl Inr by (simp add: expired_def Let_def)
        have v3: "sview ?st3 = (sview st)(Id x := None)" "sinv ?st3" "conn ?st3 = conn st"
          using delete_Inr [OF inv] dl Inr i2
          by (simp_all add: service_view_def clearCurrentRoomIDLocked_def service_inv_def fun_eq_iff)
        have c3: "currentRoomID ?st3 = (if currentRoomID st = Id x then [] else currentRoomID st)"
          by (simp add: clearCurrentRoomIDLocked_def)
        have ih: "sview ?st3 (Id y) = Some y" if "y \<in> set xs" for y
          using that v3(1) vxs ne by simp
        note IH = Cons.IH [OF rec v3(2) d ih]
        have "sview st' (Id x) = None"
          using IH ne v3(1) by simp
        moreover have "y \<in> set xs \<Longrightarrow> Id y \<noteq> []" for y
          using Cons.prems(2,4) by (force simp: service_inv_def service_view_def rooms_ok_def)
        ultimately show ?thesis
          using IH ne v3 c3 True by auto
      qed
    qed
  qed
qed auto

lemma get_all_step:
  assumes "sinv st" "repo_get_all r (repo_state st) = (s, q)"
  shows "sinv (st\<lparr>repo_state := s\<rparr>)" "sview (st\<lparr>repo_state := s\<rparr>) = sview st"
    and "q = Inr xs \<Longrightarrow> set xs = ran (sview st) \<and> distinct (map Id xs)"
    and "q = Inr xs \<Longrightarrow> x \<in> set xs \<Longrightarrow> sview st (Id x) = Some x"
    and "q = Inr xs \<Longrightarrow> sview st i = Some v \<Longrightarrow> v \<in> set xs \<and> Id v = i"
    and "q = Inr xs \<Longrightarrow> sview st i = None \<Longrightarrow> i \<notin> Id ` set xs"
proof -
  have inv: "inv (repo_state st)" using assms(1) by (simp add: service_inv_def)
  show "sinv (st\<lparr>repo_state := s\<rparr>)" "sview (st\<lparr>repo_state := s\<rparr>) = sview st"
    using get_all_inv [OF inv assms(2)] assms(1) by (simp_all add: service_inv_def service_view_def)
  assume q: "q = Inr xs"
  note look = get_all_lookup [OF inv assms(2) [unfolded q]]
  show R: "set xs = ran (sview st) \<and> distinct (map Id xs)"
    using get_all_Inr [OF inv] assms(2) q by (auto simp: service_view_def)
  show L: "x \<in> set xs \<Longrightarrow> sview st (Id x) = Some x" for x
    using look by (auto simp: service_view_def)
  show "v \<in> set xs \<and> Id v = i" if "sview st i = Some v"
    using that R view_Id [OF inv] by (auto simp: ran_def service_view_def)
  show "i \<notin> Id ` set xs" if "sview st i = None"
    using that L by force
qed

lemma publish_all_eq: "publish_all is st = st\<lparr>conn := fold notify_room is (conn st)\<rparr>"
  by (induction "is" arbitrary: st) (simp_all add: publish_eqs)

lemma RefreshCooldowns_step:
  assumes "RefreshCooldowns r clock st = (st', res)" "sinv st"
  shows "sinv st' \<and> currentRoomID st' = currentRoomID st"
    and "sview st i = None \<Longrightarrow> sview st' i = None"
    and "sview st i = Some v \<Longrightarrow> sview st' i = Some v \<or> (\<exists>k. sview st' i = Some (refreshed f g (clock k) v))"
    and "res = Inl e \<Longrightarrow> conn st' = conn st"
    and "res = Inr u \<Longrightarrow> \<exists>xs. set xs = ran (sview st) \<and> distinct (map Id xs) \<and>
           conn st' = fold notify_room (changed_ids clock 0 xs) (conn st)"
    and "res = Inr u \<Longrightarrow> sview st i = Some v \<Longrightarrow> \<exists>k. sview st' i = Some (refreshed f g (clock k) v)"
proof -
  obtain s q where g: "repo_get_all r (repo_state st) = (s, q)" by (meson surj_pair)
  let ?st1 = "st\<lparr>repo_state := s\<rparr>"
  note gs = get_all_step [OF assms(2) g]
  consider e0 where "st' = ?st1" "res = Inl e0"
    | xs st2 e0 where "q = Inr xs" "refresh_rooms r clock 0 xs [] ?st1 = (st2, Inl e0)" "st' = st2" "res = Inl e0"
    | xs st2 ids where "q = Inr xs" "refresh_rooms r clock 0 xs [] ?st1 = (st2, Inr ids)"
        "st' = st2\<lparr>conn := fold notify_room ids (conn st2)\<rparr>" "res = Inr ()"
    using assms(1) g
    by (auto simp: RefreshCooldowns_def refreshCooldownsLocked_def publish_all_eq split: sum.splits prod.splits)
  note cases = this
  note step = refresh_rooms_step [OF _ gs(1), unfolded gs(2), OF _ conjunct2 [OF gs(3)] gs(4)]
  have A: "sinv st2 \<and> currentRoomID st2 = currentRoomID st \<and>
      (sview st i = None \<longrightarrow> sview st2 i = None) \<and>
      (sview st i = Some v \<longrightarrow> sview st2 i = Some v \<or> (\<exists>k. sview st2 i = Some (refreshed f g (clock k) v)))"
    if "q = Inr xs" "refresh_rooms r clock 0 xs [] ?st1 = (st2, q2)" for xs st2 q2
    using step [OF that(2) that(1) that(1)] gs(5,6) [OF that(1)] by simp metis
  show "sinv st' \<and> currentRoomID st' = currentRoomID st"
    by (rule cases) (use gs(1) A in auto)
  show "sview st i = None \<Longrightarrow> sview st' i = None"
    by (rule cases) (use gs(2) A in auto)
  show "sview st i = Some v \<Longrightarrow> sview st' i = Some v \<or> (\<exists>k. sview st' i = Some (refreshed f g (clock k) v))"
    by (rule cases) (use gs(2) A in auto)
  show "res = Inl e \<Longrightarrow> conn st' = conn st"
  proof (rule cases)
    fix xs st2 e0
    assume xs: "q = Inr xs" "refresh_rooms r clock 0 xs [] ?st1 = (st2, Inl e0)" "st' = st2"
    show ?thesis using step [OF xs(2) xs(1) xs(1)] xs(3) by simp
  qed simp_all
  show "res = Inr u \<Longrightarrow> \<exists>xs. set xs = ran (sview st) \<and> distinct (map Id xs) \<and>
      conn st' = fold notify_room (changed_ids clock 0 xs) (conn st)"
  proof (rule cases)
    fix xs st2 ids
    assume xs: "q = Inr xs" "refresh_rooms r clock 0 xs [] ?st1 = (st2, Inr ids)"
      "st' = st2\<lparr>conn := fold notify_room ids (conn st2)\<rparr>"
    show ?thesis
      using step [OF xs(2) xs(1) xs(1)] gs(3) [OF xs(1)] xs(3) by (intro exI [of _ xs]) simp
  qed simp_all
  show "\<exists>k. sview st' i = Some (refreshed f g (clock k) v)" if "res = Inr u" "sview st i = Some v"
  proof (rule cases)
    fix xs st2 ids
    assume xs: "q = Inr xs" "refresh_rooms r clock 0 xs [] ?st1 = (st2, Inr ids)"
      "st' = st2\<lparr>conn := fold notify_room ids (conn st2)\<rparr>"
    show ?thesis
      using step [OF xs(2) xs(1) xs(1)] gs(5) [OF xs(1) that(2)] xs(3) by auto
  qed (use that in simp_all)
qed

lemma changed_ids_Id: "set (changed_ids clock k xs) \<subseteq> Id ` set xs"
  by (induction xs arbitrary: k) auto

text \<open>Every room whose stored state a successful refresh changed is announced, and only stored rooms are.\<close>

lemma RefreshCooldowns_announces:
  assumes "RefreshCooldowns r clock st = (st', Inr u)" "sinv st"
  obtains ids where "conn st' = fold notify_room ids (conn st)" "set ids \<subseteq> dom (sview st)"
    "\<And>i v. sview st i = Some v \<Longrightarrow> (\<exists>k. sview st' i = Some (refreshed f g (clock k) v)) \<and> (sview st' i \<noteq> Some v \<longrightarrow> i \<in> set ids)"
proof -
  obtain s q where g: "repo_get_all r (repo_state st) = (s, q)" by (meson surj_pair)
  let ?st1 = "st\<lparr>repo_state := s\<rparr>"
  note gs = get_all_step [OF assms(2) g]
  obtain xs st2 ids where xs: "q = Inr xs" "refresh_rooms r clock 0 xs [] ?st1 = (st2, Inr ids)"
      "st' = st2\<lparr>conn := fold notify_room ids (conn st2)\<rparr>"
    using assms(1) g
    by (auto simp: RefreshCooldowns_def refreshCooldownsLocked_def publish_all_eq split: sum.splits prod.splits)
  note step = refresh_rooms_step [OF xs(2) gs(1), unfolded gs(2), OF conjunct2 [OF gs(3) [OF xs(1)]] gs(4) [OF xs(1)], simplified]
  have A: "conn st2 = conn st" "ids = changed_ids clock 0 xs"
    "\<forall>x \<in> set xs. \<exists>k. sview st2 (Id x) = Some (refreshed f g (clock k) x) \<and> (refreshed f g (clock k) x \<noteq> x \<longrightarrow> Id x \<in> set ids)"
    using step by blast+
  have "set ids \<subseteq> dom (sview st)"
  proof
    fix i assume "i \<in> set ids"
    then obtain x where "x \<in> set xs" "i = Id x" using changed_ids_Id A(2) by blast
    with gs(4) [OF xs(1)] show "i \<in> dom (sview st)" by auto
  qed
  moreover have "(\<exists>k. sview st' i = Some (refreshed f g (clock k) v)) \<and> (sview st' i \<noteq> Some v \<longrightarrow> i \<in> set ids)"
    if "sview st i = Some v" for i v
  proof -
    have v: "v \<in> set xs" "Id v = i" using gs(5) [OF xs(1) that] by simp_all
    with A(3) obtain k where "sview st2 i = Some (refreshed f g (clock k) v)" "refreshed f g (clock k) v \<noteq> v \<longrightarrow> i \<in> set ids" by blast
    with xs(3) show ?thesis by auto
  qed
  moreover have "conn st' = fold notify_room ids (conn st)" using A(1) xs(3) by simp
  ultimately show thesis using that by blast
qed

lemma cleanupOldRooms_step:
  assumes "cleanupOldRooms r now st = (st', res)" "sinv st"
  shows "sinv st' \<and> conn st' = conn st"
    and "sview st' i = sview st i \<or> (\<exists>v. sview st i = Some v \<and> expired now v \<and> sview st' i = None)"
    and "res = Inr u \<Longrightarrow> sview st' i =
           (case sview st i of None \<Rightarrow> None | Some v \<Rightarrow> if expired now v then None else Some v)"
    and "res = Inr u \<Longrightarrow> currentRoomID st' =
           (if \<exists>v. sview st (currentRoomID st) = Some v \<and> expired now v then [] else currentRoomID st)"
    and "currentRoomID st' = currentRoomID st \<or> currentRoomID st' = [] \<and> sview st' (currentRoomID st) = None"
proof -
  obtain s q where g: "repo_get_all r (repo_state st) = (s, q)" by (meson surj_pair)
  let ?st1 = "st\<lparr>repo_state := s\<rparr>"
  note gs = get_all_step [OF assms(2) g]
  consider e0 where "st' = ?st1" "res = Inl e0"
    | xs where "q = Inr xs" "cleanup_rooms r now xs ?st1 = (st', res)"
    using assms(1) g by (auto simp: cleanupOldRooms_def split: sum.splits)
  note cases = this
  note step = cleanup_rooms_step [OF _ gs(1), unfolded gs(2), OF _ conjunct2 [OF gs(3)] gs(4)]
  show "sinv st' \<and> conn st' = conn st"
    by (rule cases) (use gs(1) step in force)+
  show "sview st' i = sview st i \<or> (\<exists>v. sview st i = Some v \<and> expired now v \<and> sview st' i = None)"
  proof (rule cases)
    fix xs assume xs: "q = Inr xs" "cleanup_rooms r now xs ?st1 = (st', res)"
    show ?thesis
      using step [OF xs(2) xs(1) xs(1)] gs(5) [OF xs(1)] gs(6) [OF xs(1)]
      by (cases "sview st i") fastforce+
  qed (use gs(2) in auto)
  show "sview st' i = (case sview st i of None \<Rightarrow> None | Some v \<Rightarrow> if expired now v then None else Some v)"
    if "res = Inr u"
  proof (rule cases)
    fix xs assume xs: "q = Inr xs" "cleanup_rooms r now xs ?st1 = (st', res)"
    show ?thesis
      using step [OF xs(2) xs(1) xs(1)] gs(5) [OF xs(1)] gs(6) [OF xs(1)] that
      by (cases "sview st i") fastforce+
  qed (use that in auto)
  show "currentRoomID st' =
      (if \<exists>v. sview st (currentRoomID st) = Some v \<and> expired now v then [] else currentRoomID st)"
    if "res = Inr u"
  proof (rule cases)
    fix xs assume xs: "q = Inr xs" "cleanup_rooms r now xs ?st1 = (st', res)"
    have "(\<exists>x \<in> set xs. Id x = currentRoomID st \<and> expired now x) \<longleftrightarrow>
        (\<exists>v. sview st (currentRoomID st) = Some v \<and> expired now v)"
      using gs(4,5) [OF xs(1)] by metis
    then show ?thesis
      using step [OF xs(2) xs(1) xs(1)] that by auto
  qed (use that in auto)
  show "currentRoomID st' = currentRoomID st \<or> currentRoomID st' = [] \<and> sview st' (currentRoomID st) = None"
  proof (rule cases)
    fix xs assume xs: "q = Inr xs" "cleanup_rooms r now xs ?st1 = (st', res)"
    show ?thesis using step [OF xs(2) xs(1) xs(1)] by simp
  qed simp
qed

lemma sinv_conn_current:
  "sinv (SetCurrentRoomID i st) = sinv st" "sview (SetCurrentRoomID i st) = sview st"
  "currentRoomID (SetCurrentRoomID i st) = i"
  "conn (SetCurrentRoomID i st) = (if currentRoomID st = i then conn st else notify_current i (conn st))"
  by (simp_all add: SetCurrentRoomID_def publish_eqs)

lemma SyncFromChampSelect_step:
  assumes "SyncFromChampSelect r cat saved i sess c st = (c', st', res)" "sinv st"
    and "\<And>se. sess = Some se \<Longrightarrow> distinct (member_ids se)"
  shows "sinv st'"
    and "res = Inr False \<Longrightarrow> sview st' = sview st \<and> conn st' = conn st \<and> currentRoomID st' = currentRoomID st"
    and "res = Inl e \<Longrightarrow> conn st' = conn st \<and> currentRoomID st' = currentRoomID st \<and>
       (sview st' = sview st \<or> (\<exists>se players. sess = Some se \<and> map (\<lambda>p. (GameName p, TagLine p)) players = member_ids se \<and>
          (\<forall>p \<in> set players. wf_player p) \<and>
          wrote st st' i (\<lambda>x x'. x' = replace_in_room saved x (Some players) \<and> Players x' \<noteq> Players x)))"
    and "res = Inr True \<Longrightarrow> currentRoomID st' = i \<and>
       conn st' = (if currentRoomID st = i then notify_room i (conn st)
                   else notify_current i (notify_room i (conn st))) \<and>
       (\<exists>se players. sess = Some se \<and> map (\<lambda>p. (GameName p, TagLine p)) players = member_ids se \<and>
          (\<forall>p \<in> set players. wf_player p) \<and>
          wrote st st' i (\<lambda>x x'. x' = replace_in_room saved x (Some players) \<and> Players x' \<noteq> Players x))"
proof -
  consider "c' = c" "st' = st" "res = Inr False"
    | se ps e0 where "sess = Some se" "st' = st\<lparr>ctx_polls := ps\<rparr>" "res = Inl e0"
    | se c1 ps players st1 q where "sess = Some se"
        "session_players cat (elems (MyTeam se)) [] c (ctx_polls st) = (c1, ps, Inr players)"
        "ReplacePlayers r saved i (Some players) (st\<lparr>ctx_polls := ps\<rparr>) = (st1, q)"
        "(\<exists>e. q = Inl e \<and> res = Inl e) \<and> st' = st1 \<or> q = Inr False \<and> res = Inr False \<and> st' = st1 \<or>
         q = Inr True \<and> res = Inr True \<and> st' = SetCurrentRoomID i (fst (publishRoomUpdated i st1))"
    using assms(1)
    by (auto simp: SyncFromChampSelect_def split: list.splits option.splits prod.splits sum.splits if_splits)
  note cases = this
  have third: "sinv st' \<and>
    (res = Inr False \<longrightarrow> sview st' = sview st \<and> conn st' = conn st \<and> currentRoomID st' = currentRoomID st) \<and>
    (res = Inl e \<longrightarrow> conn st' = conn st \<and> currentRoomID st' = currentRoomID st \<and>
       (sview st' = sview st \<or> (\<exists>se players. sess = Some se \<and> map (\<lambda>p. (GameName p, TagLine p)) players = member_ids se \<and>
          (\<forall>p \<in> set players. wf_player p) \<and>
          wrote st st' i (\<lambda>x x'. x' = replace_in_room saved x (Some players) \<and> Players x' \<noteq> Players x)))) \<and>
    (res = Inr True \<longrightarrow> currentRoomID st' = i \<and>
       conn st' = (if currentRoomID st = i then notify_room i (conn st)
                   else notify_current i (notify_room i (conn st))) \<and>
       (\<exists>se players. sess = Some se \<and> map (\<lambda>p. (GameName p, TagLine p)) players = member_ids se \<and>
          (\<forall>p \<in> set players. wf_player p) \<and>
          wrote st st' i (\<lambda>x x'. x' = replace_in_room saved x (Some players) \<and> Players x' \<noteq> Players x)))"
    if *: "sess = Some se"
      "session_players cat (elems (MyTeam se)) [] c (ctx_polls st) = (c1, ps, Inr players)"
      "ReplacePlayers r saved i (Some players) (st\<lparr>ctx_polls := ps\<rparr>) = (st1, q)"
      "(\<exists>e. q = Inl e \<and> res = Inl e) \<and> st' = st1 \<or> q = Inr False \<and> res = Inr False \<and> st' = st1 \<or>
         q = Inr True \<and> res = Inr True \<and> st' = SetCurrentRoomID i (fst (publishRoomUpdated i st1))"
    for se c1 ps players st1 q
  proof -
    note ids = session_players_ids [OF *(2), folded member_ids_def]
    have i1: "sinv (st\<lparr>ctx_polls := ps\<rparr>)" using assms(2) by simp
    have u: "updates (st\<lparr>ctx_polls := ps\<rparr>) i
        (\<lambda>x x'. x' = replace_in_room saved x (Some players) \<and> Players x' \<noteq> Players x) (\<lambda>n. n)
        (\<forall>v. sview (st\<lparr>ctx_polls := ps\<rparr>) i = Some v \<longrightarrow>
             (\<exists>x. agree f g x v \<and> Players (replace_in_room saved x (Some players)) = Players x)) st1 q"
      using ids assms(3) [OF *(1)] by (intro ReplacePlayers_updates [OF i1 *(3)]) simp_all
    note uD = updatesD [OF u, simplified]
    have w: "wrote st (SetCurrentRoomID i (fst (publishRoomUpdated i st1))) i Q"
      "wrote st st1 i Q" if "wrote (st\<lparr>ctx_polls := ps\<rparr>) st1 i Q" for Q
      using that by (simp_all add: wrote_def sinv_conn_current publish_eqs)
    from *(4) uD w ids *(1) show ?thesis
      by (auto simp: sinv_conn_current publish_eqs)
  qed
  show "sinv st'" by (rule cases) (use assms(2) third in auto)
  show "res = Inr False \<Longrightarrow> sview st' = sview st \<and> conn st' = conn st \<and> currentRoomID st' = currentRoomID st"
    by (rule cases) (use third in auto)
  show "res = Inl e \<Longrightarrow> conn st' = conn st \<and> currentRoomID st' = currentRoomID st \<and>
       (sview st' = sview st \<or> (\<exists>se players. sess = Some se \<and> map (\<lambda>p. (GameName p, TagLine p)) players = member_ids se \<and>
          (\<forall>p \<in> set players. wf_player p) \<and>
          wrote st st' i (\<lambda>x x'. x' = replace_in_room saved x (Some players) \<and> Players x' \<noteq> Players x)))"
    by (rule cases) (use third in auto)
  show "res = Inr True \<Longrightarrow> currentRoomID st' = i \<and>
       conn st' = (if currentRoomID st = i then notify_room i (conn st)
                   else notify_current i (notify_room i (conn st))) \<and>
       (\<exists>se players. sess = Some se \<and> map (\<lambda>p. (GameName p, TagLine p)) players = member_ids se \<and>
          (\<forall>p \<in> set players. wf_player p) \<and>
          wrote st st' i (\<lambda>x x'. x' = replace_in_room saved x (Some players) \<and> Players x' \<noteq> Players x))"
    by (rule cases) (use third in auto)
qed

end

section \<open>The service over the in-memory repository\<close>

interpretation mem_service: room_service in_memory_repo mem_view mem_inv "\<lambda>t. t" "\<lambda>t. t"
  by unfold_locales simp

end
