(* ===== verification/RoomProps.thy ===== *)
theory RoomProps
  imports RoomSpec
begin

text \<open>
  The room service as a transition system over any repository that meets the contract
  \<open>room_service\<close>, and the properties of its operations.
\<close>

section \<open>Steps of the service\<close>

text \<open>
  One call of the service, with any arguments its callers can pass: players to add carry
  well-formed spells (the HTTP handler passes none), times are after Go's zero time, and the
  members of a Champion Select session have different Riot identifiers.
\<close>

inductive room_step ::
  "'s room_repo \<Rightarrow> (int \<Rightarrow> 'c \<Rightarrow> 'c \<times> (go_error + champion_info)) \<Rightarrow> 's room_service \<Rightarrow> 's room_service \<Rightarrow> bool"
  for r cat where
  create: "CreateRoom r now i st = (st', res) \<Longrightarrow> room_step r cat st st'"
| add: "AddPlayer r saved i p st = (st', res) \<Longrightarrow> \<forall>s \<in> set (elems (Spells p)). wf_spell s \<Longrightarrow> room_step r cat st st'"
| toggle: "ToggleSpellByRiotId r now saved i gn tg sp st = Some (st', res) \<Longrightarrow> 0 \<le> now \<Longrightarrow> room_step r cat st st'"
| refresh: "RefreshCooldowns r clock st = (st', res) \<Longrightarrow> room_step r cat st st'"
| cleanup: "cleanupOldRooms r now st = (st', res) \<Longrightarrow> room_step r cat st st'"
| sync: "SyncFromChampSelect r cat saved i sess c st = (c', st', res) \<Longrightarrow>
    (\<And>se. sess = Some se \<Longrightarrow> distinct (member_ids se)) \<Longrightarrow> room_step r cat st st'"
| snapshot: "GetRoomSnapshot r i st = (st', res) \<Longrightarrow> room_step r cat st st'"
| snapshots: "GetRoomSnapshots r st = (st', res) \<Longrightarrow> room_step r cat st st'"
| set_current: "room_step r cat st (SetCurrentRoomID i st)"
| clear_current: "room_step r cat st (ClearCurrentRoomID i st)"
| new_context: "room_step r cat st (st\<lparr>ctx_polls := ps\<rparr>)"

inductive_cases room_stepE: "room_step r cat st st'"

context room_service
begin

lemma room_step_inv: "room_step r cat st st' \<Longrightarrow> sinv st \<Longrightarrow> sinv st'"
proof (induction rule: room_step.induct)
  case (toggle now saved i gn tg sp st st' res)
  show ?case
  proof (rule ToggleSpell_updates [OF toggle.prems toggle.hyps(2), of saved i gn tg sp])
    fix st1 res1
    assume "ToggleSpellByRiotId r now saved i gn tg sp st = Some (st1, res1)"
    with toggle.hyps(1) have "st' = st1" by simp
    then show "updates st i Q N F st1 res1 \<Longrightarrow> sinv st'" for Q N F by (simp add: updatesD(1))
  qed
next
  case (sync saved i sess c st c' st' res)
  from SyncFromChampSelect_step(1) [OF sync.hyps(1) sync.prems sync.hyps(2)] show ?case .
next
  case (snapshot i st st' res)
  obtain s q where g: "repo_get r i (repo_state st) = (s, q)" by (meson surj_pair)
  from get_step(1) [OF snapshot.prems g] snapshot.hyps g show ?case
    by (auto simp: GetRoomSnapshot_def split: sum.splits)
next
  case (snapshots st st' res)
  obtain s q where g: "repo_get_all r (repo_state st) = (s, q)" by (meson surj_pair)
  from get_all_inv [OF _ g] snapshots.prems snapshots.hyps g show ?case
    by (auto simp: GetRoomSnapshots_def service_inv_def split: sum.splits)
next
  case (add saved i p st st' res)
  from AddPlayer_updates [OF add.prems add.hyps(1)] add.hyps(2) show ?case by (auto dest: updatesD(1))
next
  case (create now i st st' res)
  from CreateRoom_step(1) [OF create.prems create.hyps] show ?case by simp
next
  case (refresh clock st st' res)
  from RefreshCooldowns_step(1) [OF refresh.hyps refresh.prems] show ?case by simp
next
  case (cleanup now st st' res)
  from cleanupOldRooms_step(1) [OF cleanup.hyps cleanup.prems] show ?case by simp
qed (simp_all add: SetCurrentRoomID_def ClearCurrentRoomID_def publish_eqs)

lemma room_steps_inv: "(room_step r cat)\<^sup>*\<^sup>* st st' \<Longrightarrow> sinv st \<Longrightarrow> sinv st'"
  by (induction rule: rtranclp_induct) (auto intro: room_step_inv)

text \<open>Steps that neither create a room nor select one: all that requests, jobs and notifications execute.\<close>

definition kept :: "'s room_service \<Rightarrow> 's room_service \<Rightarrow> bool" where
  "kept st st' \<longleftrightarrow> (\<forall>i. sview st i = None \<longrightarrow> sview st' i = None) \<and> (currentRoomID st' = currentRoomID st \<or> currentRoomID st' = [])"

definition room_use :: "(int \<Rightarrow> 'c \<Rightarrow> 'c \<times> (go_error + champion_info)) \<Rightarrow> 's room_service \<Rightarrow> 's room_service \<Rightarrow> bool" where
  "room_use cat st st' \<longleftrightarrow> (room_step r cat)\<^sup>*\<^sup>* st st' \<and> kept st st'"

lemma room_useI: "room_step r cat st st' \<Longrightarrow> kept st st' \<Longrightarrow> room_use cat st st'"
  by (auto simp: room_use_def)

lemma room_use_refl [simp]: "room_use cat st st"
  by (simp add: room_use_def kept_def)

lemma updates_kept: "updates st i Q N F st' res \<Longrightarrow> kept st st'"
  unfolding updates_def kept_def wrote_def by (cases res) (auto split: bool.splits if_splits)

lemma room_uses:
  "sinv st \<Longrightarrow> AddPlayer r saved i p st = (st', res) \<Longrightarrow> \<forall>s \<in> set (elems (Spells p)). wf_spell s \<Longrightarrow> room_use cat st st'"
  "sinv st \<Longrightarrow> GetRoomSnapshot r i st = (st', res') \<Longrightarrow> room_use cat st st'"
  "sinv st \<Longrightarrow> RefreshCooldowns r clock st = (st', out) \<Longrightarrow> room_use cat st st'"
  "sinv st \<Longrightarrow> cleanupOldRooms r now st = (st', out) \<Longrightarrow> room_use cat st st'"
  "room_use cat st (ClearCurrentRoomID i st)" "room_use cat st (st\<lparr>ctx_polls := ps\<rparr>)"
proof -
  show "room_use cat st st'" if "sinv st" "AddPlayer r saved i p st = (st', res)" "\<forall>s \<in> set (elems (Spells p)). wf_spell s"
    using AddPlayer_updates [OF that(1,2)] room_step.add [OF that(2,3)] that(3) updates_kept room_useI by blast
  show "room_use cat st st'" if "sinv st" "GetRoomSnapshot r i st = (st', res')"
  proof (rule room_useI [OF room_step.snapshot [OF that(2)]])
    obtain s q where g: "repo_get r i (repo_state st) = (s, q)" by (meson surj_pair)
    with get_step(2) [OF that(1) g] that(2) show "kept st st'" by (auto simp: GetRoomSnapshot_def kept_def split: sum.splits)
  qed
  show "room_use cat st st'" if "sinv st" "RefreshCooldowns r clock st = (st', out)"
  proof (rule room_useI [OF room_step.refresh [OF that(2)]])
    from RefreshCooldowns_step(1,2) [OF that(2,1)] show "kept st st'" unfolding kept_def by fastforce
  qed
  show "room_use cat st st'" if "sinv st" "cleanupOldRooms r now st = (st', out)"
  proof (rule room_useI [OF room_step.cleanup [OF that(2)]])
    note c = cleanupOldRooms_step(2,5) [OF that(2,1)]
    have "sview st' i = None" if "sview st i = None" for i using c(1) [of i] that by auto
    with c(2) show "kept st st'" by (auto simp: kept_def)
  qed
  show "room_use cat st (ClearCurrentRoomID i st)"
    by (rule room_useI [OF room_step.clear_current]) (simp add: kept_def ClearCurrentRoomID_def publish_eqs)
  show "room_use cat st (st\<lparr>ctx_polls := ps\<rparr>)"
    by (rule room_useI [OF room_step.new_context]) (simp add: kept_def)
qed

lemma toggle_use:
  assumes "sinv st" "ToggleSpellByRiotId r now saved i gn tg sp st = Some (st', res)" "0 \<le> now"
  shows "room_use cat st st'"
proof (rule ToggleSpell_updates [OF assms(1,3), of saved i gn tg sp], goal_cases)
  case (1 st1 res1)
  then have "st1 = st'" using assms(2) by simp
  with 1(2) updates_kept room_useI [OF room_step.toggle [OF assms(2,3)]] show ?case by blast
qed

end

section \<open>Spell state across a replacement\<close>

lemma copy_spell_state:
  "FindSpell old (Name (copy_spell old s)) = Some j \<Longrightarrow>
   IsReady (copy_spell old s) = IsReady (elems (Spells old) ! j) \<and>
   CooldownEndTime (copy_spell old s) = CooldownEndTime (elems (Spells old) ! j) \<and>
   RemainingCooldown (copy_spell old s) = RemainingCooldown (elems (Spells old) ! j)"
  by (auto simp: copy_spell_def Let_def split: option.splits)

lemma carried_spell:
  assumes "s' \<in> set (elems (Spells (carry_over x p)))"
    and "FindPlayerByRiotId x (GameName p) (TagLine p) = Some k"
    and "FindSpell (elems (Players x) ! k) (Name s') = Some j"
  shows "IsReady s' = IsReady (elems (Spells (elems (Players x) ! k)) ! j) \<and>
    CooldownEndTime s' = CooldownEndTime (elems (Spells (elems (Players x) ! k)) ! j) \<and>
    RemainingCooldown s' = RemainingCooldown (elems (Spells (elems (Players x) ! k)) ! j)"
proof -
  from assms(1,2) obtain s where "s' = copy_spell (elems (Players x) ! k) s"
    by (cases "Spells p") (auto simp: carry_over_def CopySpellState_def Let_def split: option.splits)
  with assms(3) copy_spell_state show ?thesis by blast
qed

section \<open>An example service\<close>

definition ex_player :: player where
  "ex_player = new_player \<lparr>Champion = ''Ahri'', ChampionImage = [], GameName = ''me'', TagLine = ''EUW'',
     ChampionId = 103, SummonerSpellHaste = 0, Spells = None\<rparr>"

definition ex_room :: room where
  "ex_room = \<lparr>Id = ''7-1'', Players = Some [ex_player], LastUpdated = 5 * hour\<rparr>"

definition ex_repo :: mem_repo where
  "ex_repo = \<lparr>mem_rooms = [(''7-1'', ex_room)], mem_polls = [], mem_order = (\<lambda>xs. xs)\<rparr>"

definition ex_service :: "mem_repo room_service" where
  "ex_service = NewRoomService ex_repo \<lparr>nats_sent = [], nats_faults = []\<rparr> []"

definition ex_catalog :: "int \<Rightarrow> unit \<Rightarrow> unit \<times> (go_error + champion_info)" where
  "ex_catalog i c = (c, Inr \<lparr>ChampID = i, ChampName = ''Ahri'', ImageURL = []\<rparr>)"

lemmas room_example = ex_player_def ex_room_def ex_repo_def ex_service_def NewRoomService_def
  new_player_def default_spells_def Clone_def clone_player_def

lemma Clone_ex_room: "Clone ex_room = ex_room"
  by (simp add: ex_room_def ex_player_def Clone_def clone_player_def new_player_def default_spells_def)

lemma ex_repo_lookup: "map_of (mem_rooms ex_repo) ''7-1'' = Some ex_room"
  by (simp add: ex_repo_def)

lemma ex_service_inv: "service_inv mem_view mem_inv ex_service"
  by (simp add: service_inv_def mem_inv_def mem_view_def rooms_ok_def room_ok_def riot_ids_def
      wf_player_def wf_spell_def room_example)

definition ex_session :: champ_select_session where
  "ex_session = \<lparr>GameId = 7, LocalPlayerCellId = 0, MyTeam = Some
     [\<lparr>CellId = 0, SelChampionId = 103, Spell1Id = 4, Spell2Id = 14, SelGameName = ''me'',
       SelTagLine = ''EUW'', Puuid = [], Team = 1\<rparr>,
      \<lparr>CellId = 1, SelChampionId = 1, Spell1Id = 4, Spell2Id = 7, SelGameName = ''you'',
       SelTagLine = ''EUW'', Puuid = [], Team = 1\<rparr>], TheirTeam = None\<rparr>"

lemmas room_run = ReplacePlayers_def saveRoom_def in_memory_repo_def mem_Get_def mem_Save_def
  session_player_def carry_over_def FindPlayerByRiotId_def CopySpellState_def copy_spell_def
  FindSpell_def GetSpellName_def GetSpellCooldown_def DefaultSummonerSpellHaste_def
  publishRoomUpdated_def Publish_def SetCurrentRoomID_def publishCurrentRoomChanged_def

section \<open>Properties\<close>



text \<open>
  Creating a room never overwrites one: if the identifier is known the content of the
  repository is unchanged and the stored room is returned; if it is new, the only change is
  an empty room under that identifier. The empty identifier creates nothing.
\<close>

theorem create_room_never_overwrites:
  assumes "room_service r view I f g" "service_inv view I st"
    and "CreateRoom r now i st = (st', res)"
  shows "(service_view view st i \<noteq> None \<or> i = [] \<longrightarrow> service_view view st' = service_view view st) \<and>
    (\<forall>k. k \<noteq> i \<longrightarrow> service_view view st' k = service_view view st k) \<and>
    (\<forall>x. res = Inr (Some x) \<longrightarrow> Id x = i \<and> service_view view st' i \<noteq> None) \<and>
    (res = Inr None \<longrightarrow> i = [])"
  using room_service.CreateRoom_step [OF assms] by (metis fun_upd_apply)

theorem create_room_never_overwrites_witness:
  "mem_view (repo_state (fst (CreateRoom in_memory_repo 9 ''7-1'' ex_service))) = mem_view ex_repo"
proof -
  obtain st' res where c: "CreateRoom in_memory_repo 9 ''7-1'' ex_service = (st', res)"
    by (meson surj_pair)
  have "service_view mem_view ex_service ''7-1'' \<noteq> None"
    by (simp add: service_view_def mem_view_def ex_service_def NewRoomService_def ex_repo_def)
  with create_room_never_overwrites [OF mem_service.room_service_axioms ex_service_inv c] c show ?thesis
    by (simp add: service_view_def ex_service_def NewRoomService_def)
qed

text \<open>
  C29: toggling a spell never panics on a stored room and changes nothing but the state of
  the named spell of the named player (and the room's update time): a ready spell starts its
  haste-adjusted cooldown at the time of the call, a running one becomes ready. A
  \<open>room.updated\<close> event is published exactly when the room was stored; if the room, the
  player or the spell is unknown nothing changes, and on an error the room is the old or the
  toggled one.
\<close>

theorem toggle_changes_only_the_named_spell:
  assumes "room_service r view I f g" "service_inv view I st" "0 \<le> now"
  shows "\<exists>st' res. ToggleSpellByRiotId r now saved i gn tg sp st = Some (st', res) \<and>
    (case res of
       Inr True \<Rightarrow> conn st' = notify_room i (conn st) \<and>
         (\<exists>x v k j. service_view view st i = Some v \<and> agree f g x v \<and>
           FindPlayerByRiotId x gn tg = Some k \<and> FindSpell (elems (Players x) ! k) sp = Some j \<and>
           service_view view st' = (service_view view st)(i \<mapsto> store_room f g (toggle_in_room now saved x k j)))
     | Inr False \<Rightarrow> conn st' = conn st \<and> service_view view st' = service_view view st
     | Inl e \<Rightarrow> conn st' = conn st \<and> (service_view view st' = service_view view st \<or>
         (\<exists>x v k j. service_view view st i = Some v \<and> agree f g x v \<and>
           FindPlayerByRiotId x gn tg = Some k \<and> FindSpell (elems (Players x) ! k) sp = Some j \<and>
           service_view view st' = (service_view view st)(i \<mapsto> store_room f g (toggle_in_room now saved x k j)))))"
proof (rule room_service.ToggleSpell_updates [OF assms(1,2,3), of saved i gn tg sp], goal_cases)
  case (1 st' res)
  from 1(2) show ?case
    unfolding room_service.updates_def [OF assms(1)] room_service.wrote_def [OF assms(1)]
    by (intro exI [of _ st'] exI [of _ res] conjI 1(1)) (cases res; simp split: bool.splits; blast)
qed

theorem toggle_changes_only_the_named_spell_witness:
  "ToggleSpellByRiotId in_memory_repo 7 8 ''7-1'' ''me'' ''EUW'' ''Flash'' ex_service \<noteq> None"
  using toggle_changes_only_the_named_spell [OF mem_service.room_service_axioms ex_service_inv,
      of 7 8 "''7-1''" "''me''" "''EUW''" "''Flash''"] by auto

text \<open>
  C18: a successful synchronisation gives the room exactly the members of the local team, in
  order, and every spell that the room already knew for that player keeps its state: nobody's
  running cooldown is lost by a sync. The room becomes the current one.
\<close>

theorem sync_keeps_running_cooldowns:
  assumes "room_service r view I f g" "service_inv view I st"
    and "SyncFromChampSelect r cat saved i (Some se) c st = (c', st', Inr True)"
    and "distinct (member_ids se)"
  shows "currentRoomID st' = i \<and>
    (\<exists>x v x'. service_view view st i = Some v \<and> agree f g x v \<and> riot_ids x' = member_ids se \<and>
       service_view view st' = (service_view view st)(i \<mapsto> store_room f g x') \<and>
       (\<forall>p' \<in> set (elems (Players x')). \<forall>s' \<in> set (elems (Spells p')). \<forall>k j.
          FindPlayerByRiotId x (GameName p') (TagLine p') = Some k \<longrightarrow>
          FindSpell (elems (Players x) ! k) (Name s') = Some j \<longrightarrow>
          (let s = elems (Spells (elems (Players x) ! k)) ! j
           in IsReady s' = IsReady s \<and> CooldownEndTime s' = CooldownEndTime s \<and>
              RemainingCooldown s' = RemainingCooldown s)))"
proof -
  have d: "\<And>se'. Some se = Some se' \<Longrightarrow> distinct (member_ids se')" using assms(4) by simp
  note step = room_service.SyncFromChampSelect_step [OF assms(1,3,2) d, simplified]
  from step(4) obtain players x v x' where x:
    "map (\<lambda>p. (GameName p, TagLine p)) players = member_ids se"
    "service_view view st i = Some v" "agree f g x v" "x' = replace_in_room saved x (Some players)"
    "service_view view st' = (service_view view st)(i \<mapsto> store_room f g x')"
    and cur: "currentRoomID st' = i"
    by (auto simp: room_service.wrote_def [OF assms(1)])
  have ids: "riot_ids x' = member_ids se"
    using x(1) by (simp add: x(4) replace_in_room_def riot_ids_def comp_def)
  have "\<forall>p' \<in> set (elems (Players x')). \<forall>s' \<in> set (elems (Spells p')). \<forall>k j.
          FindPlayerByRiotId x (GameName p') (TagLine p') = Some k \<longrightarrow>
          FindSpell (elems (Players x) ! k) (Name s') = Some j \<longrightarrow>
          (let s = elems (Spells (elems (Players x) ! k)) ! j
           in IsReady s' = IsReady s \<and> CooldownEndTime s' = CooldownEndTime s \<and>
              RemainingCooldown s' = RemainingCooldown s)"
    by (auto simp: x(4) replace_in_room_def carried_spell)
  with x ids cur show ?thesis by blast
qed

theorem sync_keeps_running_cooldowns_witness:
  "currentRoomID (fst (snd (SyncFromChampSelect in_memory_repo ex_catalog 9 ''7-1'' (Some ex_session) () ex_service))) = ''7-1''"
proof -
  obtain c' st' where s: "SyncFromChampSelect in_memory_repo ex_catalog 9 ''7-1'' (Some ex_session) () ex_service =
      (c', st', Inr True)"
    by (simp add: SyncFromChampSelect_def ex_session_def ex_catalog_def room_example room_run Let_def)
  have "distinct (member_ids ex_session)" by (simp add: member_ids_def ex_session_def)
  from sync_keeps_running_cooldowns [OF mem_service.room_service_axioms ex_service_inv s this] s
  show ?thesis by simp
qed

text \<open>
  A successful refresh brings every room to the state its cooldowns have at one reading
  of the clock during the call and touches nothing else; every room whose displayed state
  changed, and no other, is announced. A failing refresh leaves every room either untouched
  or refreshed.
\<close>

theorem refresh_updates_every_room:
  assumes "room_service r view I f g" "service_inv view I st"
    and "RefreshCooldowns r clock st = (st', res)"
  shows "(\<forall>i. service_view view st i = None \<longrightarrow> service_view view st' i = None) \<and>
    (\<forall>i v. service_view view st i = Some v \<longrightarrow>
       (isl res \<and> service_view view st' i = Some v) \<or>
       (\<exists>k. service_view view st' i = Some (refreshed f g (clock k) v))) \<and>
    (if isl res then conn st' = conn st
     else \<exists>xs. set xs = ran (service_view view st) \<and> distinct (map Id xs) \<and>
       conn st' = fold notify_room (changed_ids clock 0 xs) (conn st))"
proof (intro conjI allI impI)
  note step = room_service.RefreshCooldowns_step [OF assms(1,3,2)]
  show "service_view view st' i = None" if "service_view view st i = None" for i
    using step(2) that .
  show "isl res \<and> service_view view st' i = Some v \<or>
      (\<exists>k. service_view view st' i = Some (refreshed f g (clock k) v))"
    if "service_view view st i = Some v" for i v
    using step(3) [OF that] step(6) [OF _ that] by (cases res) auto
  show "if isl res then conn st' = conn st
     else \<exists>xs. set xs = ran (service_view view st) \<and> distinct (map Id xs) \<and>
       conn st' = fold notify_room (changed_ids clock 0 xs) (conn st)"
    using step(4,5) by (cases res) auto
qed

theorem refresh_updates_every_room_witness:
  "service_view mem_view (fst (RefreshCooldowns in_memory_repo (\<lambda>k. 9) ex_service)) ''none'' = None"
proof -
  obtain st' res where c: "RefreshCooldowns in_memory_repo (\<lambda>k. 9) ex_service = (st', res)"
    by (meson surj_pair)
  have "service_view mem_view ex_service ''none'' = None"
    by (simp add: service_view_def mem_view_def ex_service_def NewRoomService_def ex_repo_def)
  with refresh_updates_every_room [OF mem_service.room_service_axioms ex_service_inv c] c
  show ?thesis by simp
qed

text \<open>
  Cleanup deletes only rooms that were not updated for 180 minutes; if it succeeds it
  deletes all of them, keeps every other room as it is, and forgets the current room exactly
  when that room was deleted.
\<close>

theorem cleanup_deletes_exactly_expired_rooms:
  assumes "room_service r view I f g" "service_inv view I st"
    and "cleanupOldRooms r now st = (st', res)"
  shows "(\<forall>i. service_view view st' i = service_view view st i \<or>
       (\<exists>v. service_view view st i = Some v \<and> 180 * minute < time_sub now (LastUpdated v) \<and>
          service_view view st' i = None)) \<and>
    (res = Inr () \<longrightarrow>
       (\<forall>i. service_view view st' i = (case service_view view st i of None \<Rightarrow> None
          | Some v \<Rightarrow> if 180 * minute < time_sub now (LastUpdated v) then None else Some v)) \<and>
       currentRoomID st' = (if \<exists>v. service_view view st (currentRoomID st) = Some v \<and>
          180 * minute < time_sub now (LastUpdated v) then [] else currentRoomID st))"
  using room_service.cleanupOldRooms_step(2-4) [OF assms(1,3,2)]
  unfolding expired_def RoomExpirationDuration_def by (intro conjI allI impI) auto

theorem cleanup_deletes_exactly_expired_rooms_witness:
  "service_view mem_view (fst (cleanupOldRooms in_memory_repo (9 * hour) ex_service)) ''7-1'' = None"
proof -
  obtain st' where c: "cleanupOldRooms in_memory_repo (9 * hour) ex_service = (st', Inr ())"
    by (simp add: cleanupOldRooms_def in_memory_repo_def mem_GetAll_def mem_Delete_def room_example
        time_sub_def RoomExpirationDuration_def Let_def)
  have "service_view mem_view ex_service ''7-1'' = Some ex_room"
    by (simp add: service_view_def mem_view_def ex_service_def NewRoomService_def ex_repo_def)
  with cleanup_deletes_exactly_expired_rooms [OF mem_service.room_service_axioms ex_service_inv c] c
  show ?thesis by (simp add: ex_room_def time_sub_def)
qed

text \<open>
  C30: adding a player to a room either updates the champion of the player with the same Riot
  identifier or appends a new player with the default haste and, if none are given, the
  default spells; no other player changes and \<open>room.updated\<close> is published exactly on success.
\<close>

theorem add_player_adds_or_updates_one:
  assumes "room_service r view I f g" "service_inv view I st"
    and "AddPlayer r saved i p st = (st', Inr b)"
    and "\<forall>s \<in> set (elems (Spells p)). wf_spell s"
  shows "if b then conn st' = notify_room i (conn st) \<and>
      (\<exists>x v. service_view view st i = Some v \<and> agree f g x v \<and>
         service_view view st' = (service_view view st)(i \<mapsto> store_room f g (add_to_room saved x p)))
    else service_view view st' = service_view view st \<and> service_view view st i = None \<and> conn st' = conn st"
  using room_service.updatesD(3,4) [OF assms(1) room_service.AddPlayer_updates [OF assms(1-3)]] assms(4)
  by (auto simp: room_service.wrote_def [OF assms(1)])

theorem add_player_adds_or_updates_one_witness:
  "service_view mem_view (fst (AddPlayer in_memory_repo 9 ''7-1'' (ex_player\<lparr>GameName := ''you''\<rparr>) ex_service)) ''7-1'' \<noteq> None"
proof -
  obtain st' where a: "AddPlayer in_memory_repo 9 ''7-1'' (ex_player\<lparr>GameName := ''you''\<rparr>) ex_service = (st', Inr True)"
    by (simp add: AddPlayer_def addPlayerLocked_def room_example room_run Let_def)
  have "\<forall>s \<in> set (elems (Spells (ex_player\<lparr>GameName := ''you''\<rparr>))). wf_spell s"
    by (simp add: room_example wf_spell_def)
  from add_player_adds_or_updates_one [OF mem_service.room_service_axioms ex_service_inv a this] a
  show ?thesis by auto
qed

end
