(* ===== verification/Outbox.thy ===== *)
theory Outbox
  imports Events "HOL-Library.Product_Lexorder" "HOL-Library.Multiset"
begin

text \<open>
  The transactional outbox: the table \<open>outbox_events\<close> and the statements of
  \<open>internal/repositories/postgres/outbox/repository.go\<close>, the relay
  (\<open>internal/services/outbox_relay_service.go\<close>) and the cleanup
  (\<open>outbox_cleanup_service.go\<close>).
\<close>

section \<open>The table\<close>

record outbox_event =
  ObID :: string
  ObSubject :: string
  ObPayload :: game_payload
  ObCreatedAt :: time
  ObAttemptCount :: int

record outbox_row =
  row_id :: string
  row_subject :: string
  row_payload :: game_payload
  row_created_at :: time
  row_available_at :: time
  row_published_at :: "time option"
  row_attempt_count :: int
  row_last_error :: "string option"

text \<open>
  The rows in insertion order and the schedule of the outcomes of the statements. Identifiers
  are canonical UUID texts, as \<open>newEventID\<close> makes them; that PostgreSQL refuses another text
  is one of the errors the schedule can hold.
\<close>

record outbox_db =
  outbox_rows :: "outbox_row list"
  outbox_faults :: "fault list"

definition update_rows :: "(outbox_row \<Rightarrow> bool) \<Rightarrow> (outbox_row \<Rightarrow> outbox_row) \<Rightarrow> outbox_row list \<Rightarrow> outbox_row list" where
  "update_rows P u rows = map (\<lambda>x. if P x then u x else x) rows"

text \<open>One statement: its effect on the rows and its result, under the next outcome.\<close>

definition exec_stmt ::
  "(outbox_row list \<Rightarrow> outbox_row list \<times> 'a) \<Rightarrow> (go_error \<Rightarrow> go_error) \<Rightarrow> outbox_db \<Rightarrow>
   outbox_db \<times> (go_error + 'a)" where
  "exec_stmt stmt wrap db =
     (let (rows, a) = stmt (outbox_rows db);
          db1 = db\<lparr>outbox_faults := rest_faults (outbox_faults db)\<rparr>
      in case next_fault (outbox_faults db) of
           NoFault \<Rightarrow> (db1\<lparr>outbox_rows := rows\<rparr>, Inr a)
         | FailBefore e \<Rightarrow> (db1, Inl (wrap e))
         | FailAfter e \<Rightarrow> (db1\<lparr>outbox_rows := rows\<rparr>, Inl (wrap e)))"

lemma exec_stmt_cases:
  assumes "exec_stmt stmt wrap db = (db', res)"
  shows "outbox_rows db' = outbox_rows db \<or> outbox_rows db' = fst (stmt (outbox_rows db))"
    and "res = Inr a \<Longrightarrow> outbox_rows db' = fst (stmt (outbox_rows db)) \<and> a = snd (stmt (outbox_rows db))"
  using assms by (auto simp: exec_stmt_def Let_def split_beta split: fault.splits)

section \<open>The statements\<close>

definition insert_row :: "outbox_event \<Rightarrow> time \<Rightarrow> outbox_row list \<Rightarrow> outbox_row list \<times> int" where
  "insert_row event db_now rows =
     (if \<exists>x \<in> set rows. row_id x = ObID event then (rows, 0)
      else (rows @ [\<lparr>row_id = ObID event, row_subject = ObSubject event, row_payload = ObPayload event,
                     row_created_at = db_now, row_available_at = db_now, row_published_at = None,
                     row_attempt_count = 0, row_last_error = None\<rparr>], 1))"

definition Enqueue :: "outbox_event \<Rightarrow> time \<Rightarrow> outbox_db \<Rightarrow> outbox_db \<times> (go_error + bool)" where
  "Enqueue event db_now db =
     (if ObID event = [] then (db, Inl (Errorf [Txt ''outbox event ID is required'']))
      else if ObSubject event = [] then (db, Inl (Errorf [Txt ''outbox subject is required'']))
      else if ObPayload event = EmptyBytes then (db, Inl (Errorf [Txt ''outbox payload is required'']))
      else if \<not> json_valid (ObPayload event) then
        (db, Inl (Errorf [Txt ''outbox payload must be valid JSON'']))
      else
        (case exec_stmt (insert_row event db_now)
                (\<lambda>e. Errorf [Txt ''enqueue outbox event '', Quoted (ObID event), Txt '': '', Wrapped e]) db of
           (db', Inl e) \<Rightarrow> (db', Inl e)
         | (db', Inr affected) \<Rightarrow> (db', Inr (affected = 1))))"

text \<open>
  \<open>ClaimPending\<close>. The candidates are the due unpublished rows that no other transaction has
  locked (\<open>FOR UPDATE SKIP LOCKED\<close>), the first \<open>limit\<close> by availability and creation. The
  order in which \<open>UPDATE ... RETURNING\<close> lists the rows is the database's: the function \<open>ret\<close>.
\<close>

definition claimable :: "(string \<Rightarrow> bool) \<Rightarrow> time \<Rightarrow> outbox_row \<Rightarrow> bool" where
  "claimable locked now x \<longleftrightarrow> row_published_at x = None \<and> row_available_at x \<le> now \<and> \<not> locked (row_id x)"

definition candidates :: "(string \<Rightarrow> bool) \<Rightarrow> time \<Rightarrow> nat \<Rightarrow> outbox_row list \<Rightarrow> outbox_row list" where
  "candidates locked now limit rows =
     take limit (sort_key (\<lambda>x. (row_available_at x, row_created_at x)) (filter (claimable locked now) rows))"

definition row_event :: "outbox_row \<Rightarrow> outbox_event" where
  "row_event x = \<lparr>ObID = row_id x, ObSubject = row_subject x, ObPayload = row_payload x,
                  ObCreatedAt = row_created_at x, ObAttemptCount = row_attempt_count x\<rparr>"

definition claim_rows ::
  "(string \<Rightarrow> bool) \<Rightarrow> (outbox_event list \<Rightarrow> outbox_event list) \<Rightarrow> time \<Rightarrow> time \<Rightarrow> nat \<Rightarrow>
   outbox_row list \<Rightarrow> outbox_row list \<times> outbox_event list" where
  "claim_rows locked ret now leaseUntil limit rows =
     (let ids = set (map row_id (candidates locked now limit rows))
      in (update_rows (\<lambda>x. row_id x \<in> ids) (\<lambda>x. x\<lparr>row_available_at := leaseUntil\<rparr>) rows,
          ret (map row_event (candidates locked now limit rows))))"

definition ClaimPending ::
  "(string \<Rightarrow> bool) \<Rightarrow> (outbox_event list \<Rightarrow> outbox_event list) \<Rightarrow> time \<Rightarrow> time \<Rightarrow> int \<Rightarrow> outbox_db \<Rightarrow>
   outbox_db \<times> (go_error + outbox_event list)" where
  "ClaimPending locked ret now leaseUntil limit db =
     (if IsZero now then (db, Inl (Errorf [Txt ''outbox claim time is required'']))
      else if IsZero leaseUntil then (db, Inl (Errorf [Txt ''outbox lease time is required'']))
      else if \<not> now < leaseUntil then (db, Inl (Errorf [Txt ''outbox lease must end after claim time'']))
      else if limit \<le> 0 then (db, Inl (Errorf [Txt ''outbox claim limit must be positive'']))
      else exec_stmt (claim_rows locked ret now leaseUntil (nat limit))
             (\<lambda>e. Errorf [Txt ''claim pending outbox events: '', Wrapped e]) db)"

text \<open>An update of the pending row with an identifier, and the number of rows it changed.\<close>

definition pending_id :: "string \<Rightarrow> outbox_row \<Rightarrow> bool" where
  "pending_id eventID x \<longleftrightarrow> row_id x = eventID \<and> row_published_at x = None"

definition update_pending ::
  "string \<Rightarrow> (outbox_row \<Rightarrow> outbox_row) \<Rightarrow> outbox_row list \<Rightarrow> outbox_row list \<times> nat" where
  "update_pending eventID u rows =
     (update_rows (pending_id eventID) u rows, length (filter (pending_id eventID) rows))"

definition require_one :: "string \<Rightarrow> outbox_db \<times> (go_error + nat) \<Rightarrow> outbox_db \<times> (go_error + unit)" where
  "require_one eventID out =
     (case out of
        (db', Inl e) \<Rightarrow> (db', Inl e)
      | (db', Inr affected) \<Rightarrow>
          if affected \<noteq> 1 then
            (db', Inl (Errorf [Txt ''pending outbox event '', Quoted eventID, Txt '' not found'']))
          else (db', Inr ()))"

definition MarkPublished :: "string \<Rightarrow> time \<Rightarrow> outbox_db \<Rightarrow> outbox_db \<times> (go_error + unit)" where
  "MarkPublished eventID publishedAt db =
     (if eventID = [] then (db, Inl (Errorf [Txt ''outbox event ID is required'']))
      else if IsZero publishedAt then (db, Inl (Errorf [Txt ''outbox published time is required'']))
      else require_one eventID
        (exec_stmt
          (update_pending eventID (\<lambda>x. x\<lparr>row_published_at := Some publishedAt, row_last_error := None\<rparr>))
          (\<lambda>e. Errorf [Txt ''mark outbox event '', Quoted eventID, Txt '' as published: '', Wrapped e]) db))"

definition MarkFailed :: "string \<Rightarrow> time \<Rightarrow> string \<Rightarrow> outbox_db \<Rightarrow> outbox_db \<times> (go_error + unit)" where
  "MarkFailed eventID nextAttemptAt lastError db =
     (if eventID = [] then (db, Inl (Errorf [Txt ''outbox event ID is required'']))
      else if IsZero nextAttemptAt then (db, Inl (Errorf [Txt ''outbox next attempt time is required'']))
      else if lastError = [] then (db, Inl (Errorf [Txt ''outbox last error is required'']))
      else require_one eventID
        (exec_stmt
          (update_pending eventID
             (\<lambda>x. x\<lparr>row_available_at := nextAttemptAt, row_attempt_count := row_attempt_count x + 1,
                    row_last_error := Some lastError\<rparr>))
          (\<lambda>e. Errorf [Txt ''mark outbox event '', Quoted eventID, Txt '' as failed: '', Wrapped e]) db))"

definition published_before :: "time \<Rightarrow> outbox_row \<Rightarrow> bool" where
  "published_before cutoff x \<longleftrightarrow> (case row_published_at x of None \<Rightarrow> False | Some t \<Rightarrow> t < cutoff)"

definition DeletePublishedBefore :: "time \<Rightarrow> outbox_db \<Rightarrow> outbox_db \<times> (go_error + nat)" where
  "DeletePublishedBefore cutoff db =
     (if IsZero cutoff then (db, Inl (Errorf [Txt ''outbox cleanup cutoff is required'']))
      else exec_stmt
        (\<lambda>rows. (filter (\<lambda>x. \<not> published_before cutoff x) rows, length (filter (published_before cutoff) rows)))
        (\<lambda>e. Errorf [Txt ''delete published outbox events: '', Wrapped e]) db)"

section \<open>The relay\<close>

definition outboxRelayBatchSize :: int where "outboxRelayBatchSize = 50"
definition outboxRelayLease :: duration where "outboxRelayLease = 30 * second"
definition outboxRetryInitial :: duration where "outboxRetryInitial = 5 * second"
definition outboxRetryMaximum :: duration where "outboxRetryMaximum = 5 * minute"

text \<open>The loop of \<open>outboxRetryDelay\<close>; the first argument is \<open>attemptCount - attempt\<close>.\<close>

fun retry_loop :: "nat \<Rightarrow> duration \<Rightarrow> duration" where
  "retry_loop 0 delay = delay"
| "retry_loop (Suc n) delay =
     (if delay < outboxRetryMaximum then
        (let delay' = wrap64 (delay * 2)
         in if outboxRetryMaximum \<le> delay' then outboxRetryMaximum else retry_loop n delay')
      else delay)"

definition outboxRetryDelay :: "int \<Rightarrow> duration" where
  "outboxRetryDelay attemptCount = retry_loop (nat attemptCount) outboxRetryInitial"

text \<open>
  A relay cycle works on the database and the JetStream connection; \<open>relay_labels\<close> are the
  labels with which it increments \<open>metrics.OutboxRelayEvents\<close>.
\<close>

record relay_state =
  relay_db :: outbox_db
  relay_js :: jetstream
  relay_labels :: "string list"

record relay_result =
  Claimed :: nat
  Published :: nat
  Failed :: nat

definition relay_event ::
  "time \<Rightarrow> outbox_event \<Rightarrow> relay_state \<times> relay_result \<times> go_error list \<Rightarrow>
   relay_state \<times> relay_result \<times> go_error list" where
  "relay_event now event acc =
     (let (st, result, errs) = acc
      in case PublishDurable (ObSubject event) (ObID event) (GamePayload (ObPayload event)) (relay_js st) of
           (j, Inl publishErr) \<Rightarrow>
             (let nextAttemptAt = now + outboxRetryDelay (ObAttemptCount event);
                  result' = result\<lparr>Failed := Failed result + 1\<rparr>
              in case MarkFailed (ObID event) nextAttemptAt (error_text publishErr) (relay_db st) of
                   (db, Inl markErr) \<Rightarrow>
                     (\<lparr>relay_db = db, relay_js = j,
                       relay_labels = relay_labels st @ [''retry_error'', ''retry_scheduled'']\<rparr>, result',
                      errs @ [Errorf [Txt ''mark outbox event '', Quoted (ObID event), Txt '' failed: '',
                                      Wrapped markErr]])
                 | (db, Inr u) \<Rightarrow>
                     (\<lparr>relay_db = db, relay_js = j,
                       relay_labels = relay_labels st @ [''retry_scheduled'']\<rparr>, result', errs))
         | (j, Inr ack) \<Rightarrow>
             (case MarkPublished (ObID event) now (relay_db st) of
                (db, Inl err) \<Rightarrow>
                  (\<lparr>relay_db = db, relay_js = j, relay_labels = relay_labels st @ [''finalization_error'']\<rparr>,
                   result\<lparr>Failed := Failed result + 1\<rparr>,
                   errs @ [Errorf [Txt ''mark outbox event '', Quoted (ObID event), Txt '' published: '',
                                   Wrapped err]])
              | (db, Inr u) \<Rightarrow>
                  (\<lparr>relay_db = db, relay_js = j, relay_labels = relay_labels st @ [''published'']\<rparr>,
                   result\<lparr>Published := Published result + 1\<rparr>, errs)))"

definition errors_join :: "go_error list \<Rightarrow> go_error option" where
  "errors_join errs = (if errs = [] then None else Some (Joined errs))"

text \<open>\<open>RelayOnce\<close> returns a result together with an error that may be nil.\<close>

definition RelayOnce ::
  "(string \<Rightarrow> bool) \<Rightarrow> (outbox_event list \<Rightarrow> outbox_event list) \<Rightarrow> time \<Rightarrow> relay_state \<Rightarrow>
   relay_state \<times> relay_result \<times> go_error option" where
  "RelayOnce locked ret now st =
     (let zero = \<lparr>Claimed = 0, Published = 0, Failed = 0\<rparr>
      in if IsZero now then (st, zero, Some (Errorf [Txt ''outbox relay time is required'']))
         else
           (case ClaimPending locked ret now (now + outboxRelayLease) outboxRelayBatchSize (relay_db st) of
              (db, Inl err) \<Rightarrow> (st\<lparr>relay_db := db\<rparr>, zero,
                Some (Errorf [Txt ''claim outbox events: '', Wrapped err]))
            | (db, Inr events) \<Rightarrow>
                (let (st', result, errs) =
                   fold (relay_event now) events
                     (st\<lparr>relay_db := db\<rparr>, zero\<lparr>Claimed := length events\<rparr>, [])
                 in (st', result, errors_join errs))))"

section \<open>Cleanup\<close>

definition outboxRetention :: duration where "outboxRetention = 30 * 24 * hour"

definition OutboxCleanup :: "time \<Rightarrow> outbox_db \<Rightarrow> outbox_db \<times> (go_error + nat)" where
  "OutboxCleanup now db =
     (if IsZero now then (db, Inl (Errorf [Txt ''outbox cleanup time is required'']))
      else
        (case DeletePublishedBefore (now - outboxRetention) db of
           (db', Inl e) \<Rightarrow> (db', Inl (Errorf [Txt ''cleanup published outbox events: '', Wrapped e]))
         | (db', Inr deleted) \<Rightarrow> (db', Inr deleted)))"

section \<open>Retry delay\<close>

lemmas outbox_consts = outboxRetryMaximum_def outboxRetryInitial_def outboxRelayLease_def
  outboxRelayBatchSize_def outboxRetention_def

lemma retry_loop_eq:
  "0 < d \<Longrightarrow> d \<le> outboxRetryMaximum \<Longrightarrow> retry_loop n d = min outboxRetryMaximum (d * 2 ^ n)"
proof (induction n arbitrary: d)
  case (Suc n)
  have w: "wrap64 (d * 2) = d * 2"
    using Suc.prems by (intro wrap64_id int64I) (simp_all add: outbox_consts)
  have mono: "d * 2 \<le> d * 2 ^ Suc n" using Suc.prems(1) by simp
  consider "d = outboxRetryMaximum" | "d < outboxRetryMaximum" "outboxRetryMaximum \<le> d * 2"
    | "d * 2 < outboxRetryMaximum" using Suc.prems by linarith
  then show ?case
  proof cases
    case 1
    have "d \<le> d * 2 ^ Suc n" using mono Suc.prems(1) by linarith
    with 1 show ?thesis by (simp add: min_def)
  next
    case 2
    with mono w have "outboxRetryMaximum \<le> d * 2 ^ Suc n" by linarith
    with 2 w show ?thesis by (simp add: min_def)
  next
    case 3
    then show ?thesis using Suc.IH [of "d * 2"] Suc.prems w by (simp add: mult.assoc)
  qed
qed simp

lemma outboxRetryDelay_eq:
  "outboxRetryDelay c = min outboxRetryMaximum (outboxRetryInitial * 2 ^ nat c)"
  unfolding outboxRetryDelay_def by (rule retry_loop_eq) (simp_all add: outbox_consts)

lemma outboxRetryDelay_bounds:
  "0 < outboxRetryDelay c" "outboxRetryDelay c \<le> outboxRetryMaximum"
  by (simp_all add: outboxRetryDelay_eq outbox_consts)

section \<open>Rows under the statements\<close>

lemma update_rows_simps [simp]:
  "length (update_rows P u rows) = length rows"
  "i < length rows \<Longrightarrow> update_rows P u rows ! i = (if P (rows ! i) then u (rows ! i) else rows ! i)"
  by (simp_all add: update_rows_def)

lemma map_row_id_update [simp]:
  "(\<And>x. row_id (u x) = row_id x) \<Longrightarrow> map row_id (update_rows P u rows) = map row_id rows"
  by (simp add: update_rows_def)

definition outbox_inv :: "outbox_db \<Rightarrow> bool" where
  "outbox_inv db \<longleftrightarrow> distinct (map row_id (outbox_rows db)) \<and>
     (\<forall>x \<in> set (outbox_rows db). row_id x \<noteq> [] \<and> row_subject x \<noteq> [] \<and> json_valid (row_payload x) \<and>
        0 \<le> row_attempt_count x)"

text \<open>
  How a row may change while it stays in the table: identity, subject, payload and creation
  time are fixed, a publication time is never lost, attempts are never uncounted.
\<close>

definition row_grows :: "outbox_row \<Rightarrow> outbox_row \<Rightarrow> bool" where
  "row_grows x y \<longleftrightarrow> row_id y = row_id x \<and> row_subject y = row_subject x \<and>
     row_payload y = row_payload x \<and> row_created_at y = row_created_at x \<and>
     (row_published_at x \<noteq> None \<longrightarrow> row_published_at y = row_published_at x) \<and>
     row_attempt_count x \<le> row_attempt_count y"

lemma row_grows_refl [simp]: "row_grows x x"
  by (simp add: row_grows_def)

lemma list_all2_update_rows:
  "(\<And>x. R x x) \<Longrightarrow> (\<And>x. x \<in> set rows \<Longrightarrow> P x \<Longrightarrow> R x (u x)) \<Longrightarrow> list_all2 R rows (update_rows P u rows)"
  by (simp add: list_all2_conv_all_nth)

lemma outbox_inv_grows:
  assumes "outbox_inv db" "list_all2 row_grows (outbox_rows db) (outbox_rows db')"
  shows "outbox_inv db'"
proof -
  have "map row_id (outbox_rows db') = map row_id (outbox_rows db)"
    using assms(2) by (induction rule: list_all2_induct) (auto simp: row_grows_def)
  moreover have "row_id y \<noteq> [] \<and> row_subject y \<noteq> [] \<and> json_valid (row_payload y) \<and> 0 \<le> row_attempt_count y"
    if y: "y \<in> set (outbox_rows db')" for y
  proof -
    from y obtain i where i: "i < length (outbox_rows db')" "y = outbox_rows db' ! i"
      by (auto simp: in_set_conv_nth)
    with assms(2) have "outbox_rows db ! i \<in> set (outbox_rows db)" "row_grows (outbox_rows db ! i) y"
      by (simp_all add: list_all2_conv_all_nth)
    with assms(1) show ?thesis unfolding outbox_inv_def row_grows_def by (metis order_trans)
  qed
  ultimately show ?thesis using assms(1) by (simp add: outbox_inv_def)
qed

lemma insert_row_cases:
  "fst (insert_row event t rows) = rows \<and> snd (insert_row event t rows) = 0 \<and>
     (\<exists>x \<in> set rows. row_id x = ObID event) \<or>
   (\<exists>x. fst (insert_row event t rows) = rows @ [x] \<and> snd (insert_row event t rows) = 1 \<and>
     row_id x = ObID event \<and> row_subject x = ObSubject event \<and> row_payload x = ObPayload event \<and>
     row_created_at x = t \<and> row_available_at x = t \<and> row_published_at x = None \<and>
     row_attempt_count x = 0 \<and> (\<forall>y \<in> set rows. row_id y \<noteq> ObID event))"
  by (auto simp: insert_row_def)

lemma Enqueue_rows:
  assumes "Enqueue event t db = (db', res)"
  shows "outbox_rows db' = outbox_rows db \<or>
     ObID event \<noteq> [] \<and> ObSubject event \<noteq> [] \<and> json_valid (ObPayload event) \<and>
     outbox_rows db' = fst (insert_row event t (outbox_rows db))"
    and "res = Inr b \<Longrightarrow> outbox_rows db' = fst (insert_row event t (outbox_rows db)) \<and>
           (b \<longleftrightarrow> (\<forall>x \<in> set (outbox_rows db). row_id x \<noteq> ObID event))"
proof -
  let ?wrap = "\<lambda>e. Errorf [Txt ''enqueue outbox event '', Quoted (ObID event), Txt '': '', Wrapped e]"
  obtain db1 q where e: "exec_stmt (insert_row event t) ?wrap db = (db1, q)" by (meson surj_pair)
  note ec = exec_stmt_cases [OF e]
  show "outbox_rows db' = outbox_rows db \<or>
     ObID event \<noteq> [] \<and> ObSubject event \<noteq> [] \<and> json_valid (ObPayload event) \<and>
     outbox_rows db' = fst (insert_row event t (outbox_rows db))"
    using assms ec(1) by (auto simp: Enqueue_def e split: if_splits sum.splits)
  show "outbox_rows db' = fst (insert_row event t (outbox_rows db)) \<and>
           (b \<longleftrightarrow> (\<forall>x \<in> set (outbox_rows db). row_id x \<noteq> ObID event))" if "res = Inr b"
  proof -
    from assms that have "q = Inr (snd (insert_row event t (outbox_rows db)))" "db' = db1"
      "b = (snd (insert_row event t (outbox_rows db)) = 1)"
      using ec(2) by (auto simp: Enqueue_def e split: if_splits sum.splits)
    with ec(2) insert_row_cases [of event t "outbox_rows db"] show ?thesis by auto
  qed
qed

lemma outbox_inv_Enqueue:
  assumes "outbox_inv db" "Enqueue event t db = (db', res)"
  shows "outbox_inv db'"
  using Enqueue_rows(1) [OF assms(2)] assms(1) insert_row_cases [of event t "outbox_rows db"]
  by (auto simp: outbox_inv_def) (metis)+

lemma require_one_cases:
  assumes "require_one i (exec_stmt (update_pending i u) wrap db) = (db', res)"
  shows "outbox_rows db' = outbox_rows db \<or> outbox_rows db' = update_rows (pending_id i) u (outbox_rows db)"
    and "res = Inr v \<Longrightarrow> outbox_rows db' = update_rows (pending_id i) u (outbox_rows db) \<and>
           length (filter (pending_id i) (outbox_rows db)) = 1"
proof -
  obtain db1 q where e: "exec_stmt (update_pending i u) wrap db = (db1, q)" by (meson surj_pair)
  note ec = exec_stmt_cases [OF e, unfolded update_pending_def, simplified]
  from assms e have d: "db' = db1" and r: "res = Inr v \<Longrightarrow> q = Inr 1" for v
    by (auto simp: require_one_def split: sum.splits if_splits)
  show "outbox_rows db' = outbox_rows db \<or> outbox_rows db' = update_rows (pending_id i) u (outbox_rows db)"
    using ec(1) d by simp
  show "res = Inr v \<Longrightarrow> outbox_rows db' = update_rows (pending_id i) u (outbox_rows db) \<and>
           length (filter (pending_id i) (outbox_rows db)) = 1"
    using ec(2) r d by auto
qed

lemma MarkPublished_rows:
  assumes "MarkPublished i t db = (db', res)"
  shows "outbox_rows db' = outbox_rows db \<or> outbox_rows db' =
      update_rows (pending_id i) (\<lambda>x. x\<lparr>row_published_at := Some t, row_last_error := None\<rparr>) (outbox_rows db)"
    and "res = Inr v \<Longrightarrow> outbox_rows db' =
      update_rows (pending_id i) (\<lambda>x. x\<lparr>row_published_at := Some t, row_last_error := None\<rparr>) (outbox_rows db)"
  using assms unfolding MarkPublished_def
  by (auto split: if_splits dest: require_one_cases(1) require_one_cases(2) [OF _ refl])

lemma MarkFailed_rows:
  assumes "MarkFailed i t e db = (db', res)"
  shows "outbox_rows db' = outbox_rows db \<or> outbox_rows db' =
      update_rows (pending_id i) (\<lambda>x. x\<lparr>row_available_at := t, row_attempt_count := row_attempt_count x + 1,
         row_last_error := Some e\<rparr>) (outbox_rows db)"
  using assms unfolding MarkFailed_def by (auto split: if_splits dest: require_one_cases(1))

lemma ClaimPending_rows:
  assumes "ClaimPending locked ret now lease limit db = (db', res)"
  shows "outbox_rows db' = outbox_rows db \<or>
         outbox_rows db' = fst (claim_rows locked ret now lease (nat limit) (outbox_rows db)) \<and> now < lease"
    and "res = Inr evs \<Longrightarrow>
         outbox_rows db' = fst (claim_rows locked ret now lease (nat limit) (outbox_rows db)) \<and>
         evs = snd (claim_rows locked ret now lease (nat limit) (outbox_rows db)) \<and> now < lease \<and> 0 < limit"
  using assms unfolding ClaimPending_def
  by (auto split: if_splits dest: exec_stmt_cases(1) exec_stmt_cases(2) [OF _ refl])

section \<open>The claim\<close>

lemma candidates_subset: "set (candidates locked now limit rows) \<subseteq> {x \<in> set rows. claimable locked now x}"
  using set_take_subset [of limit "sort_key (\<lambda>x. (row_available_at x, row_created_at x)) (filter (claimable locked now) rows)"]
  by (auto simp: candidates_def)

lemma distinct_candidates:
  "distinct (map row_id rows) \<Longrightarrow> distinct (map row_id (candidates locked now limit rows))"
proof -
  assume d: "distinct (map row_id rows)"
  let ?f = "filter (claimable locked now) rows"
  have "distinct (map row_id ?f)" using d by (simp add: distinct_map_filter)
  then have "distinct (map row_id (sort_key (\<lambda>x. (row_available_at x, row_created_at x)) ?f))"
    by (auto simp: distinct_map)
  then show ?thesis by (simp add: candidates_def take_map [symmetric] distinct_take)
qed

lemma row_id_row_event [simp]:
  "ObID (row_event x) = row_id x" "ObSubject (row_event x) = row_subject x"
  "ObPayload (row_event x) = row_payload x"
  by (simp_all add: row_event_def)

lemma ids_of_perm:
  "(\<And>xs. mset (ret xs) = mset xs) \<Longrightarrow>
   ObID ` set (ret (map row_event rows)) = set (map row_id rows)"
proof -
  assume "\<And>xs. mset (ret xs) = mset xs"
  then have "set (ret (map row_event rows)) = set (map row_event rows)" by (metis set_mset_mset)
  then show ?thesis by (auto simp: image_image)
qed

lemma claimed_ids:
  assumes "\<And>xs. mset (ret xs) = mset xs"
  shows "ObID ` set (snd (claim_rows locked ret now lease n rows)) =
         row_id ` set (candidates locked now n rows)"
  using ids_of_perm [OF assms, of "candidates locked now n rows"] by (simp add: claim_rows_def Let_def)

text \<open>After a claim its rows are leased: none of them is due before the lease ends.\<close>

lemma claimed_rows_leased:
  "fst (claim_rows locked ret now lease n rows) =
     map (\<lambda>x. if row_id x \<in> row_id ` set (candidates locked now n rows)
              then x\<lparr>row_available_at := lease\<rparr> else x) rows"
  by (simp add: claim_rows_def Let_def update_rows_def)

lemma claimed_not_claimable:
  assumes "x \<in> set (fst (claim_rows locked ret now lease n rows))"
    and "row_id x \<in> row_id ` set (candidates locked now n rows)"
  shows "row_available_at x = lease"
  using assms by (auto simp: claimed_rows_leased split: if_splits)

section \<open>The relay cycle row by row\<close>

definition relay_rel :: "time \<Rightarrow> (string \<times> string \<times> js_payload) list \<Rightarrow> outbox_row \<Rightarrow> outbox_row \<Rightarrow> bool" where
  "relay_rel now sent x y \<longleftrightarrow> row_grows x y \<and>
     (row_published_at x = None \<longrightarrow> row_published_at y \<noteq> None \<longrightarrow>
        row_published_at y = Some now \<and> (row_subject x, row_id x, GamePayload (row_payload x)) \<in> set sent) \<and>
     (row_published_at y = None \<longrightarrow>
        row_available_at y \<le> max (row_available_at x) (now + outboxRetryMaximum))"

lemma relay_rel_refl [simp]: "relay_rel now sent x x"
  by (simp add: relay_rel_def)

lemma relay_rel_trans:
  assumes "relay_rel now sent x y" "relay_rel now sent' y z" "set sent \<subseteq> set sent'"
  shows "relay_rel now sent' x z"
  using assms unfolding relay_rel_def row_grows_def
  by (cases "row_published_at x"; cases "row_published_at y") (auto simp: subset_iff)

definition event_matches :: "outbox_row list \<Rightarrow> outbox_event \<Rightarrow> bool" where
  "event_matches rows ev \<longleftrightarrow> (\<forall>x \<in> set rows. row_id x = ObID ev \<longrightarrow>
     row_subject x = ObSubject ev \<and> row_payload x = ObPayload ev)"

lemma event_matches_grows:
  assumes "event_matches rows ev" "list_all2 (relay_rel now sent) rows rows'"
  shows "event_matches rows' ev"
  using assms by (fastforce simp: event_matches_def list_all2_conv_all_nth in_set_conv_nth relay_rel_def row_grows_def)

lemma relay_event_step:
  assumes m: "event_matches (outbox_rows (relay_db st)) ev"
    and e: "relay_event now ev (st, result, errs) = (st', result', errs')"
  shows "set (js_sent (relay_js st)) \<subseteq> set (js_sent (relay_js st'))"
    and "list_all2 (relay_rel now (js_sent (relay_js st'))) (outbox_rows (relay_db st)) (outbox_rows (relay_db st'))"
    and "Claimed result' = Claimed result \<and>
         Published result' + Failed result' = Suc (Published result + Failed result)"
    and "errs' = [] \<Longrightarrow> errs = []"
proof -
  obtain j res where p: "PublishDurable (ObSubject ev) (ObID ev) (GamePayload (ObPayload ev)) (relay_js st) = (j, res)"
    by (meson surj_pair)
  let ?t = "now + outboxRetryDelay (ObAttemptCount ev)"
  let ?rows = "outbox_rows (relay_db st)"
  obtain db1 r1 where f: "\<And>e. res = Inl e \<Longrightarrow> MarkFailed (ObID ev) ?t (error_text e) (relay_db st) = (db1, r1)"
    by (cases res) (auto, metis surj_pair)
  obtain db2 r2 where g: "MarkPublished (ObID ev) now (relay_db st) = (db2, r2)" by (meson surj_pair)
  have st': "st' = \<lparr>relay_db = (if isl res then db1 else db2), relay_js = j, relay_labels = relay_labels st'\<rparr>"
    using e p f g by (cases res; cases r1; cases r2) (auto simp: relay_event_def)
  show sub: "set (js_sent (relay_js st)) \<subseteq> set (js_sent (relay_js st'))"
    using PublishDurable_sent [OF p] by (subst st') auto
  show "Claimed result' = Claimed result \<and>
         Published result' + Failed result' = Suc (Published result + Failed result)"
    using e p f g by (cases res; cases r1; cases r2) (auto simp: relay_event_def)
  show "errs' = [] \<Longrightarrow> errs = []"
    using e p f g by (cases res; cases r1; cases r2) (auto simp: relay_event_def)
  show "list_all2 (relay_rel now (js_sent (relay_js st'))) ?rows (outbox_rows (relay_db st'))"
  proof (cases res)
    case (Inl er)
    have d: "?t \<le> now + outboxRetryMaximum" using outboxRetryDelay_bounds(2) by simp
    have "outbox_rows db1 = ?rows \<or> outbox_rows db1 =
      update_rows (pending_id (ObID ev)) (\<lambda>x. x\<lparr>row_available_at := ?t, row_attempt_count := row_attempt_count x + 1,
         row_last_error := Some (error_text er)\<rparr>) ?rows"
      by (rule MarkFailed_rows [OF f [OF Inl]])
    then have "list_all2 (relay_rel now (js_sent j)) ?rows (outbox_rows db1)"
      using d by (auto intro!: list_all2_update_rows list_all2_refl simp: relay_rel_def row_grows_def pending_id_def)
    then show ?thesis using Inl by (subst (1 2) st') simp
  next
    case (Inr a)
    have sent: "(ObSubject ev, ObID ev, GamePayload (ObPayload ev)) \<in> set (js_sent j)"
      using PublishDurable_Inr [OF p [unfolded Inr]] by simp
    from MarkPublished_rows(1) [OF g]
    have "list_all2 (relay_rel now (js_sent j)) ?rows (outbox_rows db2)"
      using m sent
      by (auto intro!: list_all2_update_rows list_all2_refl
          simp: relay_rel_def row_grows_def pending_id_def event_matches_def)
    then show ?thesis using Inr by (subst (1 2) st') simp
  qed
qed

lemma list_all2_relay_trans:
  assumes "list_all2 (relay_rel now s1) a b" "list_all2 (relay_rel now s2) b c" "set s1 \<subseteq> set s2"
  shows "list_all2 (relay_rel now s2) a c"
  by (rule list_all2_trans [OF _ assms(1,2)]) (rule relay_rel_trans [OF _ _ assms(3)])

lemma relay_events_step:
  assumes "\<And>ev. ev \<in> set evs \<Longrightarrow> event_matches (outbox_rows (relay_db st)) ev"
    and "fold (relay_event now) evs (st, result, errs) = (st', result', errs')"
  shows "set (js_sent (relay_js st)) \<subseteq> set (js_sent (relay_js st')) \<and>
     list_all2 (relay_rel now (js_sent (relay_js st'))) (outbox_rows (relay_db st)) (outbox_rows (relay_db st')) \<and>
     Claimed result' = Claimed result \<and>
     Published result' + Failed result' = length evs + (Published result + Failed result)"
  using assms
proof (induction evs arbitrary: st result errs)
  case (Cons ev evs)
  obtain st1 r1 e1 where e: "relay_event now ev (st, result, errs) = (st1, r1, e1)"
    by (metis prod_cases3)
  have m: "event_matches (outbox_rows (relay_db st)) ev" using Cons.prems(1) by simp
  note s = relay_event_step [OF m e]
  have rest: "fold (relay_event now) evs (st1, r1, e1) = (st', result', errs')"
    using Cons.prems(2) e by simp
  have "event_matches (outbox_rows (relay_db st1)) v" if "v \<in> set evs" for v
    using event_matches_grows [OF _ s(2)] Cons.prems(1) that by simp
  from Cons.IH [OF this rest] s show ?case
    by (auto intro: list_all2_relay_trans)
qed (auto simp: list_all2_refl)

text \<open>The claim is a row change of the same kind.\<close>

lemma claim_relay_rel:
  assumes "lease \<le> now + outboxRetryMaximum"
  shows "list_all2 (relay_rel now sent) rows (fst (claim_rows locked ret now lease n rows))"
  using assms unfolding claim_rows_def Let_def fst_conv
  by (intro list_all2_update_rows) (simp_all add: relay_rel_def row_grows_def le_max_iff_disj)

lemma claim_events_match:
  assumes "distinct (map row_id rows)" "\<And>xs. mset (ret xs) = mset xs"
    and "ev \<in> set (snd (claim_rows locked ret now lease n rows))"
  shows "event_matches (fst (claim_rows locked ret now lease n rows)) ev"
proof -
  have "ev \<in> row_event ` set (candidates locked now n rows)"
    using assms(2,3) by (metis claim_rows_def set_mset_mset list.set_map snd_conv)
  then obtain x where x: "x \<in> set rows" "ev = row_event x" using candidates_subset by blast
  have "row_subject y = row_subject x \<and> row_payload y = row_payload x"
    if "y \<in> set rows" "row_id y = row_id x" for y
    using assms(1) x(1) that by (auto simp: distinct_map inj_on_def)
  with x(2) show ?thesis
    by (fastforce simp: event_matches_def claimed_rows_leased split: if_splits)
qed

lemma RelayOnce_step:
  assumes inv: "outbox_inv (relay_db st)" and perm: "\<And>xs. mset (ret xs) = mset xs"
    and r: "RelayOnce locked ret now st = (st', result, err)"
  shows "list_all2 (relay_rel now (js_sent (relay_js st'))) (outbox_rows (relay_db st)) (outbox_rows (relay_db st'))"
    and "Claimed result = Published result + Failed result"
proof -
  obtain db q where c: "ClaimPending locked ret now (now + outboxRelayLease) outboxRelayBatchSize (relay_db st) = (db, q)"
    by (meson surj_pair)
  let ?cr = "claim_rows locked ret now (now + outboxRelayLease) (nat outboxRelayBatchSize) (outbox_rows (relay_db st))"
  have cl: "list_all2 (relay_rel now sent) (outbox_rows (relay_db st)) (outbox_rows db)" for sent
    using ClaimPending_rows(1) [OF c] claim_relay_rel [of "now + outboxRelayLease" now]
    by (auto simp: outbox_consts list_all2_refl)
  have "list_all2 (relay_rel now (js_sent (relay_js st'))) (outbox_rows (relay_db st)) (outbox_rows (relay_db st')) \<and>
        Claimed result = Published result + Failed result"
  proof (cases q)
    case (Inl e)
    with r c cl show ?thesis by (auto simp: RelayOnce_def Let_def list_all2_refl split: if_splits)
  next
    case (Inr evs)
    show ?thesis
    proof (cases "IsZero now")
      case True
      with r show ?thesis by (auto simp: RelayOnce_def Let_def list_all2_refl)
    next
      case False
      with r c Inr obtain st1 r1 e1 where
        f: "fold (relay_event now) evs (st\<lparr>relay_db := db\<rparr>, \<lparr>Claimed = length evs, Published = 0, Failed = 0\<rparr>, []) = (st1, r1, e1)"
        and st1: "st' = st1" "result = r1" by (auto simp: RelayOnce_def Let_def split: prod.splits)
      note rows = ClaimPending_rows(2) [OF c Inr]
      have "event_matches (outbox_rows (relay_db (st\<lparr>relay_db := db\<rparr>))) ev" if "ev \<in> set evs" for ev
        using claim_events_match [of "outbox_rows (relay_db st)" ret ev] inv perm rows that
        by (simp add: outbox_inv_def)
      from relay_events_step [OF this f] st1 cl [of "js_sent (relay_js st')"] show ?thesis
        by (auto intro: list_all2_relay_trans)
    qed
  qed
  then show "list_all2 (relay_rel now (js_sent (relay_js st'))) (outbox_rows (relay_db st)) (outbox_rows (relay_db st'))"
    and "Claimed result = Published result + Failed result" by auto
qed

text \<open>What a cycle hands to JetStream comes from the rows.\<close>

definition row_message :: "outbox_row \<Rightarrow> string \<times> string \<times> js_payload" where
  "row_message x = (row_subject x, row_id x, GamePayload (row_payload x))"

definition event_message :: "outbox_event \<Rightarrow> string \<times> string \<times> js_payload" where
  "event_message ev = (ObSubject ev, ObID ev, GamePayload (ObPayload ev))"

lemma event_message_row [simp]: "event_message (row_event x) = row_message x"
  by (simp add: event_message_def row_message_def)

lemma relay_event_sent:
  "relay_event now ev (st, result, errs) = (st', out) \<Longrightarrow>
   set (js_sent (relay_js st')) \<subseteq> insert (event_message ev) (set (js_sent (relay_js st)))"
proof -
  assume e: "relay_event now ev (st, result, errs) = (st', out)"
  obtain j res where p: "PublishDurable (ObSubject ev) (ObID ev) (GamePayload (ObPayload ev)) (relay_js st) = (j, res)"
    by (meson surj_pair)
  have "relay_js st' = j"
    using e p by (cases res) (auto simp: relay_event_def Let_def split: prod.splits sum.splits)
  with PublishDurable_sent [OF p] show ?thesis by (auto simp: event_message_def)
qed

lemma relay_events_sent:
  "fold (relay_event now) evs (st, result, errs) = (st', out) \<Longrightarrow>
   set (js_sent (relay_js st')) \<subseteq> event_message ` set evs \<union> set (js_sent (relay_js st))"
proof (induction evs arbitrary: st result errs)
  case (Cons ev evs)
  obtain st1 r1 e1 where e: "relay_event now ev (st, result, errs) = (st1, r1, e1)" by (metis prod_cases3)
  from Cons.IH [of st1 r1 e1] Cons.prems e relay_event_sent [OF e] show ?case by auto
qed simp

lemma RelayOnce_sent:
  assumes "\<And>xs. mset (ret xs) = mset xs" and r: "RelayOnce locked ret now st = (st', result, err)"
  shows "set (js_sent (relay_js st')) \<subseteq> row_message ` set (outbox_rows (relay_db st)) \<union> set (js_sent (relay_js st))"
proof -
  let ?n = "nat outboxRelayBatchSize"
  obtain db q where c: "ClaimPending locked ret now (now + outboxRelayLease) outboxRelayBatchSize (relay_db st) = (db, q)"
    by (meson surj_pair)
  show ?thesis
  proof (cases "\<exists>evs. q = Inr evs \<and> \<not> IsZero now")
    case False
    then have "relay_js st' = relay_js st"
      using r c by (cases q) (auto simp: RelayOnce_def Let_def split: if_splits)
    then show ?thesis by simp
  next
    case True
    then obtain evs where q: "q = Inr evs" "\<not> IsZero now" by blast
    with r c obtain r1 e1 where
      f: "fold (relay_event now) evs (st\<lparr>relay_db := db\<rparr>, \<lparr>Claimed = length evs, Published = 0, Failed = 0\<rparr>, []) = (st', r1, e1)"
      by (auto simp: RelayOnce_def Let_def split: prod.splits)
    have "evs = ret (map row_event (candidates locked now ?n (outbox_rows (relay_db st))))"
      using ClaimPending_rows(2) [OF c q(1)] by (simp add: claim_rows_def Let_def)
    then have "set evs = row_event ` set (candidates locked now ?n (outbox_rows (relay_db st)))"
      using assms(1) by (metis set_mset_mset list.set_map)
    then have "event_message ` set evs \<subseteq> row_message ` set (outbox_rows (relay_db st))"
      using candidates_subset by fastforce
    with relay_events_sent [OF f] show ?thesis by auto
  qed
qed

lemma OutboxCleanup_rows:
  "OutboxCleanup now db = (db', res) \<Longrightarrow> \<exists>P. outbox_rows db' = filter P (outbox_rows db)"
proof -
  assume c: "OutboxCleanup now db = (db', res)"
  obtain db1 q where d: "DeletePublishedBefore (now - outboxRetention) db = (db1, q)" by (meson surj_pair)
  have "outbox_rows db1 = outbox_rows db \<or>
      outbox_rows db1 = filter (\<lambda>x. \<not> published_before (now - outboxRetention) x) (outbox_rows db)"
    using d exec_stmt_cases(1) unfolding DeletePublishedBefore_def by (fastforce split: if_splits)
  moreover have "db' = db \<or> db' = db1"
    using c d by (auto simp: OutboxCleanup_def split: if_splits sum.splits)
  moreover have "outbox_rows db = filter (\<lambda>_. True) (outbox_rows db)" by simp
  ultimately show ?thesis by metis
qed

lemma sort_key_take_le:
  assumes "x \<in> set (take n (sort_key f xs))" "y \<in> set xs" "y \<notin> set (take n (sort_key f xs))"
  shows "f x \<le> f y"
proof -
  have "y \<in> set (drop n (sort_key f xs))"
    using assms(2,3) by (metis Un_iff append_take_drop_id set_append set_sort)
  moreover have "sorted (map f (take n (sort_key f xs)) @ map f (drop n (sort_key f xs)))"
    by (metis append_take_drop_id map_append sorted_sort_key)
  ultimately show ?thesis using assms(1) by (auto simp: sorted_append)
qed

lemma length_filter_split:
  "length (filter P xs) = length (filter (\<lambda>x. P x \<and> Q x) xs) + length (filter (\<lambda>x. P x \<and> \<not> Q x) xs)"
  by (induction xs) auto

lemma length_candidates:
  "length (candidates locked now n rows) = min n (length (filter (claimable locked now) rows))"
  by (simp add: candidates_def min.commute)

lemma candidate_row:
  assumes "distinct (map row_id rows)" "x \<in> set rows" "row_id x \<in> row_id ` set (candidates locked now n rows)"
  shows "x \<in> set (candidates locked now n rows)"
proof -
  from assms(3) obtain z where z: "z \<in> set (candidates locked now n rows)" "row_id z = row_id x" by auto
  then have "z \<in> set rows" using candidates_subset by blast
  with assms(1,2) z have "z = x" by (auto simp: distinct_map inj_on_def)
  with z(1) show ?thesis by simp
qed

text \<open>With no fault scheduled, every claimed event is published and marked.\<close>

lemma healthy_relay_event:
  assumes "outbox_faults (relay_db st) = []" "js_replies (relay_js st) = []" "\<not> IsZero now"
    and "distinct (map row_id (outbox_rows (relay_db st)))"
    and "x \<in> set (outbox_rows (relay_db st))" "pending_id (ObID ev) x" "ObID ev \<noteq> []"
  shows "\<exists>st'. relay_event now ev (st, result, errs) = (st', result\<lparr>Published := Published result + 1\<rparr>, errs) \<and>
     outbox_faults (relay_db st') = [] \<and> js_replies (relay_js st') = [] \<and>
     outbox_rows (relay_db st') =
       update_rows (pending_id (ObID ev)) (\<lambda>x. x\<lparr>row_published_at := Some now, row_last_error := None\<rparr>)
         (outbox_rows (relay_db st))"
proof -
  have "length (filter (pending_id (ObID ev)) (outbox_rows (relay_db st))) = 1"
  proof -
    let ?f = "filter (pending_id (ObID ev)) (outbox_rows (relay_db st))"
    have "distinct (map row_id ?f)" using assms(4) by (simp add: distinct_map_filter)
    moreover have "set (map row_id ?f) = {ObID ev}" using assms(5,6) by (auto simp: pending_id_def)
    ultimately show ?thesis by (metis distinct_card card.empty card_insert_disjoint empty_iff finite.emptyI length_map One_nat_def)
  qed
  with assms(1-3,7) show ?thesis
    by (simp add: relay_event_def PublishDurable_def next_reply_def MarkPublished_def exec_stmt_def
        require_one_def update_pending_def Let_def)
qed

definition due_among :: "string set \<Rightarrow> outbox_row \<Rightarrow> bool" where
  "due_among ids x \<longleftrightarrow> row_id x \<in> ids \<and> row_published_at x = None"

lemma healthy_relay_events:
  assumes "outbox_faults (relay_db st) = []" "js_replies (relay_js st) = []" "\<not> IsZero now"
    and "distinct (map row_id (outbox_rows (relay_db st)))" "distinct (map ObID evs)"
    and "\<And>ev. ev \<in> set evs \<Longrightarrow> ObID ev \<noteq> [] \<and> (\<exists>x \<in> set (outbox_rows (relay_db st)). pending_id (ObID ev) x)"
  shows "\<exists>st'. fold (relay_event now) evs (st, result, errs) =
       (st', result\<lparr>Published := Published result + length evs\<rparr>, errs) \<and>
     outbox_faults (relay_db st') = [] \<and> js_replies (relay_js st') = [] \<and>
     outbox_rows (relay_db st') =
       update_rows (due_among (ObID ` set evs)) (\<lambda>x. x\<lparr>row_published_at := Some now, row_last_error := None\<rparr>)
         (outbox_rows (relay_db st))"
  using assms
proof (induction evs arbitrary: st result)
  case Nil
  then show ?case by (simp add: update_rows_def due_among_def)
next
  case (Cons ev evs)
  let ?u = "\<lambda>x. x\<lparr>row_published_at := Some now, row_last_error := None\<rparr>"
  obtain x where x: "x \<in> set (outbox_rows (relay_db st))" "pending_id (ObID ev) x" "ObID ev \<noteq> []"
    using Cons.prems(6) by auto
  obtain st1 where st1: "relay_event now ev (st, result, errs) = (st1, result\<lparr>Published := Published result + 1\<rparr>, errs)"
    "outbox_faults (relay_db st1) = []" "js_replies (relay_js st1) = []"
    "outbox_rows (relay_db st1) = update_rows (pending_id (ObID ev)) ?u (outbox_rows (relay_db st))"
    using healthy_relay_event [OF Cons.prems(1-4) x] by blast
  have d: "distinct (map row_id (outbox_rows (relay_db st1)))" using Cons.prems(4) by (simp add: st1(4))
  have still: "\<exists>x \<in> set (outbox_rows (relay_db st1)). pending_id (ObID v) x" if v: "v \<in> set evs" for v
  proof -
    from Cons.prems(6) v obtain z where z: "z \<in> set (outbox_rows (relay_db st))" "pending_id (ObID v) z" by auto
    moreover have "ObID v \<noteq> ObID ev"
    proof -
      have "ObID v \<in> ObID ` set evs" using v by (rule imageI)
      moreover have "ObID ev \<notin> ObID ` set evs" using Cons.prems(5) by simp
      ultimately show ?thesis by metis
    qed
    ultimately have "z \<in> set (outbox_rows (relay_db st1))"
      by (force simp: st1(4) update_rows_def pending_id_def)
    with z(2) show ?thesis by blast
  qed
  have "distinct (map ObID evs)" and "ObID v \<noteq> []" if "v \<in> set evs" for v
    using Cons.prems(5,6) that by auto
  with Cons.IH [of st1 "result\<lparr>Published := Published result + 1\<rparr>"] st1(2,3) d still Cons.prems(3,5)
  obtain st2 where st2: "fold (relay_event now) evs (st1, result\<lparr>Published := Published result + 1\<rparr>, errs) =
       (st2, result\<lparr>Published := Published result + 1 + length evs\<rparr>, errs)"
    "outbox_faults (relay_db st2) = []" "js_replies (relay_js st2) = []"
    "outbox_rows (relay_db st2) = update_rows (due_among (ObID ` set evs)) ?u (outbox_rows (relay_db st1))"
    using Cons.prems(6) by auto
  have "outbox_rows (relay_db st2) = update_rows (due_among (ObID ` set (ev # evs))) ?u (outbox_rows (relay_db st))"
    by (auto simp: st2(4) st1(4) update_rows_def due_among_def pending_id_def)
  with st1(1) st2(1-3) show ?case by simp
qed

text \<open>A whole cycle: the candidates are published, and nothing else changes.\<close>

definition publish_row :: "time \<Rightarrow> outbox_row \<Rightarrow> outbox_row" where
  "publish_row now x = x\<lparr>row_available_at := now + outboxRelayLease, row_published_at := Some now, row_last_error := None\<rparr>"

definition candidate_ids :: "(string \<Rightarrow> bool) \<Rightarrow> time \<Rightarrow> outbox_row list \<Rightarrow> string set" where
  "candidate_ids locked now rows = row_id ` set (candidates locked now (nat outboxRelayBatchSize) rows)"

lemma candidate_unpublished:
  assumes "distinct (map row_id rows)" "x \<in> set rows" "row_id x \<in> candidate_ids locked now rows"
  shows "claimable locked now x"
  using candidate_row [OF assms(1,2)] assms(3) candidates_subset unfolding candidate_ids_def by blast

lemma claimed_events_pending:
  assumes "outbox_inv db" "\<And>xs. mset (ret xs) = mset xs"
    and "claim_rows locked ret now lease n (outbox_rows db) = (rows1, evs)" "ev \<in> set evs"
  shows "ObID ev \<noteq> [] \<and> (\<exists>x \<in> set rows1. pending_id (ObID ev) x)"
proof -
  have "evs = ret (map row_event (candidates locked now n (outbox_rows db)))"
    using assms(3) by (simp add: claim_rows_def Let_def)
  then have "set evs = row_event ` set (candidates locked now n (outbox_rows db))"
    using assms(2) by (metis set_mset_mset list.set_map)
  with assms(4) obtain x where x: "x \<in> set (candidates locked now n (outbox_rows db))" "ev = row_event x" by auto
  then have r: "x \<in> set (outbox_rows db)" "row_published_at x = None"
    using candidates_subset by (fastforce simp: claimable_def)+
  have "rows1 = fst (claim_rows locked ret now lease n (outbox_rows db))" using assms(3) by simp
  with x(1) r(1) have "x\<lparr>row_available_at := lease\<rparr> \<in> set rows1"
    unfolding claimed_rows_leased by (auto intro!: image_eqI [of _ _ x])
  moreover have "row_id x \<noteq> []" using r(1) assms(1) by (simp add: outbox_inv_def)
  ultimately show ?thesis
    using x(2) r(2) by (auto simp: pending_id_def intro!: bexI [of _ "x\<lparr>row_available_at := lease\<rparr>"])
qed

lemma distinct_claimed:
  assumes "distinct (map row_id rows)" "\<And>xs. mset (ret xs) = mset xs"
  shows "distinct (map ObID (snd (claim_rows locked ret now lease n rows)))"
proof -
  have "mset (map ObID (ret (map row_event (candidates locked now n rows)))) =
      mset (map row_id (candidates locked now n rows))"
    using assms(2) by (simp add: multiset.map_comp comp_def)
  with distinct_candidates [OF assms(1)] show ?thesis
    by (metis (no_types) claim_rows_def mset_eq_imp_distinct_iff snd_conv)
qed

lemma healthy_relay_cycle:
  assumes perm: "\<And>xs. mset (ret xs) = mset xs" and inv: "outbox_inv (relay_db st)" and now: "zero_time < now"
    and ok: "outbox_faults (relay_db st) = []" "js_replies (relay_js st) = []"
    and run: "RelayOnce locked ret now st = (st', result, err)"
  shows "err = None \<and> Failed result = 0 \<and>
     Published result = length (candidates locked now (nat outboxRelayBatchSize) (outbox_rows (relay_db st))) \<and>
     outbox_faults (relay_db st') = [] \<and> js_replies (relay_js st') = [] \<and>
     outbox_rows (relay_db st') =
       update_rows (\<lambda>x. row_id x \<in> candidate_ids locked now (outbox_rows (relay_db st))) (publish_row now)
         (outbox_rows (relay_db st))"
proof -
  let ?rows = "outbox_rows (relay_db st)" and ?lease = "now + outboxRelayLease" and ?n = "nat outboxRelayBatchSize"
  obtain rows1 evs where cr: "claim_rows locked ret now ?lease ?n ?rows = (rows1, evs)" by (meson surj_pair)
  let ?st = "st\<lparr>relay_db := (relay_db st)\<lparr>outbox_rows := rows1\<rparr>\<rparr>"
  let ?zero = "\<lparr>Claimed = length evs, Published = 0, Failed = 0\<rparr>"
  have d: "distinct (map row_id ?rows)" using inv by (simp add: outbox_inv_def)
  have claim: "ClaimPending locked ret now ?lease outboxRelayBatchSize (relay_db st) =
      ((relay_db st)\<lparr>outbox_rows := rows1\<rparr>, Inr evs)"
    using now ok(1) cr by (simp add: ClaimPending_def IsZero_def exec_stmt_def outbox_consts)
  have evs: "evs = ret (map row_event (candidates locked now ?n ?rows))" and
    rows1: "rows1 = fst (claim_rows locked ret now ?lease ?n ?rows)"
    using cr by (simp_all add: claim_rows_def Let_def)
  have ids: "ObID ` set evs = candidate_ids locked now ?rows"
    using ids_of_perm [OF perm] by (simp add: evs candidate_ids_def)
  have len: "length evs = length (candidates locked now ?n ?rows)"
    unfolding evs using perm by (metis length_map mset_eq_length)
  have d1: "distinct (map row_id rows1)" using d by (simp add: rows1 claim_rows_def Let_def)
  have evd: "distinct (map ObID evs)" using distinct_claimed [OF d perm] cr by (metis snd_conv)
  note pend = claimed_events_pending [OF inv perm cr]
  from healthy_relay_events [of ?st now evs ?zero "[]"] ok now d1 evd pend
  obtain st2 where f: "fold (relay_event now) evs (?st, ?zero, []) = (st2, ?zero\<lparr>Published := length evs\<rparr>, [])"
    and fin: "outbox_faults (relay_db st2) = []" "js_replies (relay_js st2) = []"
      "outbox_rows (relay_db st2) = update_rows (due_among (ObID ` set evs))
         (\<lambda>x. x\<lparr>row_published_at := Some now, row_last_error := None\<rparr>) rows1"
    by (auto simp: IsZero_def)
  have res: "st' = st2" "result = ?zero\<lparr>Published := length evs\<rparr>" "err = None"
    using run now claim f by (auto simp: RelayOnce_def Let_def IsZero_def errors_join_def)
  have "row_published_at x = None" if "x \<in> set ?rows" "row_id x \<in> candidate_ids locked now ?rows" for x
    using candidate_unpublished [OF d that] by (simp add: claimable_def)
  then have "outbox_rows (relay_db st2) =
      update_rows (\<lambda>x. row_id x \<in> candidate_ids locked now ?rows) (publish_row now) ?rows"
    unfolding fin(3) ids rows1 claimed_rows_leased update_rows_def
    by (simp add: due_among_def publish_row_def candidate_ids_def)
  with res fin(1,2) len show ?thesis by simp
qed

definition unpublished :: "outbox_row list \<Rightarrow> nat" where
  "unpublished rows = length (filter (\<lambda>x. row_published_at x = None) rows)"

lemma unpublished_after_cycle:
  assumes "distinct (map row_id rows)"
  shows "unpublished (update_rows (\<lambda>x. row_id x \<in> candidate_ids locked now rows) (publish_row now) rows) +
      length (candidates locked now (nat outboxRelayBatchSize) rows) = unpublished rows"
proof -
  let ?ids = "candidate_ids locked now rows" and ?c = "candidates locked now (nat outboxRelayBatchSize) rows"
  let ?f = "filter (\<lambda>x. row_published_at x = None \<and> row_id x \<in> ?ids) rows"
  have "set (map row_id ?f) = set (map row_id ?c)"
    using candidates_subset [of locked now _ rows] by (auto simp: candidate_ids_def claimable_def)
  moreover have "distinct (map row_id ?f)" using assms by (simp add: distinct_map_filter)
  moreover have "distinct (map row_id ?c)" by (rule distinct_candidates [OF assms])
  ultimately have "length ?f = length ?c"
    using distinct_card [of "map row_id ?f"] distinct_card [of "map row_id ?c"] by simp
  moreover have "unpublished (update_rows (\<lambda>x. row_id x \<in> ?ids) (publish_row now) rows) =
      length (filter (\<lambda>x. row_published_at x = None \<and> row_id x \<notin> ?ids) rows)"
    unfolding unpublished_def update_rows_def filter_map length_map comp_def
    by (rule arg_cong [where f = length], rule filter_cong) (auto simp: publish_row_def)
  ultimately show ?thesis
    using length_filter_split [of "\<lambda>x. row_published_at x = None" rows "\<lambda>x. row_id x \<in> ?ids"]
    by (simp add: unpublished_def)
qed

section \<open>An example database\<close>

definition ex_started :: outbox_event where
  "ex_started = \<lparr>ObID = ''a'', ObSubject = SubjectGameStarted, ObPayload = NonObject, ObCreatedAt = 5, ObAttemptCount = 0\<rparr>"

definition ex_rows :: "outbox_row list" where
  "ex_rows =
     [\<lparr>row_id = ''a'', row_subject = SubjectGameStarted, row_payload = NonObject, row_created_at = 5,
       row_available_at = 7, row_published_at = None, row_attempt_count = 0, row_last_error = None\<rparr>,
      \<lparr>row_id = ''b'', row_subject = SubjectGameEnded, row_payload = NonObject, row_created_at = 6,
       row_available_at = 6, row_published_at = None, row_attempt_count = 2, row_last_error = Some ''x''\<rparr>]"

definition ex_db :: outbox_db where
  "ex_db = \<lparr>outbox_rows = ex_rows, outbox_faults = []\<rparr>"

definition ex_relay :: relay_state where
  "ex_relay = \<lparr>relay_db = ex_db, relay_js = \<lparr>js_sent = [], js_replies = []\<rparr>, relay_labels = []\<rparr>"

lemmas outbox_example = ex_started_def ex_rows_def ex_db_def ex_relay_def json_valid_def

lemmas outbox_run = ClaimPending_def exec_stmt_def claim_rows_def candidates_def claimable_def
  row_event_def update_rows_def IsZero_def Let_def

lemma ex_inv: "outbox_inv ex_db"
  by (simp add: outbox_inv_def outbox_example SubjectGameStarted_def SubjectGameEnded_def)

section \<open>Properties\<close>

text \<open>
  C32: the loop of \<open>outboxRetryDelay\<close> computes capped exponential backoff: five seconds,
  doubled for every counted attempt, never more than five minutes and never overflowing,
  whatever the counter holds.
\<close>

theorem retry_delay_is_capped_backoff:
  "outboxRetryDelay c = min (5 * minute) (5 * second * 2 ^ nat c)"
  by (simp add: outboxRetryDelay_eq outbox_consts)

text \<open>
  Enqueueing is idempotent in the event identifier: once an event is in the outbox, a
  second enqueue of the identifier that succeeds reports that nothing was inserted and
  leaves every row as it was.
\<close>

theorem enqueue_idempotent:
  assumes "Enqueue event t db = (db1, Inr b)" and "ObID event' = ObID event"
    and "Enqueue event' t' db1 = (db2, Inr b')"
  shows "\<not> b' \<and> outbox_rows db2 = outbox_rows db1"
proof -
  have "\<exists>x \<in> set (outbox_rows db1). row_id x = ObID event'"
    using Enqueue_rows(2) [OF assms(1), of b] insert_row_cases [of event t "outbox_rows db"] assms(2) by auto
  then show ?thesis
    using Enqueue_rows(2) [OF assms(3), of b'] insert_row_cases [of event' t' "outbox_rows db1"] by auto
qed

theorem enqueue_idempotent_witness:
  "snd (Enqueue ex_started 9 (fst (Enqueue ex_started 8 \<lparr>outbox_rows = [], outbox_faults = []\<rparr>))) = Inr False"
proof -
  let ?db = "\<lparr>outbox_rows = [], outbox_faults = []\<rparr>"
  obtain db1 where 1: "Enqueue ex_started 8 ?db = (db1, Inr True)"
    by (simp add: Enqueue_def exec_stmt_def insert_row_def outbox_example SubjectGameStarted_def)
  obtain db2 where 2: "Enqueue ex_started 9 db1 = (db2, Inr False)"
    using 1 by (auto simp: Enqueue_def exec_stmt_def insert_row_def outbox_example SubjectGameStarted_def)
  show ?thesis using enqueue_idempotent [OF 1 refl 2] 1 2 by simp
qed



text \<open>
  A claim takes only due, unpublished, unlocked rows, at most the limit and as many as
  there are, and the oldest first: no due row that it leaves behind was available before
  one that it takes.
\<close>

theorem claim_takes_oldest_due_rows:
  assumes "\<And>xs. mset (ret xs) = mset xs" "outbox_inv db"
    and "ClaimPending locked ret now lease limit db = (db1, Inr evs)"
  shows "length evs = min (nat limit) (length (filter (claimable locked now) (outbox_rows db))) \<and>
    (\<forall>x \<in> set (outbox_rows db). row_id x \<in> ObID ` set evs \<longrightarrow> claimable locked now x \<and>
      (\<forall>y \<in> set (outbox_rows db). claimable locked now y \<longrightarrow> row_id y \<notin> ObID ` set evs \<longrightarrow>
         row_available_at x \<le> row_available_at y))"
proof (intro conjI ballI impI)
  let ?c = "candidates locked now (nat limit) (outbox_rows db)"
  have d: "distinct (map row_id (outbox_rows db))" using assms(2) by (simp add: outbox_inv_def)
  have evs: "evs = ret (map row_event ?c)" using ClaimPending_rows(2) [OF assms(3)] by (simp add: claim_rows_def Let_def)
  then have "length evs = length ?c" using assms(1) by (metis length_map mset_eq_length)
  then show "length evs = min (nat limit) (length (filter (claimable locked now) (outbox_rows db)))"
    by (simp add: length_candidates)
  have ids: "ObID ` set evs = row_id ` set ?c" using ids_of_perm [OF assms(1), of ?c] evs by simp
  fix x assume x: "x \<in> set (outbox_rows db)" "row_id x \<in> ObID ` set evs"
  then have xc: "x \<in> set ?c" using candidate_row [OF d] ids by simp
  then show "claimable locked now x" using candidates_subset by blast
  fix y assume "y \<in> set (outbox_rows db)" "claimable locked now y" "row_id y \<notin> ObID ` set evs"
  then have "y \<in> set (filter (claimable locked now) (outbox_rows db))" "y \<notin> set ?c" using ids by auto
  with xc have "(row_available_at x, row_created_at x) \<le> (row_available_at y, row_created_at y)"
    unfolding candidates_def
    by (rule_tac sort_key_take_le [where f = "\<lambda>x. (row_available_at x, row_created_at x)"]) auto
  then show "row_available_at x \<le> row_available_at y" by auto
qed

theorem claim_takes_oldest_due_rows_witness:
  "length [row_event (ex_rows ! 1)] = 1 \<and>
   (\<exists>db1. ClaimPending (\<lambda>_. False) id 10 40 1 ex_db = (db1, Inr [row_event (ex_rows ! 1)]))"
proof -
  obtain db1 where c: "ClaimPending (\<lambda>_. False) id 10 40 1 ex_db = (db1, Inr [row_event (ex_rows ! 1)])"
    by (simp add: outbox_run outbox_example)
  show ?thesis using claim_takes_oldest_due_rows [OF _ ex_inv c] c by auto
qed

text \<open>
  C7: at-least-once delivery. In a relay cycle under any outcomes of the statements and of
  the publications, a row becomes published only when the server has its message, under
  its own subject, identifier and payload; every other row stays in the table, keeps its
  content, and is due again at most five minutes after the cycle. So no event is lost.
\<close>

theorem relay_never_loses_an_event:
  assumes "\<And>xs. mset (ret xs) = mset xs" "outbox_inv (relay_db st)"
    and "RelayOnce locked ret now st = (st', result, err)"
  shows "list_all2 (\<lambda>x y. row_grows x y \<and>
      (row_published_at x = None \<longrightarrow> row_published_at y \<noteq> None \<longrightarrow> row_published_at y = Some now \<and>
         (row_subject x, row_id x, GamePayload (row_payload x)) \<in> set (js_sent (relay_js st'))) \<and>
      (row_published_at y = None \<longrightarrow> row_available_at y \<le> max (row_available_at x) (now + 5 * minute)))
    (outbox_rows (relay_db st)) (outbox_rows (relay_db st'))"
  using RelayOnce_step(1) [OF assms(2,1,3)]
  by (rule list_all2_mono) (simp add: relay_rel_def outbox_consts)

theorem relay_never_loses_an_event_witness:
  "list_all2 row_grows ex_rows (outbox_rows (relay_db (fst (RelayOnce (\<lambda>_. False) id 10 ex_relay))))"
proof -
  obtain st' result err where r: "RelayOnce (\<lambda>_. False) id 10 ex_relay = (st', result, err)"
    by (metis prod_cases3)
  have "outbox_inv (relay_db ex_relay)" using ex_inv by (simp add: ex_relay_def)
  note relay_never_loses_an_event [OF _ this r]
  moreover have "outbox_rows (relay_db ex_relay) = ex_rows" by (simp add: ex_relay_def ex_db_def)
  ultimately show ?thesis by (simp add: r list_all2_conv_all_nth)
qed

text \<open>
  The relay's accounting: every event of the claim is counted exactly once, as published
  or as failed.
\<close>

theorem relay_accounts_for_every_claim:
  assumes "\<And>xs. mset (ret xs) = mset xs" "outbox_inv (relay_db st)"
    and "RelayOnce locked ret now st = (st', result, err)"
  shows "Claimed result = Published result + Failed result"
  by (rule RelayOnce_step(2) [OF assms(2,1,3)])

theorem relay_accounts_for_every_claim_witness:
  "(let r = fst (snd (RelayOnce (\<lambda>_. False) id 10 ex_relay)) in Claimed r = Published r + Failed r)"
proof -
  obtain st' result err where r: "RelayOnce (\<lambda>_. False) id 10 ex_relay = (st', result, err)"
    by (metis prod_cases3)
  have "outbox_inv (relay_db ex_relay)" using ex_inv by (simp add: ex_relay_def)
  note relay_accounts_for_every_claim [OF _ this r]
  then show ?thesis by (simp add: r)
qed

text \<open>
  Progress. When the database and JetStream answer without a fault, a relay cycle
  reports no error and publishes the oldest due rows, as many as there are up to its batch of 50.
\<close>

theorem healthy_relay_publishes_the_due_rows:
  assumes "\<And>xs. mset (ret xs) = mset xs" "outbox_inv (relay_db st)" "zero_time < now"
    and "outbox_faults (relay_db st) = []" "js_replies (relay_js st) = []"
    and "RelayOnce locked ret now st = (st', result, err)"
  shows "err = None \<and> Failed result = 0 \<and>
    Published result = min 50 (length (filter (claimable locked now) (outbox_rows (relay_db st)))) \<and>
    length (filter (\<lambda>x. row_published_at x = None) (outbox_rows (relay_db st'))) + Published result =
      length (filter (\<lambda>x. row_published_at x = None) (outbox_rows (relay_db st)))"
  using healthy_relay_cycle [OF assms] unpublished_after_cycle [of "outbox_rows (relay_db st)" locked now] assms(2)
  by (simp add: outbox_inv_def length_candidates outbox_consts unpublished_def)

theorem healthy_relay_publishes_the_due_rows_witness:
  "Published (fst (snd (RelayOnce (\<lambda>_. False) id 10 ex_relay))) = 2"
proof -
  obtain st' result err where r: "RelayOnce (\<lambda>_. False) id 10 ex_relay = (st', result, err)"
    by (metis prod_cases3)
  have "outbox_inv (relay_db ex_relay)" using ex_inv by (simp add: ex_relay_def)
  note healthy_relay_publishes_the_due_rows [OF _ this _ _ _ r]
  moreover have "outbox_rows (relay_db ex_relay) = ex_rows" "outbox_faults (relay_db ex_relay) = []"
    "js_replies (relay_js ex_relay) = []" by (simp_all add: ex_relay_def ex_db_def)
  ultimately show ?thesis by (simp add: r ex_rows_def claimable_def)
qed

text \<open>
  The retention job deletes exactly the rows that were published more than 30 days
  before; an unpublished event is never deleted, however old.
\<close>

theorem cleanup_deletes_only_old_published:
  assumes "OutboxCleanup now db = (db', Inr deleted)"
  shows "outbox_rows db' = filter (\<lambda>x. \<not> (\<exists>t. row_published_at x = Some t \<and> t < now - 30 * 24 * hour)) (outbox_rows db) \<and>
    length (outbox_rows db') + deleted = length (outbox_rows db)"
proof -
  let ?c = "now - outboxRetention"
  have "outbox_rows db' = filter (\<lambda>x. \<not> published_before ?c x) (outbox_rows db) \<and>
      deleted = length (filter (published_before ?c) (outbox_rows db))"
    using assms
    by (auto simp: OutboxCleanup_def DeletePublishedBefore_def split: if_splits prod.splits sum.splits
        dest!: exec_stmt_cases(2))
  moreover have "published_before ?c x \<longleftrightarrow> (\<exists>t. row_published_at x = Some t \<and> t < now - 30 * 24 * hour)" for x
    by (simp add: published_before_def outbox_consts split: option.split)
  ultimately show ?thesis
    using sum_length_filter_compl [of "published_before ?c" "outbox_rows db"] by simp
qed

theorem cleanup_deletes_only_old_published_witness:
  "length (outbox_rows (fst (OutboxCleanup (31 * 24 * hour) ex_db))) = 2"
proof -
  obtain db' deleted where r: "OutboxCleanup (31 * 24 * hour) ex_db = (db', Inr deleted)"
    by (simp add: OutboxCleanup_def DeletePublishedBefore_def exec_stmt_def IsZero_def outbox_consts ex_db_def)
  show ?thesis using cleanup_deletes_only_old_published [OF r] r
    by (simp add: ex_db_def ex_rows_def)
qed

text \<open>The ticks of the relay loop: one cycle at each time, whatever the cycle before returned.\<close>

fun relay_cycles :: "(outbox_event list \<Rightarrow> outbox_event list) \<Rightarrow> time list \<Rightarrow> relay_state \<Rightarrow> relay_state" where
  "relay_cycles ret [] st = st"
| "relay_cycles ret (now # ts) st = relay_cycles ret ts (fst (RelayOnce (\<lambda>_. False) ret now st))"

definition all_due :: "time \<Rightarrow> outbox_row list \<Rightarrow> bool" where
  "all_due t rows \<longleftrightarrow> (\<forall>x \<in> set rows. row_published_at x = None \<longrightarrow> row_available_at x \<le> t)"

lemma unpublished_0: "unpublished rows = 0 \<longleftrightarrow> (\<forall>x \<in> set rows. row_published_at x \<noteq> None)"
  by (auto simp: unpublished_def filter_empty_conv)

lemma due_candidates:
  "all_due t rows \<Longrightarrow> t \<le> now \<Longrightarrow> length (candidates (\<lambda>_. False) now n rows) = min n (unpublished rows)"
  unfolding length_candidates unpublished_def all_due_def
  by (rule arg_cong [where f = "min n"], rule arg_cong [where f = length], rule filter_cong)
     (auto simp: claimable_def)

lemma row_grows_publish: "row_published_at x = None \<Longrightarrow> row_grows x (publish_row now x)"
  by (simp add: row_grows_def publish_row_def)

lemma row_grows_trans: "row_grows x y \<Longrightarrow> row_grows y z \<Longrightarrow> row_grows x z"
  by (auto simp: row_grows_def)

lemma list_all2_row_grows_trans:
  "list_all2 row_grows a b \<Longrightarrow> list_all2 row_grows b c \<Longrightarrow> list_all2 row_grows a c"
  by (rule list_all2_trans [of row_grows row_grows]) (rule row_grows_trans)

lemma healthy_cycle_progress:
  assumes perm: "\<And>xs. mset (ret xs) = mset xs" and inv: "outbox_inv (relay_db st)"
    and due: "all_due t (outbox_rows (relay_db st))" "t \<le> now" "zero_time < now"
    and ok: "outbox_faults (relay_db st) = []" "js_replies (relay_js st) = []"
  obtains st' where "fst (RelayOnce (\<lambda>_. False) ret now st) = st'" "outbox_inv (relay_db st')"
    "all_due t (outbox_rows (relay_db st'))" "outbox_faults (relay_db st') = []" "js_replies (relay_js st') = []"
    "unpublished (outbox_rows (relay_db st')) = unpublished (outbox_rows (relay_db st)) - 50"
    "list_all2 row_grows (outbox_rows (relay_db st)) (outbox_rows (relay_db st'))"
proof -
  let ?rows = "outbox_rows (relay_db st)"
  have d: "distinct (map row_id ?rows)" using inv by (simp add: outbox_inv_def)
  obtain st' result err where r: "RelayOnce (\<lambda>_. False) ret now st = (st', result, err)" by (metis prod_cases3)
  note cycle = healthy_relay_cycle [OF perm inv due(3) ok r]
  have "row_published_at x = None" if "x \<in> set ?rows" "row_id x \<in> candidate_ids (\<lambda>_. False) now ?rows" for x
    using candidate_unpublished [OF d that] by (simp add: claimable_def)
  with cycle have g: "list_all2 row_grows ?rows (outbox_rows (relay_db st'))"
    by (simp add: list_all2_update_rows row_grows_publish)
  have "unpublished (outbox_rows (relay_db st')) = unpublished ?rows - 50"
    using cycle unpublished_after_cycle [OF d, of "\<lambda>_. False" now] due_candidates [OF due(1,2), of 50]
    by (simp add: outbox_consts)
  moreover have "all_due t (outbox_rows (relay_db st'))"
    using cycle due(1) by (auto simp: all_due_def update_rows_def publish_row_def)
  ultimately show thesis using that [of st'] r cycle g outbox_inv_grows [OF inv g] by simp
qed

text \<open>
  When the database and JetStream answer, every tick shortens the backlog by its batch of 50.
\<close>

lemma relay_cycles_drain:
  assumes "\<And>xs. mset (ret xs) = mset xs" "outbox_inv (relay_db st)"
    and "outbox_faults (relay_db st) = []" "js_replies (relay_js st) = []"
    and "all_due t (outbox_rows (relay_db st))" "\<forall>now \<in> set ts. t \<le> now \<and> zero_time < now"
    and "length (filter (\<lambda>x. row_published_at x = None) (outbox_rows (relay_db st))) \<le> 50 * length ts"
  shows "(\<forall>x \<in> set (outbox_rows (relay_db (relay_cycles ret ts st))). row_published_at x \<noteq> None) \<and>
    list_all2 row_grows (outbox_rows (relay_db st)) (outbox_rows (relay_db (relay_cycles ret ts st)))"
  using assms(2-7) unfolding unpublished_0 [symmetric] unpublished_def [symmetric]
proof (induction ts arbitrary: st)
  case (Cons now ts)
  have now: "t \<le> now" "zero_time < now" using Cons.prems(5) by simp_all
  obtain st' where s: "fst (RelayOnce (\<lambda>_. False) ret now st) = st'" "outbox_inv (relay_db st')"
    "all_due t (outbox_rows (relay_db st'))" "outbox_faults (relay_db st') = []" "js_replies (relay_js st') = []"
    "unpublished (outbox_rows (relay_db st')) = unpublished (outbox_rows (relay_db st)) - 50"
    "list_all2 row_grows (outbox_rows (relay_db st)) (outbox_rows (relay_db st'))"
    using healthy_cycle_progress [OF assms(1) Cons.prems(1,4) now Cons.prems(2,3)] by blast
  from Cons.IH [OF s(2,4,5,3)] Cons.prems(5,6) s(1,6,7) show ?case
    by (auto intro: list_all2_row_grows_trans)
qed (simp add: list_all2_refl)

end
