(* ===== verification/Lifecycle.thy ===== *)
theory Lifecycle
  imports Outbox
begin

text \<open>
  Game lifecycle events: the tracker of client phases (\<open>internal/services/game_lifecycle.go\<close>)
  and the service that turns its transitions into outbox events
  (\<open>game_lifecycle_service.go\<close>), over any implementation of \<open>repositories.OutboxWriter\<close>.
\<close>

section \<open>The tracker\<close>

record game_lifecycle_transition =
  TrType :: string
  TrGameID :: int
  TrRoomID :: string

definition GameLifecycleStarted :: string where
  "GameLifecycleStarted = ''game.started''"

definition GameLifecycleEnded :: string where
  "GameLifecycleEnded = ''game.ended''"

record game_lifecycle_tracker =
  t_gameID :: int
  t_roomID :: string
  t_started :: bool

definition reset :: game_lifecycle_tracker where
  "reset = \<lparr>t_gameID = 0, t_roomID = [], t_started = False\<rparr>"

definition NewGameLifecycleTracker :: game_lifecycle_tracker where
  "NewGameLifecycleTracker = \<lparr>t_gameID = 0, t_roomID = [], t_started = False\<rparr>"

definition tracker_Observe ::
  "string \<Rightarrow> int \<Rightarrow> string \<Rightarrow> game_lifecycle_tracker \<Rightarrow>
   game_lifecycle_tracker \<times> game_lifecycle_transition option" where
  "tracker_Observe phase gameID roomID t =
     (if phase = ''ChampSelect'' then
        (if 0 < gameID \<and> roomID \<noteq> [] then (t\<lparr>t_gameID := gameID, t_roomID := roomID\<rparr>, None)
         else (t, None))
      else if phase = ''InProgress'' then
        (if t_started t \<or> t_gameID t \<le> 0 \<or> t_roomID t = [] then (t, None)
         else (t\<lparr>t_started := True\<rparr>,
               Some \<lparr>TrType = GameLifecycleStarted, TrGameID = t_gameID t, TrRoomID = t_roomID t\<rparr>))
      else if phase = ''WaitingForStats'' \<or> phase = ''PreEndOfGame'' \<or> phase = ''EndOfGame'' then
        (if \<not> t_started t then (t, None)
         else (reset, Some \<lparr>TrType = GameLifecycleEnded, TrGameID = t_gameID t, TrRoomID = t_roomID t\<rparr>))
      else if phase = ''Lobby'' \<or> phase = ''None'' then (if \<not> t_started t then (reset, None) else (t, None))
      else (t, None))"

section \<open>The service\<close>

definition newGameOutboxEvent ::
  "game_lifecycle_transition \<Rightarrow> event_metadata \<Rightarrow> go_error + outbox_event" where
  "newGameOutboxEvent tr m =
     (let payload = marshal_game_event
            \<lparr>EventID = EventID m, OccurredAt = OccurredAt m, Version = Version m,
             GameID = TrGameID tr, RoomID = TrRoomID tr\<rparr>;
          event = (\<lambda>subject. \<lparr>ObID = EventID m, ObSubject = subject, ObPayload = payload,
                              ObCreatedAt = zero_time, ObAttemptCount = 0\<rparr>)
      in if TrType tr = GameLifecycleStarted then Inr (event SubjectGameStarted)
         else if TrType tr = GameLifecycleEnded then Inr (event SubjectGameEnded)
         else Inl (Errorf [Txt ''unsupported lifecycle transition '', Quoted (TrType tr)]))"

text \<open>
  The outbox writer is an interface: \<open>enq\<close> is its \<open>Enqueue\<close> over a state of its own. It also
  takes the time at which the database executes the call.
\<close>

type_synonym 's enqueue = "outbox_event \<Rightarrow> time \<Rightarrow> 's \<Rightarrow> 's \<times> (go_error + bool)"

record 's game_lifecycle_service =
  tracker :: game_lifecycle_tracker
  outbox :: 's
  pending :: "outbox_event option"

definition NewGameLifecycleService :: "'s \<Rightarrow> 's game_lifecycle_service" where
  "NewGameLifecycleService s = \<lparr>tracker = NewGameLifecycleTracker, outbox = s, pending = None\<rparr>"

text \<open>\<open>enqueuePending\<close> is only called with a pending event.\<close>

definition enqueuePending ::
  "'s enqueue \<Rightarrow> time \<Rightarrow> 's game_lifecycle_service \<Rightarrow> 's game_lifecycle_service \<times> (go_error + unit)" where
  "enqueuePending enq t st =
     (case pending st of
        None \<Rightarrow> (st, Inr ())
      | Some e \<Rightarrow>
          (case enq e t (outbox st) of
             (s, Inl err) \<Rightarrow> (st\<lparr>outbox := s\<rparr>,
               Inl (Errorf [Txt ''enqueue game event '', Quoted (ObID e), Txt '': '', Wrapped err]))
           | (s, Inr b) \<Rightarrow> (st\<lparr>outbox := s\<rparr>, Inr ())))"

text \<open>
  \<open>Observe\<close>: first the pending event of an earlier call; if that fails the observation is not
  looked at. \<open>rnd\<close> and \<open>now\<close> are what \<open>NewEventMetadata\<close> reads, \<open>t1\<close> and \<open>t2\<close> the database times.
\<close>

definition observe_transition ::
  "'s enqueue \<Rightarrow> go_error + 8 word list \<Rightarrow> time \<Rightarrow> time \<Rightarrow> string \<Rightarrow> int \<Rightarrow> string \<Rightarrow>
   's game_lifecycle_service \<Rightarrow> 's game_lifecycle_service \<times> (go_error + unit)" where
  "observe_transition enq rnd now t2 phase gameID roomID st =
     (case tracker_Observe phase gameID roomID (tracker st) of
        (t, None) \<Rightarrow> (st\<lparr>tracker := t\<rparr>, Inr ())
      | (t, Some tr) \<Rightarrow>
          (let st1 = st\<lparr>tracker := t\<rparr>
           in case NewEventMetadata rnd now of
                Inl e \<Rightarrow> (st1, Inl (Errorf [Txt ''create game event metadata: '', Wrapped e]))
              | Inr m \<Rightarrow>
                  (case newGameOutboxEvent tr m of
                     Inl e \<Rightarrow> (st1, Inl e)
                   | Inr ev \<Rightarrow>
                       (case enqueuePending enq t2 (st1\<lparr>pending := Some ev\<rparr>) of
                          (st2, Inl e) \<Rightarrow> (st2, Inl e)
                        | (st2, Inr u) \<Rightarrow> (st2\<lparr>pending := None\<rparr>, Inr ())))))"

definition Observe ::
  "'s enqueue \<Rightarrow> go_error + 8 word list \<Rightarrow> time \<Rightarrow> time \<Rightarrow> time \<Rightarrow> string \<Rightarrow> int \<Rightarrow> string \<Rightarrow>
   's game_lifecycle_service \<Rightarrow> 's game_lifecycle_service \<times> (go_error + unit)" where
  "Observe enq rnd now t1 t2 phase gameID roomID st =
     (if pending st \<noteq> None then
        (case enqueuePending enq t1 st of
           (st1, Inl e) \<Rightarrow> (st1, Inl e)
         | (st1, Inr u) \<Rightarrow>
             observe_transition enq rnd now t2 phase gameID roomID (st1\<lparr>pending := None\<rparr>))
      else observe_transition enq rnd now t2 phase gameID roomID st)"

text \<open>What \<open>Enqueue\<close> keeps of the writer's state, an observation keeps.\<close>

lemma enqueuePending_outbox:
  assumes "enqueuePending enq t st = (st', res)" "I (outbox st)"
    and "\<And>e t s s' r. enq e t s = (s', r) \<Longrightarrow> I s \<Longrightarrow> I s'"
  shows "I (outbox st')"
proof (cases "pending st")
  case None
  with assms(1,2) show ?thesis by (simp add: enqueuePending_def)
next
  case (Some e)
  obtain s q where q: "enq e t (outbox st) = (s, q)" by (meson surj_pair)
  with assms(1) Some have "outbox st' = s" by (auto simp: enqueuePending_def split: sum.splits)
  with assms(3) [OF q assms(2)] show ?thesis by simp
qed

lemma observe_transition_outbox:
  assumes "observe_transition enq rnd now t2 phase g r st = (st', res)" "I (outbox st)"
    and "\<And>e t s s' r. enq e t s = (s', r) \<Longrightarrow> I s \<Longrightarrow> I s'"
  shows "I (outbox st')"
proof -
  have "I (outbox st2)" if "enqueuePending enq t2 (st\<lparr>tracker := t, pending := Some ev\<rparr>) = (st2, q)" for t ev st2 q
    using enqueuePending_outbox [OF that, of I] assms(2,3) by simp
  with assms(1,2) show ?thesis
    by (auto simp: observe_transition_def Let_def split: prod.splits option.splits sum.splits)
qed

lemma Observe_outbox:
  assumes "Observe enq rnd now t1 t2 phase g r st = (st', res)" "I (outbox st)"
    and "\<And>e t s s' r. enq e t s = (s', r) \<Longrightarrow> I s \<Longrightarrow> I s'"
  shows "I (outbox st')"
proof (cases "pending st")
  case None
  with assms(1) have "observe_transition enq rnd now t2 phase g r st = (st', res)" by (simp add: Observe_def)
  from observe_transition_outbox [of _ _ _ _ _ _ _ _ _ _ I, OF this assms(2)] assms(3) show ?thesis by blast
next
  case (Some e)
  obtain st1 q where p: "enqueuePending enq t1 st = (st1, q)" by (meson surj_pair)
  have i: "I (outbox st1)" using enqueuePending_outbox [of _ _ _ _ _ I, OF p assms(2)] assms(3) by blast
  show ?thesis
  proof (cases q)
    case (Inl er)
    with assms(1) p Some i show ?thesis by (simp add: Observe_def)
  next
    case (Inr u)
    with assms(1) p Some have "observe_transition enq rnd now t2 phase g r (st1\<lparr>pending := None\<rparr>) = (st', res)"
      by (simp add: Observe_def)
    from observe_transition_outbox [of _ _ _ _ _ _ _ _ _ _ I, OF this] i assms(3) show ?thesis by auto
  qed
qed

section \<open>The transitions of a sequence of observations\<close>

fun tracker_run ::
  "game_lifecycle_tracker \<Rightarrow> (string \<times> int \<times> string) list \<Rightarrow> game_lifecycle_transition list" where
  "tracker_run t [] = []"
| "tracker_run t ((phase, g, r) # obs) =
     (case tracker_Observe phase g r t of
        (t', None) \<Rightarrow> tracker_run t' obs
      | (t', Some tr) \<Rightarrow> tr # tracker_run t' obs)"

text \<open>Started and ended alternate; the flag says which comes next.\<close>

fun alternating :: "bool \<Rightarrow> game_lifecycle_transition list \<Rightarrow> bool" where
  "alternating s [] = True"
| "alternating s (tr # trs) \<longleftrightarrow>
     TrType tr = (if s then GameLifecycleEnded else GameLifecycleStarted) \<and> alternating (\<not> s) trs"

definition tracker_ok :: "game_lifecycle_tracker \<Rightarrow> bool" where
  "tracker_ok t \<longleftrightarrow> (t_started t \<longrightarrow> 0 < t_gameID t \<and> t_roomID t \<noteq> [])"

lemma lifecycle_types [simp]: "GameLifecycleStarted \<noteq> GameLifecycleEnded"
  "GameLifecycleEnded \<noteq> GameLifecycleStarted"
  by (simp_all add: GameLifecycleStarted_def GameLifecycleEnded_def)

lemma tracker_cases:
  assumes "tracker_Observe phase g r t = (t', res)"
  obtains (select) "phase = ''ChampSelect''" "res = None" "0 < g" "r \<noteq> []" "t' = t\<lparr>t_gameID := g, t_roomID := r\<rparr>"
  | (start) "\<not> t_started t" "0 < t_gameID t" "t_roomID t \<noteq> []" "t' = t\<lparr>t_started := True\<rparr>"
      "res = Some \<lparr>TrType = GameLifecycleStarted, TrGameID = t_gameID t, TrRoomID = t_roomID t\<rparr>"
  | (finish) "t_started t" "t' = reset"
      "res = Some \<lparr>TrType = GameLifecycleEnded, TrGameID = t_gameID t, TrRoomID = t_roomID t\<rparr>"
  | (idle) "\<not> t_started t" "t' = reset" "res = None"
  | (same) "t' = t" "res = None"
proof -
  consider (a) "phase = ''ChampSelect''" "0 < g" "r \<noteq> []"
    | (b) "phase = ''ChampSelect''" "\<not> (0 < g \<and> r \<noteq> [])"
    | (c) "phase = ''InProgress''" "\<not> t_started t" "0 < t_gameID t" "t_roomID t \<noteq> []"
    | (d) "phase = ''InProgress''" "\<not> (\<not> t_started t \<and> 0 < t_gameID t \<and> t_roomID t \<noteq> [])"
    | (e) "phase = ''WaitingForStats'' \<or> phase = ''PreEndOfGame'' \<or> phase = ''EndOfGame''" "t_started t"
    | (f) "phase = ''WaitingForStats'' \<or> phase = ''PreEndOfGame'' \<or> phase = ''EndOfGame''" "\<not> t_started t"
    | (g) "phase = ''Lobby'' \<or> phase = ''None''" "\<not> t_started t"
    | (h) "phase = ''Lobby'' \<or> phase = ''None''" "t_started t"
    | (i) "phase \<notin> {''ChampSelect'', ''InProgress'', ''WaitingForStats'', ''PreEndOfGame'', ''EndOfGame'', ''Lobby'', ''None''}"
    unfolding insert_iff empty_iff by satx
  then show thesis
  proof cases
    case a
    with assms have "res = None" "t' = t\<lparr>t_gameID := g, t_roomID := r\<rparr>" by (simp_all add: tracker_Observe_def)
    with a select show thesis by blast
  next
    case b
    with assms have "t' = t" "res = None" by (auto simp: tracker_Observe_def)
    then show thesis by (rule same)
  next
    case c
    with assms have "t' = t\<lparr>t_started := True\<rparr>"
      "res = Some \<lparr>TrType = GameLifecycleStarted, TrGameID = t_gameID t, TrRoomID = t_roomID t\<rparr>"
      by (simp_all add: tracker_Observe_def)
    with c start show thesis by blast
  next
    case d
    with assms have "t' = t" "res = None" by (auto simp: tracker_Observe_def)
    then show thesis by (rule same)
  next
    case e
    with assms have "t' = reset"
      "res = Some \<lparr>TrType = GameLifecycleEnded, TrGameID = t_gameID t, TrRoomID = t_roomID t\<rparr>"
      by (auto simp: tracker_Observe_def)
    with e finish show thesis by blast
  next
    case f
    with assms have "t' = t" "res = None" by (auto simp: tracker_Observe_def)
    then show thesis by (rule same)
  next
    case g
    with assms have "t' = reset" "res = None" by (auto simp: tracker_Observe_def)
    with g idle show thesis by blast
  next
    case h
    with assms have "t' = t" "res = None" by (auto simp: tracker_Observe_def)
    then show thesis by (rule same)
  next
    case i
    with assms have "t' = t" "res = None" by (auto simp: tracker_Observe_def)
    then show thesis by (rule same)
  qed
qed

lemma tracker_steps:
  assumes "tracker_Observe phase g r t = (t', res)" "tracker_ok t"
  shows "tracker_ok t' \<and> (case res of
      None \<Rightarrow> t_started t' = t_started t
    | Some tr \<Rightarrow> TrType tr = (if t_started t then GameLifecycleEnded else GameLifecycleStarted) \<and>
        t_started t' = (\<not> t_started t) \<and> 0 < TrGameID tr \<and> TrRoomID tr \<noteq> [] \<and>
        TrGameID tr = t_gameID t \<and> TrRoomID tr = t_roomID t \<and>
        (\<not> t_started t \<longrightarrow> t_gameID t' = t_gameID t \<and> t_roomID t' = t_roomID t))"
  using assms(1)
proof (cases rule: tracker_cases)
  case select
  then show ?thesis using assms(2) by (simp add: tracker_ok_def)
next
  case start
  then show ?thesis by (simp add: tracker_ok_def)
next
  case finish
  then show ?thesis using assms(2) by (simp add: tracker_ok_def reset_def)
next
  case idle
  then show ?thesis by (simp add: tracker_ok_def reset_def)
next
  case same
  then show ?thesis using assms(2) by simp
qed

lemma tracker_step:
  assumes "tracker_Observe phase g r t = (t', res)" "tracker_ok t"
  shows "tracker_ok t'"
    and "res = None \<Longrightarrow> t_started t' = t_started t"
    and "res = Some tr \<Longrightarrow> TrType tr = (if t_started t then GameLifecycleEnded else GameLifecycleStarted) \<and>
           t_started t' = (\<not> t_started t) \<and> 0 < TrGameID tr \<and> TrRoomID tr \<noteq> [] \<and>
           TrGameID tr = t_gameID t \<and> TrRoomID tr = t_roomID t"
    and "res = Some tr \<Longrightarrow> \<not> t_started t \<Longrightarrow> t_gameID t' = t_gameID t \<and> t_roomID t' = t_roomID t"
  using tracker_steps [OF assms] by auto

lemma tracker_run_alternating:
  "tracker_ok t \<Longrightarrow> alternating (t_started t) (tracker_run t obs) \<and>
     (\<forall>tr \<in> set (tracker_run t obs). 0 < TrGameID tr \<and> TrRoomID tr \<noteq> [])"
proof (induction obs arbitrary: t)
  case (Cons ob obs)
  obtain phase g r where ob: "ob = (phase, g, r)" by (cases ob)
  obtain t' res where st: "tracker_Observe phase g r t = (t', res)" by (meson surj_pair)
  note step = tracker_step [OF st Cons.prems]
  from Cons.IH [OF step(1)] show ?case
  proof (cases res)
    case None
    with Cons.IH [OF step(1)] step(2) st show ?thesis by (simp add: ob)
  next
    case (Some tr)
    from step(3) [OF Some] Cons.IH [OF step(1)] st Some show ?thesis by (auto simp: ob)
  qed
qed simp

text \<open>A client that opens no Champion Select while a game runs.\<close>

fun orderly :: "game_lifecycle_tracker \<Rightarrow> (string \<times> int \<times> string) list \<Rightarrow> bool" where
  "orderly t [] = True"
| "orderly t ((phase, g, r) # obs) \<longleftrightarrow> \<not> (t_started t \<and> phase = ''ChampSelect'') \<and>
     orderly (fst (tracker_Observe phase g r t)) obs"

text \<open>Every end names the game of the start before it; \<open>cur\<close> is the game that runs.\<close>

fun paired :: "(int \<times> string) option \<Rightarrow> game_lifecycle_transition list \<Rightarrow> bool" where
  "paired cur [] = True"
| "paired cur (tr # trs) \<longleftrightarrow>
     (case cur of
        None \<Rightarrow> TrType tr = GameLifecycleStarted \<and> paired (Some (TrGameID tr, TrRoomID tr)) trs
      | Some gr \<Rightarrow> TrType tr = GameLifecycleEnded \<and> (TrGameID tr, TrRoomID tr) = gr \<and> paired None trs)"

definition running :: "game_lifecycle_tracker \<Rightarrow> (int \<times> string) option" where
  "running t = (if t_started t then Some (t_gameID t, t_roomID t) else None)"

lemma tracker_orderly_step:
  assumes "tracker_Observe phase g r t = (t', None)" "\<not> (t_started t \<and> phase = ''ChampSelect'')"
  shows "running t' = running t"
  using assms(1)
proof (cases rule: tracker_cases)
  case select
  then show ?thesis using assms(2) by (simp add: running_def)
next
  case idle
  then show ?thesis by (simp add: running_def reset_def)
qed simp_all

lemma tracker_run_paired:
  "tracker_ok t \<Longrightarrow> orderly t obs \<Longrightarrow> paired (running t) (tracker_run t obs)"
proof (induction obs arbitrary: t)
  case (Cons ob obs)
  obtain phase g r where ob: "ob = (phase, g, r)" by (cases ob)
  obtain t' res where st: "tracker_Observe phase g r t = (t', res)" by (meson surj_pair)
  note step = tracker_step [OF st Cons.prems(1)]
  have o: "orderly t' obs" "\<not> (t_started t \<and> phase = ''ChampSelect'')"
    using Cons.prems(2) st by (simp_all add: ob)
  note IH = Cons.IH [OF step(1) o(1)]
  show ?case
  proof (cases res)
    case None
    with IH st tracker_orderly_step [OF _ o(2)] show ?thesis by (simp add: ob)
  next
    case (Some tr)
    from step(3) [OF Some] step(4) [OF Some] IH st Some show ?thesis
      by (cases "t_started t") (auto simp: ob running_def)
  qed
qed simp

section \<open>The outbox writer as an interface\<close>

definition content :: "outbox_event \<Rightarrow> string \<times> string \<times> game_payload" where
  "content e = (ObID e, ObSubject e, ObPayload e)"

text \<open>
  \<open>stored\<close> is the content of the outbox. A call that succeeds leaves an event with the
  identifier in it; a new event is appended, a known identifier changes nothing, and a failed
  call has one of the two effects.
\<close>

locale outbox_writer =
  fixes enq :: "'s enqueue" and stored :: "'s \<Rightarrow> (string \<times> string \<times> game_payload) list"
  assumes enq_effect: "enq e t s = (s', res) \<Longrightarrow> stored s' = stored s \<or>
      ObID e \<notin> fst ` set (stored s) \<and> stored s' = stored s @ [content e]"
    and enq_Inr: "enq e t s = (s', Inr b) \<Longrightarrow> ObID e \<in> fst ` set (stored s')"
begin

text \<open>The event is safe: it is stored, or pending with no other event under its identifier.\<close>

definition secured :: "'s game_lifecycle_service \<Rightarrow> outbox_event \<Rightarrow> bool" where
  "secured st e \<longleftrightarrow> content e \<in> set (stored (outbox st)) \<or> pending st = Some e"

definition unambiguous :: "'s game_lifecycle_service \<Rightarrow> bool" where
  "unambiguous st \<longleftrightarrow> (\<forall>e. pending st = Some e \<longrightarrow>
     (\<forall>c \<in> set (stored (outbox st)). fst c = ObID e \<longrightarrow> c = content e))"

lemma enqueuePending_step:
  assumes "enqueuePending enq t st = (st', res)" "unambiguous st" "pending st = Some e"
  shows "unambiguous st' \<and> pending st' = Some e \<and> tracker st' = tracker st"
    and "set (stored (outbox st)) \<subseteq> set (stored (outbox st'))"
    and "set (stored (outbox st')) \<subseteq> set (stored (outbox st)) \<union> {content e}"
    and "res = Inr u \<Longrightarrow> content e \<in> set (stored (outbox st'))"
proof -
  obtain s q where q: "enq e t (outbox st) = (s, q)" by (meson surj_pair)
  from assms(1,3) q have st': "st' = st\<lparr>outbox := s\<rparr>"
    by (auto simp: enqueuePending_def split: sum.splits)
  note eff = enq_effect [OF q]
  show una: "unambiguous st' \<and> pending st' = Some e \<and> tracker st' = tracker st"
    using eff assms(2,3) by (auto simp: st' unambiguous_def content_def)
  show "set (stored (outbox st)) \<subseteq> set (stored (outbox st'))" using eff by (auto simp: st')
  show "set (stored (outbox st')) \<subseteq> set (stored (outbox st)) \<union> {content e}" using eff by (auto simp: st')
  show "content e \<in> set (stored (outbox st'))" if "res = Inr u"
  proof -
    from assms(1,3) q that have "\<exists>b. q = Inr b" by (auto simp: enqueuePending_def split: sum.splits)
    with q enq_Inr have "ObID e \<in> fst ` set (stored (outbox st'))" by (auto simp: st')
    with una show ?thesis by (auto simp: unambiguous_def)
  qed
qed

text \<open>
  The metadata of a call is fresh when its identifier is in no stored or pending event.
\<close>

definition fresh :: "go_error + 8 word list \<Rightarrow> 's game_lifecycle_service \<Rightarrow> bool" where
  "fresh rnd st \<longleftrightarrow> (\<forall>i. newEventID rnd = Inr i \<longrightarrow> i \<notin> fst ` set (stored (outbox st)) \<and>
     (\<forall>e. pending st = Some e \<longrightarrow> ObID e \<noteq> i))"

lemma observe_transition_step:
  assumes "observe_transition enq rnd now t2 phase g r st = (st', res)" "pending st = None" "fresh rnd st"
  shows "unambiguous st'" and "secured st e \<Longrightarrow> secured st' e"
    and "res = Inr u \<Longrightarrow> pending st' = None"
    and "tracker_Observe phase g r (tracker st) = (t', Some tr) \<Longrightarrow> NewEventMetadata rnd now = Inr m \<Longrightarrow>
         newGameOutboxEvent tr m = Inr ev \<Longrightarrow> secured st' ev"
    and "tracker_Observe phase g r (tracker st) = (t', Some tr) \<Longrightarrow> res = Inr u \<Longrightarrow>
         \<exists>m ev. NewEventMetadata rnd now = Inr m \<and> newGameOutboxEvent tr m = Inr ev"
proof -
  obtain t q where t: "tracker_Observe phase g r (tracker st) = (t, q)" by (meson surj_pair)
  have *: "unambiguous st' \<and> (secured st e \<longrightarrow> secured st' e) \<and> (res = Inr u \<longrightarrow> pending st' = None) \<and>
     (\<forall>tr m ev. q = Some tr \<longrightarrow> NewEventMetadata rnd now = Inr m \<longrightarrow> newGameOutboxEvent tr m = Inr ev \<longrightarrow> secured st' ev) \<and>
     (\<forall>tr. q = Some tr \<longrightarrow> res = Inr u \<longrightarrow> (\<exists>m ev. NewEventMetadata rnd now = Inr m \<and> newGameOutboxEvent tr m = Inr ev))"
  proof (cases "\<exists>tr m ev. q = Some tr \<and> NewEventMetadata rnd now = Inr m \<and> newGameOutboxEvent tr m = Inr ev")
    case False
    then have "st' = st\<lparr>tracker := t\<rparr>" "(\<exists>x. res = Inl x) \<or> q = None"
      using assms(1) t
      by (auto simp: observe_transition_def Let_def split: option.splits sum.splits prod.splits)
    with False assms(2) show ?thesis by (auto simp: unambiguous_def secured_def)
  next
    case True
    then obtain tr m ev where tr: "q = Some tr" "NewEventMetadata rnd now = Inr m" "newGameOutboxEvent tr m = Inr ev"
      by blast
    have ev: "newEventID rnd = Inr (ObID ev)"
      using tr(2,3) by (auto simp: NewEventMetadata_def newGameOutboxEvent_def Let_def split: sum.splits if_splits)
    let ?st = "st\<lparr>tracker := t, pending := Some ev\<rparr>"
    obtain st2 q2 where e: "enqueuePending enq t2 ?st = (st2, q2)" by (meson surj_pair)
    have "fst c \<noteq> ObID ev" if "c \<in> set (stored (outbox st))" for c
      using assms(3) ev that unfolding fresh_def by (metis imageI)
    then have un: "unambiguous ?st" by (auto simp: unambiguous_def)
    note step = enqueuePending_step [OF e un]
    from assms(1) t tr e have st': "st' = (if isl q2 then st2 else st2\<lparr>pending := None\<rparr>)" "res = q2"
      by (auto simp: observe_transition_def Let_def split: sum.splits)
    show ?thesis
    proof (cases q2)
      case (Inl er)
      with step(1-2) st' assms(2) tr show ?thesis by (auto simp: secured_def)
    next
      case (Inr u2)
      with step(1-4) st' assms(2) tr show ?thesis by (auto simp: secured_def unambiguous_def)
    qed
  qed
  then show "unambiguous st'" "secured st e \<Longrightarrow> secured st' e" "res = Inr u \<Longrightarrow> pending st' = None"
    by auto
  show "secured st' ev" if "tracker_Observe phase g r (tracker st) = (t', Some tr)"
    "NewEventMetadata rnd now = Inr m" "newGameOutboxEvent tr m = Inr ev"
    using * that t by auto
  show "\<exists>m ev. NewEventMetadata rnd now = Inr m \<and> newGameOutboxEvent tr m = Inr ev"
    if "tracker_Observe phase g r (tracker st) = (t', Some tr)" "res = Inr u"
    using * that t by auto
qed

lemma Observe_step:
  assumes "Observe enq rnd now t1 t2 phase g r st = (st', res)" "unambiguous st" "fresh rnd st"
  shows "unambiguous st'" and "secured st e \<Longrightarrow> secured st' e"
    and "res = Inr u \<Longrightarrow> pending st' = None"
    and "res = Inr u \<Longrightarrow> tracker_Observe phase g r (tracker st) = (t', Some tr) \<Longrightarrow>
         \<exists>m ev. NewEventMetadata rnd now = Inr m \<and> newGameOutboxEvent tr m = Inr ev \<and> secured st' ev"
proof -
  have *: "unambiguous st' \<and> (secured st e \<longrightarrow> secured st' e) \<and> (res = Inr u \<longrightarrow> pending st' = None) \<and>
     (\<forall>t' tr. res = Inr u \<longrightarrow> tracker_Observe phase g r (tracker st) = (t', Some tr) \<longrightarrow>
        (\<exists>m ev. NewEventMetadata rnd now = Inr m \<and> newGameOutboxEvent tr m = Inr ev \<and> secured st' ev))"
  proof (cases "pending st")
    case None
    then have o: "observe_transition enq rnd now t2 phase g r st = (st', res)"
      using assms(1) by (simp add: Observe_def)
    from observe_transition_step [OF o None assms(3)] show ?thesis by blast
  next
    case (Some e0)
    obtain st1 q1 where p: "enqueuePending enq t1 st = (st1, q1)" by (meson surj_pair)
    note step = enqueuePending_step [OF p assms(2) Some]
    show ?thesis
    proof (cases q1)
      case (Inl er)
      with assms(1) p Some have "st' = st1" "res = Inl er" by (simp_all add: Observe_def)
      with step(1,2) Some show ?thesis by (auto simp: secured_def)
    next
      case (Inr v)
      let ?st = "st1\<lparr>pending := None\<rparr>"
      from assms(1) p Some Inr have o: "observe_transition enq rnd now t2 phase g r ?st = (st', res)"
        by (simp add: Observe_def)
      have sub: "fst ` set (stored (outbox st1)) \<subseteq> fst ` set (stored (outbox st)) \<union> {ObID e0}"
        using image_mono [OF step(3), of fst] by (simp add: content_def)
      have f: "fresh rnd ?st"
        unfolding fresh_def
      proof (intro allI impI conjI)
        fix i assume "newEventID rnd = Inr i"
        from assms(3) [unfolded fresh_def, rule_format, OF this] Some
        have n: "i \<notin> fst ` set (stored (outbox st))" "ObID e0 \<noteq> i" by blast+
        have "outbox ?st = outbox st1" by simp
        with sub n show "i \<notin> fst ` set (stored (outbox ?st))" by auto
      qed simp
      have sec: "secured st e \<longrightarrow> secured ?st e"
        using step(2) step(4) [OF Inr] Some by (auto simp: secured_def)
      have tr: "tracker ?st = tracker st" using step(1) by simp
      have pn: "pending ?st = None" by simp
      from observe_transition_step [OF o pn f, unfolded tr] sec show ?thesis by blast
    qed
  qed
  then show "unambiguous st'" "secured st e \<Longrightarrow> secured st' e" "res = Inr u \<Longrightarrow> pending st' = None"
    by auto
  show "\<exists>m ev. NewEventMetadata rnd now = Inr m \<and> newGameOutboxEvent tr m = Inr ev \<and> secured st' ev"
    if "res = Inr u" "tracker_Observe phase g r (tracker st) = (t', Some tr)"
    using * that by blast
qed

text \<open>
  Where events come from: a predicate that holds of the stored and the pending events, and of the
  one a call may form, holds of those after it.
\<close>

definition every_event :: "((string \<times> string \<times> game_payload) \<Rightarrow> bool) \<Rightarrow> 's game_lifecycle_service \<Rightarrow> bool" where
  "every_event P st \<longleftrightarrow> (\<forall>c \<in> set (stored (outbox st)). P c) \<and> (\<forall>e. pending st = Some e \<longrightarrow> P (content e))"

lemma every_event_enqueuePending:
  assumes "enqueuePending enq t st = (st', res)" "every_event P st"
  shows "every_event P st' \<and> tracker st' = tracker st"
proof (cases "pending st")
  case None
  with assms show ?thesis by (simp add: enqueuePending_def)
next
  case (Some e)
  obtain s q where q: "enq e t (outbox st) = (s, q)" by (meson surj_pair)
  from assms(1) Some q have "st' = st\<lparr>outbox := s\<rparr>" by (auto simp: enqueuePending_def split: sum.splits)
  with enq_effect [OF q] assms(2) Some show ?thesis by (auto simp: every_event_def)
qed

lemma every_event_transition:
  assumes "observe_transition enq rnd now t2 phase g r st = (st', res)" "every_event P st"
    and "\<And>t tr m ev. tracker_Observe phase g r (tracker st) = (t, Some tr) \<Longrightarrow> NewEventMetadata rnd now = Inr m \<Longrightarrow>
           newGameOutboxEvent tr m = Inr ev \<Longrightarrow> P (content ev)"
  shows "every_event P st' \<and> tracker st' = fst (tracker_Observe phase g r (tracker st))"
proof -
  obtain t q where t: "tracker_Observe phase g r (tracker st) = (t, q)" by (meson surj_pair)
  show ?thesis
  proof (cases "\<exists>tr m ev. q = Some tr \<and> NewEventMetadata rnd now = Inr m \<and> newGameOutboxEvent tr m = Inr ev")
    case False
    then have "st' = st\<lparr>tracker := t\<rparr>"
      using assms(1) t by (auto simp: observe_transition_def Let_def split: option.splits sum.splits prod.splits)
    with assms(2) t show ?thesis by (simp add: every_event_def)
  next
    case True
    then obtain tr m ev where tr: "q = Some tr" "NewEventMetadata rnd now = Inr m" "newGameOutboxEvent tr m = Inr ev"
      by blast
    let ?st = "st\<lparr>tracker := t, pending := Some ev\<rparr>"
    obtain st2 q2 where e: "enqueuePending enq t2 ?st = (st2, q2)" by (meson surj_pair)
    have "every_event P ?st" using assms(2) assms(3) [OF t [unfolded tr(1)] tr(2,3)] by (simp add: every_event_def)
    from every_event_enqueuePending [OF e this] have "every_event P st2" "tracker st2 = t" by simp_all
    moreover from assms(1) t tr e have "st' = (if isl q2 then st2 else st2\<lparr>pending := None\<rparr>)"
      by (auto simp: observe_transition_def Let_def split: sum.splits)
    ultimately show ?thesis using t by (simp add: every_event_def)
  qed
qed

lemma every_event_Observe:
  assumes "Observe enq rnd now t1 t2 phase g r st = (st', res)" "every_event P st"
    and "\<And>t tr m ev. tracker_Observe phase g r (tracker st) = (t, Some tr) \<Longrightarrow> NewEventMetadata rnd now = Inr m \<Longrightarrow>
           newGameOutboxEvent tr m = Inr ev \<Longrightarrow> P (content ev)"
  shows "every_event P st' \<and> (tracker st' = tracker st \<or> tracker st' = fst (tracker_Observe phase g r (tracker st)))"
proof (cases "pending st")
  case None
  then have "observe_transition enq rnd now t2 phase g r st = (st', res)" using assms(1) by (simp add: Observe_def)
  from every_event_transition [OF this assms(2)] assms(3) show ?thesis by blast
next
  case (Some e)
  obtain st1 q1 where p: "enqueuePending enq t1 st = (st1, q1)" by (meson surj_pair)
  note step = every_event_enqueuePending [OF p assms(2)]
  show ?thesis
  proof (cases q1)
    case (Inl er)
    with assms(1) p Some have "st' = st1" by (simp add: Observe_def)
    with step show ?thesis by simp
  next
    case (Inr u)
    let ?st = "st1\<lparr>pending := None\<rparr>"
    from assms(1) p Some Inr have o: "observe_transition enq rnd now t2 phase g r ?st = (st', res)"
      by (simp add: Observe_def)
    have tr: "tracker ?st = tracker st" using step by simp
    have "every_event P ?st" using step by (simp add: every_event_def)
    from every_event_transition [OF o this] assms(3) show ?thesis unfolding tr by blast
  qed
qed

end

section \<open>The PostgreSQL outbox as a writer\<close>

definition row_contents :: "outbox_db \<Rightarrow> (string \<times> string \<times> game_payload) list" where
  "row_contents db = map (\<lambda>x. (row_id x, row_subject x, row_payload x)) (outbox_rows db)"

lemma fst_row_contents: "fst ` set (row_contents db) = row_id ` set (outbox_rows db)"
  by (simp add: row_contents_def image_image)

interpretation pg_outbox: outbox_writer Enqueue row_contents
proof
  fix e t s s' res
  assume e: "Enqueue e t s = (s', res)"
  show "row_contents s' = row_contents s \<or>
      ObID e \<notin> fst ` set (row_contents s) \<and> row_contents s' = row_contents s @ [content e]"
    using Enqueue_rows(1) [OF e] insert_row_cases [of e t "outbox_rows s"]
    unfolding fst_row_contents by (auto simp: row_contents_def content_def)
next
  fix e t s s' b
  assume e: "Enqueue e t s = (s', Inr b)"
  show "ObID e \<in> fst ` set (row_contents s')"
    using Enqueue_rows(2) [OF e refl] insert_row_cases [of e t "outbox_rows s"]
    unfolding fst_row_contents by force
qed

section \<open>Properties\<close>

text \<open>
  For every sequence of client phases, the transitions alternate between a started and
  an ended game, beginning with a start, and each names a positive game and a room.
\<close>

theorem lifecycle_transitions_alternate:
  "alternating False (tracker_run NewGameLifecycleTracker obs) \<and>
   (\<forall>tr \<in> set (tracker_run NewGameLifecycleTracker obs). 0 < TrGameID tr \<and> TrRoomID tr \<noteq> [])"
  using tracker_run_alternating [of NewGameLifecycleTracker obs]
  by (simp add: tracker_ok_def NewGameLifecycleTracker_def)

theorem lifecycle_transitions_alternate_witness:
  "\<exists>tr. tracker_run NewGameLifecycleTracker [(''ChampSelect'', 7, ''7-1''), (''InProgress'', 0, [])] = [tr] \<and> 0 < TrGameID tr"
  using lifecycle_transitions_alternate [of "[(''ChampSelect'', 7, ''7-1''), (''InProgress'', 0, [])]"]
  by (simp add: tracker_Observe_def NewGameLifecycleTracker_def)

text \<open>
  When the client opens no Champion Select while a game runs, every ended transition
  names the game and room of the start before it.
\<close>

theorem lifecycle_end_names_started_game:
  assumes "orderly NewGameLifecycleTracker obs"
  shows "paired None (tracker_run NewGameLifecycleTracker obs)"
  using tracker_run_paired [OF _ assms] by (simp add: tracker_ok_def running_def NewGameLifecycleTracker_def)

theorem lifecycle_end_names_started_game_witness:
  "paired None (tracker_run NewGameLifecycleTracker
     [(''ChampSelect'', 7, ''7-1''), (''InProgress'', 0, []), (''EndOfGame'', 0, [])])"
  by (rule lifecycle_end_names_started_game) (simp add: tracker_Observe_def NewGameLifecycleTracker_def)

text \<open>
  Without that condition the end can name another game: a Champion Select observed while the
  game runs overwrites the tracked identifiers.
\<close>

lemma lifecycle_end_of_other_game:
  "tracker_run NewGameLifecycleTracker
     [(''ChampSelect'', 7, ''7-1''), (''InProgress'', 0, []), (''ChampSelect'', 8, ''8-1''), (''EndOfGame'', 0, [])] =
   [\<lparr>TrType = GameLifecycleStarted, TrGameID = 7, TrRoomID = ''7-1''\<rparr>,
    \<lparr>TrType = GameLifecycleEnded, TrGameID = 8, TrRoomID = ''8-1''\<rparr>]"
  by (simp add: tracker_Observe_def NewGameLifecycleTracker_def)



end
