(* ===== verification/GameEvents.thy ===== *)
theory GameEvents
  imports Events "HOL-Library.AList"
begin

text \<open>
  The transactional inbox: the tables \<open>processed_events\<close> and \<open>game_sessions\<close> with the
  transaction of \<open>internal/repositories/postgres/gameevent/repository.go\<close>, the retention of
  \<open>processedevent/repository.go\<close> and \<open>processed_event_cleanup_service.go\<close>, and the consumer
  of game events (\<open>internal/consumers/game_consumer.go\<close>).
\<close>

section \<open>The interface of the repository\<close>

record repo_game_event =
  GeConsumerName :: string
  GeEventID :: string
  GeSubject :: string
  GeGameID :: int
  GeRoomID :: string
  GeOccurredAt :: time

record 's game_event_repo =
  ProcessGameStarted :: "repo_game_event \<Rightarrow> 's \<Rightarrow> 's \<times> (go_error + bool)"
  ProcessGameEnded :: "repo_game_event \<Rightarrow> 's \<Rightarrow> 's \<times> (go_error + bool)"

text \<open>
  The contract: \<open>seen\<close> are the keys of the events that were processed, \<open>data\<close> is what the
  events work on and \<open>eff\<close> their effect on it. A call processes an event that was not seen, or
  reports one that was; an error has either no effect or the whole one.
\<close>

definition unchanged :: "('s \<Rightarrow> 'k set) \<Rightarrow> ('s \<Rightarrow> 'd) \<Rightarrow> 's \<Rightarrow> 's \<Rightarrow> bool" where
  "unchanged seen data s s' \<longleftrightarrow> seen s' = seen s \<and> data s' = data s"

definition applied ::
  "('s \<Rightarrow> 'k set) \<Rightarrow> ('s \<Rightarrow> 'd) \<Rightarrow> (repo_game_event \<Rightarrow> 'k) \<Rightarrow> (repo_game_event \<Rightarrow> 'd \<Rightarrow> 'd option) \<Rightarrow>
   repo_game_event \<Rightarrow> 's \<Rightarrow> 's \<Rightarrow> bool" where
  "applied seen data key eff ev s s' \<longleftrightarrow>
     key ev \<notin> seen s \<and> seen s' = insert (key ev) (seen s) \<and> eff ev (data s) = Some (data s')"

definition once ::
  "('s \<Rightarrow> 'k set) \<Rightarrow> ('s \<Rightarrow> 'd) \<Rightarrow> (repo_game_event \<Rightarrow> 'k) \<Rightarrow> (repo_game_event \<Rightarrow> 'd \<Rightarrow> 'd option) \<Rightarrow>
   repo_game_event \<Rightarrow> 's \<Rightarrow> 's \<Rightarrow> go_error + bool \<Rightarrow> bool" where
  "once seen data key eff ev s s' res \<longleftrightarrow>
     (case res of
        Inr True \<Rightarrow> applied seen data key eff ev s s'
      | Inr False \<Rightarrow> unchanged seen data s s' \<and> key ev \<in> seen s
      | Inl e \<Rightarrow> unchanged seen data s s' \<or> applied seen data key eff ev s s')"

section \<open>The PostgreSQL implementation\<close>

text \<open>
  What the code relies on of the driver: the text of a \<open>UUID\<close> parameter is refused or brought
  to its canonical form, and a \<open>TIMESTAMPTZ\<close> parameter to the precision of the column.
\<close>

record pg_driver =
  uuid_of :: "string \<Rightarrow> go_error + string"
  timestamptz :: "time \<Rightarrow> time"

record processed_row =
  pe_key :: "string \<times> string"
  pe_subject :: string
  pe_processed_at :: time

record game_session =
  gs_room :: string
  gs_started_at :: time
  gs_ended_at :: "time option"

text \<open>\<open>created_at\<close> and \<open>updated_at\<close> of a session are never read and are left out.\<close>

record inbox_db =
  processed_events :: "processed_row list"
  game_sessions :: "(int \<times> game_session) list"
  inbox_faults :: "fault list"

definition validateRepoGameEvent :: "repo_game_event \<Rightarrow> go_error option" where
  "validateRepoGameEvent ev =
     (if GeConsumerName ev = [] then Some (Errorf [Txt ''consumer name is required''])
      else if GeEventID ev = [] then Some (Errorf [Txt ''event ID is required''])
      else if GeSubject ev = [] then Some (Errorf [Txt ''subject is required''])
      else if GeGameID ev \<le> 0 then Some (Errorf [Txt ''game ID must be positive''])
      else if GeRoomID ev = [] then Some (Errorf [Txt ''room ID is required''])
      else if IsZero (GeOccurredAt ev) then Some (Errorf [Txt ''occurredAt is required''])
      else None)"

text \<open>The insert of the event's key; the second component says whether a row was inserted.\<close>

definition claimEvent ::
  "pg_driver \<Rightarrow> time \<Rightarrow> go_error option \<Rightarrow> repo_game_event \<Rightarrow> inbox_db \<Rightarrow> go_error + inbox_db \<times> bool" where
  "claimEvent d db_now flt ev db =
     (let err = (\<lambda>e. Inl (Errorf [Txt ''claim game event '', Quoted (GeEventID ev), Txt '': '', Wrapped e]))
      in case flt of
           Some e \<Rightarrow> err e
         | None \<Rightarrow>
             (case uuid_of d (GeEventID ev) of
                Inl e \<Rightarrow> err e
              | Inr i \<Rightarrow>
                  if \<exists>x \<in> set (processed_events db). pe_key x = (GeConsumerName ev, i) then Inr (db, False)
                  else Inr (db\<lparr>processed_events := processed_events db @
                         [\<lparr>pe_key = (GeConsumerName ev, i), pe_subject = GeSubject ev, pe_processed_at = db_now\<rparr>]\<rparr>,
                       True)))"

text \<open>The upsert of a started game.\<close>

definition upsert_started :: "time \<Rightarrow> repo_game_event \<Rightarrow> (int \<times> game_session) list \<Rightarrow> (int \<times> game_session) list" where
  "upsert_started t ev gs =
     AList.update (GeGameID ev)
       (case map_of gs (GeGameID ev) of
          None \<Rightarrow> \<lparr>gs_room = GeRoomID ev, gs_started_at = t, gs_ended_at = None\<rparr>
        | Some g \<Rightarrow> g\<lparr>gs_room := GeRoomID ev, gs_started_at := min (gs_started_at g) t\<rparr>) gs"

text \<open>
  The update of an ended game: \<open>None\<close> when the row violates the check constraint
  \<open>game_sessions_ended_after_started\<close>; otherwise the rows and the number of rows affected.
\<close>

definition update_ended ::
  "time \<Rightarrow> repo_game_event \<Rightarrow> (int \<times> game_session) list \<Rightarrow> ((int \<times> game_session) list \<times> nat) option" where
  "update_ended t ev gs =
     (case map_of gs (GeGameID ev) of
        None \<Rightarrow> Some (gs, 0)
      | Some g \<Rightarrow>
          if gs_room g \<noteq> GeRoomID ev then Some (gs, 0)
          else
            (let ended = (case gs_ended_at g of None \<Rightarrow> t | Some t0 \<Rightarrow> if t < t0 then t else t0)
             in if ended < gs_started_at g then None
                else Some (AList.update (GeGameID ev) (g\<lparr>gs_ended_at := Some ended\<rparr>) gs, 1)))"

definition check_violation :: go_error where
  "check_violation = External ''game_sessions_ended_after_started''"

definition apply_started :: "pg_driver \<Rightarrow> repo_game_event \<Rightarrow> go_error option \<Rightarrow> inbox_db \<Rightarrow> go_error + inbox_db" where
  "apply_started d ev flt db =
     (case flt of
        Some e \<Rightarrow> Inl (Errorf [Txt ''upsert started game '', Num (GeGameID ev), Txt '': '', Wrapped e])
      | None \<Rightarrow> Inr (db\<lparr>game_sessions :=
          upsert_started (timestamptz d (GeOccurredAt ev)) ev (game_sessions db)\<rparr>))"

definition apply_ended :: "pg_driver \<Rightarrow> repo_game_event \<Rightarrow> go_error option \<Rightarrow> inbox_db \<Rightarrow> go_error + inbox_db" where
  "apply_ended d ev flt db =
     (let err = (\<lambda>e. Inl (Errorf [Txt ''end game '', Num (GeGameID ev), Txt '': '', Wrapped e]))
      in case flt of
           Some e \<Rightarrow> err e
         | None \<Rightarrow>
             (case update_ended (timestamptz d (GeOccurredAt ev)) ev (game_sessions db) of
                None \<Rightarrow> err check_violation
              | Some (gs, affected) \<Rightarrow>
                  if affected \<noteq> 1 then
                    Inl (Errorf [Txt ''started game '', Num (GeGameID ev), Txt '' for room '',
                                 Quoted (GeRoomID ev), Txt '' not found''])
                  else Inr (db\<lparr>game_sessions := gs\<rparr>)))"

text \<open>
  The transaction: begin, claim, apply and commit take one outcome each; what is returned
  before the commit is rolled back.
\<close>

definition process ::
  "pg_driver \<Rightarrow> time \<Rightarrow> repo_game_event \<Rightarrow> (go_error option \<Rightarrow> inbox_db \<Rightarrow> go_error + inbox_db) \<Rightarrow>
   inbox_db \<Rightarrow> inbox_db \<times> (go_error + bool)" where
  "process d db_now ev app db =
     (case validateRepoGameEvent ev of
        Some e \<Rightarrow> (db, Inl e)
      | None \<Rightarrow>
          (let f0 = inbox_faults db; f1 = rest_faults f0; f2 = rest_faults f1; f3 = rest_faults f2;
               f4 = rest_faults f3
           in case fault_error (next_fault f0) of
                Some e \<Rightarrow> (db\<lparr>inbox_faults := f1\<rparr>,
                  Inl (Errorf [Txt ''begin game event transaction: '', Wrapped e]))
              | None \<Rightarrow>
                  (case claimEvent d db_now (fault_error (next_fault f1)) ev db of
                     Inl e \<Rightarrow> (db\<lparr>inbox_faults := f2\<rparr>, Inl e)
                   | Inr (db1, claimed) \<Rightarrow>
                       if \<not> claimed then (db\<lparr>inbox_faults := f2\<rparr>, Inr False)
                       else
                         (case app (fault_error (next_fault f2)) db1 of
                            Inl e \<Rightarrow> (db\<lparr>inbox_faults := f3\<rparr>, Inl e)
                          | Inr db2 \<Rightarrow>
                              (case next_fault f3 of
                                 NoFault \<Rightarrow> (db2\<lparr>inbox_faults := f4\<rparr>, Inr True)
                               | FailBefore e \<Rightarrow> (db\<lparr>inbox_faults := f4\<rparr>,
                                   Inl (Errorf [Txt ''commit game event transaction: '', Wrapped e]))
                               | FailAfter e \<Rightarrow> (db2\<lparr>inbox_faults := f4\<rparr>,
                                   Inl (Errorf [Txt ''commit game event transaction: '', Wrapped e])))))))"

definition pg_ProcessGameStarted ::
  "pg_driver \<Rightarrow> time \<Rightarrow> repo_game_event \<Rightarrow> inbox_db \<Rightarrow> inbox_db \<times> (go_error + bool)" where
  "pg_ProcessGameStarted d db_now ev db = process d db_now ev (apply_started d ev) db"

definition pg_ProcessGameEnded ::
  "pg_driver \<Rightarrow> time \<Rightarrow> repo_game_event \<Rightarrow> inbox_db \<Rightarrow> inbox_db \<times> (go_error + bool)" where
  "pg_ProcessGameEnded d db_now ev db = process d db_now ev (apply_ended d ev) db"

definition pg_game_events :: "pg_driver \<Rightarrow> time \<Rightarrow> inbox_db game_event_repo" where
  "pg_game_events d db_now =
     \<lparr>ProcessGameStarted = pg_ProcessGameStarted d db_now, ProcessGameEnded = pg_ProcessGameEnded d db_now\<rparr>"

section \<open>Retention of processed events\<close>

definition DeleteProcessedBefore :: "time \<Rightarrow> inbox_db \<Rightarrow> inbox_db \<times> (go_error + nat)" where
  "DeleteProcessedBefore cutoff db =
     (if IsZero cutoff then (db, Inl (Errorf [Txt ''processed event cutoff is required'']))
      else
        (let db1 = db\<lparr>inbox_faults := rest_faults (inbox_faults db)\<rparr>;
             old = (\<lambda>x. pe_processed_at x < cutoff);
             db2 = db1\<lparr>processed_events := filter (\<lambda>x. \<not> old x) (processed_events db)\<rparr>;
             err = (\<lambda>e. Inl (Errorf [Txt ''delete processed events before '', Num cutoff, Txt '': '', Wrapped e]))
         in case next_fault (inbox_faults db) of
              NoFault \<Rightarrow> (db2, Inr (length (filter old (processed_events db))))
            | FailBefore e \<Rightarrow> (db1, err e)
            | FailAfter e \<Rightarrow> (db2, err e)))"

definition processedEventRetention :: duration where
  "processedEventRetention = 30 * 24 * hour"

definition ProcessedCleanup :: "time \<Rightarrow> inbox_db \<Rightarrow> inbox_db \<times> (go_error + nat)" where
  "ProcessedCleanup now db =
     (if IsZero now then (db, Inl (Errorf [Txt ''cleanup time is required'']))
      else
        (case DeleteProcessedBefore (now - processedEventRetention) db of
           (db', Inl e) \<Rightarrow> (db', Inl (Errorf [Txt ''cleanup processed events: '', Wrapped e]))
         | (db', Inr deleted) \<Rightarrow> (db', Inr deleted)))"

section \<open>The consumer\<close>

definition validateConsumedGameEvent :: "'a event_metadata_scheme \<Rightarrow> int \<Rightarrow> string \<Rightarrow> go_error option" where
  "validateConsumedGameEvent m gameID roomID =
     (if EventID m = [] then Some (Errorf [Txt ''event ID is required''])
      else if IsZero (OccurredAt m) then Some (Errorf [Txt ''occurredAt is required''])
      else if Version m \<le> 0 then Some (Errorf [Txt ''event version must be positive''])
      else if gameID \<le> 0 then Some (Errorf [Txt ''game ID must be positive''])
      else if roomID = [] then Some (Errorf [Txt ''room ID is required''])
      else None)"

text \<open>The consumer accepts exactly what the publisher would send.\<close>

lemma consumer_checks_as_publisher [simp]: "validateConsumedGameEvent = validateGameEvent"
  by (simp add: fun_eq_iff validateConsumedGameEvent_def validateGameEvent_def)

definition toRepositoryGameEvent :: "string \<Rightarrow> game_event \<Rightarrow> repo_game_event" where
  "toRepositoryGameEvent subject e =
     \<lparr>GeConsumerName = ConsumerGameEvents, GeEventID = EventID e, GeSubject = subject,
      GeGameID = GameID e, GeRoomID = RoomID e, GeOccurredAt = OccurredAt e\<rparr>"

definition handleGameStarted ::
  "'s game_event_repo \<Rightarrow> game_payload \<Rightarrow> 's \<Rightarrow> 's \<times> (go_error + unit)" where
  "handleGameStarted r bytes s =
     (case unmarshal_game_event bytes of
        Inl e \<Rightarrow> (s, Inl (Errorf [Txt ''decode game started event: '', Wrapped e]))
      | Inr event \<Rightarrow>
          (case validateConsumedGameEvent event (GameID event) (RoomID event) of
             Some e \<Rightarrow> (s, Inl (Errorf [Txt ''validate game started event: '', Wrapped e]))
           | None \<Rightarrow>
               (case ProcessGameStarted r (toRepositoryGameEvent SubjectGameStarted event) s of
                  (s', Inl e) \<Rightarrow> (s', Inl (Errorf [Txt ''process game started event '',
                    Quoted (EventID event), Txt '': '', Wrapped e]))
                | (s', Inr processed) \<Rightarrow> (s', Inr ()))))"

definition handleGameEnded ::
  "'s game_event_repo \<Rightarrow> game_payload \<Rightarrow> 's \<Rightarrow> 's \<times> (go_error + unit)" where
  "handleGameEnded r bytes s =
     (case unmarshal_game_event bytes of
        Inl e \<Rightarrow> (s, Inl (Errorf [Txt ''decode game ended event: '', Wrapped e]))
      | Inr event \<Rightarrow>
          (case validateConsumedGameEvent event (GameID event) (RoomID event) of
             Some e \<Rightarrow> (s, Inl (Errorf [Txt ''validate game ended event: '', Wrapped e]))
           | None \<Rightarrow>
               (case ProcessGameEnded r (toRepositoryGameEvent SubjectGameEnded event) s of
                  (s', Inl e) \<Rightarrow> (s', Inl (Errorf [Txt ''process game ended event '',
                    Quoted (EventID event), Txt '': '', Wrapped e]))
                | (s', Inr processed) \<Rightarrow> (s', Inr ()))))"

definition Handle ::
  "'s game_event_repo \<Rightarrow> string \<Rightarrow> game_payload \<Rightarrow> 's \<Rightarrow> 's \<times> (go_error + unit)" where
  "Handle r subject bytes s =
     (if subject = SubjectGameStarted then handleGameStarted r bytes s
      else if subject = SubjectGameEnded then handleGameEnded r bytes s
      else (s, Inl (Errorf [Txt ''unsupported game event subject '', Quoted subject])))"

section \<open>Exactly-once processing\<close>

text \<open>The event of a message that the consumer accepts.\<close>

definition accepted :: "string \<Rightarrow> game_payload \<Rightarrow> repo_game_event option" where
  "accepted subject bytes =
     (if subject = SubjectGameStarted \<or> subject = SubjectGameEnded then
        (case unmarshal_game_event bytes of
           Inl e \<Rightarrow> None
         | Inr event \<Rightarrow> (case validateGameEvent event (GameID event) (RoomID event) of
             Some e \<Rightarrow> None | None \<Rightarrow> Some (toRepositoryGameEvent subject event)))
      else None)"

text \<open>Deliveries: a time of the database, a subject and a payload each, in the order handled.\<close>

fun deliver_all ::
  "(time \<Rightarrow> 's game_event_repo) \<Rightarrow> (time \<times> string \<times> game_payload) list \<Rightarrow> 's \<Rightarrow> 's" where
  "deliver_all r [] s = s"
| "deliver_all r ((t, subject, bytes) # ds) s = deliver_all r ds (fst (Handle (r t) subject bytes s))"

fun fold_effects :: "(repo_game_event \<Rightarrow> 'd \<Rightarrow> 'd option) \<Rightarrow> repo_game_event list \<Rightarrow> 'd \<Rightarrow> 'd option" where
  "fold_effects eff [] x = Some x"
| "fold_effects eff (ev # evs) x = Option.bind (eff ev x) (fold_effects eff evs)"

locale event_inbox =
  fixes r :: "time \<Rightarrow> 's game_event_repo" and seen :: "'s \<Rightarrow> 'k set" and data :: "'s \<Rightarrow> 'd"
    and key :: "repo_game_event \<Rightarrow> 'k" and eff :: "repo_game_event \<Rightarrow> 'd \<Rightarrow> 'd option"
  assumes started: "ProcessGameStarted (r t) ev s = (s', res) \<Longrightarrow> GeSubject ev = SubjectGameStarted \<Longrightarrow>
      once seen data key eff ev s s' res"
    and ended: "ProcessGameEnded (r t) ev s = (s', res) \<Longrightarrow> GeSubject ev = SubjectGameEnded \<Longrightarrow>
      once seen data key eff ev s s' res"
begin

lemma Handle_once:
  assumes "Handle (r t) subject bytes s = (s', res)"
  shows "unchanged seen data s s' \<or>
      (\<exists>ev. accepted subject bytes = Some ev \<and> applied seen data key eff ev s s')"
    and "res = Inr u \<Longrightarrow> \<exists>ev. accepted subject bytes = Some ev \<and> key ev \<in> seen s'"
proof -
  have "(unchanged seen data s s' \<or>
      (\<exists>ev. accepted subject bytes = Some ev \<and> applied seen data key eff ev s s')) \<and>
     (res = Inr u \<longrightarrow> (\<exists>ev. accepted subject bytes = Some ev \<and> key ev \<in> seen s'))"
  proof (cases "accepted subject bytes")
    case None
    then have "s' = s" "\<exists>e. res = Inl e"
      using assms
      by (auto simp: accepted_def Handle_def handleGameStarted_def handleGameEnded_def
          split: if_splits sum.splits option.splits)
    then show ?thesis by (auto simp: unchanged_def)
  next
    case (Some ev)
    then have sub: "GeSubject ev = subject" "subject = SubjectGameStarted \<or> subject = SubjectGameEnded"
      by (auto simp: accepted_def toRepositoryGameEvent_def split: if_splits sum.splits option.splits)
    define proc where "proc = (if subject = SubjectGameStarted then ProcessGameStarted (r t) else ProcessGameEnded (r t))"
    obtain s1 q where q: "proc ev s = (s1, q)" by (meson surj_pair)
    from sub q started [of t ev s s1 q] ended [of t ev s s1 q] have o: "once seen data key eff ev s s1 q"
      by (auto simp: proc_def split: if_splits)
    from Some assms q sub(2) have s': "s' = s1" "isl res = isl q"
      by (auto simp: accepted_def Handle_def handleGameStarted_def handleGameEnded_def proc_def
          SubjectGameStarted_def SubjectGameEnded_def split: if_splits sum.splits option.splits)
    show ?thesis
    proof (cases q)
      case (Inl e)
      with o s' Some show ?thesis by (auto simp: once_def)
    next
      case (Inr b)
      with o s' Some show ?thesis
        by (cases b) (auto simp: once_def unchanged_def applied_def)
    qed
  qed
  then show "unchanged seen data s s' \<or>
      (\<exists>ev. accepted subject bytes = Some ev \<and> applied seen data key eff ev s s')"
    and "res = Inr u \<Longrightarrow> \<exists>ev. accepted subject bytes = Some ev \<and> key ev \<in> seen s'" by auto
qed

lemma deliver_all_once:
  "\<exists>evs. distinct (map key evs) \<and> set (map key evs) \<inter> seen s = {} \<and>
     seen (deliver_all r ds s) = seen s \<union> set (map key evs) \<and>
     fold_effects eff evs (data s) = Some (data (deliver_all r ds s)) \<and>
     (\<forall>ev \<in> set evs. \<exists>(t, subject, bytes) \<in> set ds. accepted subject bytes = Some ev)"
proof (induction ds arbitrary: s)
  case Nil
  show ?case by (intro exI [of _ "[]"]) simp
next
  case (Cons d ds)
  obtain t subject bytes where d: "d = (t, subject, bytes)" by (cases d)
  obtain s1 res where h: "Handle (r t) subject bytes s = (s1, res)" by (meson surj_pair)
  obtain evs where evs: "distinct (map key evs)" "set (map key evs) \<inter> seen s1 = {}"
    "seen (deliver_all r ds s1) = seen s1 \<union> set (map key evs)"
    "fold_effects eff evs (data s1) = Some (data (deliver_all r ds s1))"
    "\<forall>ev \<in> set evs. \<exists>(t, subject, bytes) \<in> set ds. accepted subject bytes = Some ev"
    using Cons.IH [of s1] by blast
  from Handle_once(1) [OF h] show ?case
  proof (elim disjE exE conjE)
    assume "unchanged seen data s s1"
    with evs h show ?thesis
      by (intro exI [of _ evs]) (auto simp: d unchanged_def)
  next
    fix ev assume "accepted subject bytes = Some ev" "applied seen data key eff ev s s1"
    with evs h show ?thesis
      by (intro exI [of _ "ev # evs"]) (auto simp: d applied_def)
  qed
qed

lemma seen_mono: "seen s \<subseteq> seen (deliver_all r ds s)"
  using deliver_all_once [of s ds] by blast

end

section \<open>The PostgreSQL inbox meets the contract\<close>

definition event_key :: "pg_driver \<Rightarrow> repo_game_event \<Rightarrow> string \<times> string" where
  "event_key d ev = (GeConsumerName ev,
     case uuid_of d (GeEventID ev) of Inl e \<Rightarrow> GeEventID ev | Inr i \<Rightarrow> i)"

definition seen_keys :: "inbox_db \<Rightarrow> (string \<times> string) set" where
  "seen_keys db = pe_key ` set (processed_events db)"

definition session_effect ::
  "pg_driver \<Rightarrow> repo_game_event \<Rightarrow> (int \<times> game_session) list \<Rightarrow> (int \<times> game_session) list option" where
  "session_effect d ev gs =
     (if GeSubject ev = SubjectGameStarted then Some (upsert_started (timestamptz d (GeOccurredAt ev)) ev gs)
      else (case update_ended (timestamptz d (GeOccurredAt ev)) ev gs of
              None \<Rightarrow> None | Some (gs', n) \<Rightarrow> if n = 1 then Some gs' else None))"

lemma claimEvent_Inr:
  assumes "claimEvent d t flt ev db = Inr (db1, b)"
  shows "game_sessions db1 = game_sessions db"
    and "\<not> b \<Longrightarrow> db1 = db \<and> event_key d ev \<in> seen_keys db"
    and "b \<Longrightarrow> event_key d ev \<notin> seen_keys db \<and> seen_keys db1 = insert (event_key d ev) (seen_keys db)"
  using assms
  by (auto simp: claimEvent_def Let_def event_key_def seen_keys_def split: option.splits sum.splits if_splits intro: rev_image_eqI)

lemma seen_keys_simps [simp]:
  "seen_keys (db\<lparr>inbox_faults := fs\<rparr>) = seen_keys db" "seen_keys (db\<lparr>game_sessions := gs\<rparr>) = seen_keys db"
  by (simp_all add: seen_keys_def)

lemma process_once:
  assumes "process d t ev app db = (db', res)"
    and app: "\<And>flt db1 db2. app flt db1 = Inr db2 \<Longrightarrow>
           seen_keys db2 = seen_keys db1 \<and> eff ev (game_sessions db1) = Some (game_sessions db2)"
  shows "once seen_keys game_sessions (event_key d) eff ev db db' res"
proof -
  let ?f0 = "inbox_faults db"
  let ?f1 = "rest_faults ?f0" let ?f2 = "rest_faults ?f1" let ?f3 = "rest_faults ?f2"
  show ?thesis
  proof (cases "validateRepoGameEvent ev")
    case (Some e)
    with assms(1) show ?thesis by (auto simp: process_def once_def unchanged_def)
  next
    case v: None
    show ?thesis
    proof (cases "fault_error (next_fault ?f0)")
      case (Some e)
      with assms(1) v show ?thesis by (auto simp: process_def Let_def once_def unchanged_def)
    next
      case b: None
      show ?thesis
      proof (cases "claimEvent d t (fault_error (next_fault ?f1)) ev db")
        case (Inl e)
        with assms(1) v b show ?thesis by (auto simp: process_def Let_def once_def unchanged_def)
      next
        case (Inr x)
        obtain db1 c where c: "claimEvent d t (fault_error (next_fault ?f1)) ev db = Inr (db1, c)"
          using Inr by (cases x) auto
        note cl = claimEvent_Inr [OF c]
        show ?thesis
        proof (cases c)
          case False
          with assms(1) v b c cl show ?thesis by (auto simp: process_def Let_def once_def unchanged_def)
        next
          case True
          show ?thesis
          proof (cases "app (fault_error (next_fault ?f2)) db1")
            case (Inl e)
            with assms(1) v b c True show ?thesis by (auto simp: process_def Let_def once_def unchanged_def)
          next
            case (Inr db2)
            with app [OF Inr] cl True have ap: "applied seen_keys game_sessions (event_key d) eff ev db (db2\<lparr>inbox_faults := fs\<rparr>)" for fs
              by (simp add: applied_def)
            from assms(1) v b c True Inr ap show ?thesis
              by (cases "next_fault ?f3") (auto simp: process_def Let_def once_def unchanged_def)
          qed
        qed
      qed
    qed
  qed
qed

lemma started_not_ended [simp]: "SubjectGameEnded \<noteq> SubjectGameStarted"
  by (simp add: SubjectGameStarted_def SubjectGameEnded_def)

interpretation pg_inbox: event_inbox "pg_game_events d" seen_keys game_sessions "event_key d" "session_effect d"
  for d
proof
  fix t ev s s' res
  assume p: "ProcessGameStarted (pg_game_events d t) ev s = (s', res)" and "GeSubject ev = SubjectGameStarted"
  then show "once seen_keys game_sessions (event_key d) (session_effect d) ev s s' res"
    by (intro process_once [of d t ev "apply_started d ev"])
       (auto simp: pg_game_events_def pg_ProcessGameStarted_def apply_started_def session_effect_def split: option.splits)
next
  fix t ev s s' res
  assume p: "ProcessGameEnded (pg_game_events d t) ev s = (s', res)" and "GeSubject ev = SubjectGameEnded"
  then show "once seen_keys game_sessions (event_key d) (session_effect d) ev s s' res"
    by (intro process_once [of d t ev "apply_ended d ev"])
       (auto simp: pg_game_events_def pg_ProcessGameEnded_def apply_ended_def session_effect_def Let_def
          split: option.splits if_splits prod.splits)
qed

section \<open>Sessions\<close>

definition session_ok :: "game_session \<Rightarrow> bool" where
  "session_ok g \<longleftrightarrow> (case gs_ended_at g of None \<Rightarrow> True | Some t \<Rightarrow> gs_started_at g \<le> t)"

lemma map_of_update_sessions: "map_of (AList.update k v gs) = (map_of gs)(k \<mapsto> v)"
  by (rule update_conv')

lemma session_effect_ok:
  assumes "session_effect d ev gs = Some gs'" "\<And>k g. map_of gs k = Some g \<Longrightarrow> session_ok g"
    and "map_of gs' k = Some g"
  shows "session_ok g"
  using assms
  by (auto simp: session_effect_def upsert_started_def update_ended_def map_of_update_sessions session_ok_def Let_def
      split: if_splits option.splits) (fastforce split: option.splits)+

lemma fold_effects_ok:
  assumes "fold_effects (session_effect d) evs gs = Some gs'" "\<And>k g. map_of gs k = Some g \<Longrightarrow> session_ok g"
    and "map_of gs' k = Some g"
  shows "session_ok g"
  using assms
proof (induction evs arbitrary: gs)
  case (Cons ev evs)
  from Cons.prems(1) obtain gs1 where "session_effect d ev gs = Some gs1" "fold_effects (session_effect d) evs gs1 = Some gs'"
    by (auto simp: bind_eq_Some_conv)
  with Cons session_effect_ok show ?case by blast
qed simp

section \<open>An example inbox\<close>

definition ex_driver :: pg_driver where
  "ex_driver = \<lparr>uuid_of = Inr, timestamptz = (\<lambda>t. t)\<rparr>"

definition ex_game_event :: game_event where
  "ex_game_event = \<lparr>EventID = ''e1'', OccurredAt = 5, Version = 1, GameID = 7, RoomID = ''7-1''\<rparr>"

definition ex_inbox :: inbox_db where
  "ex_inbox = \<lparr>processed_events = [], game_sessions = [], inbox_faults = []\<rparr>"

lemma ex_accepted:
  "accepted SubjectGameStarted (marshal_game_event ex_game_event) =
   Some (toRepositoryGameEvent SubjectGameStarted ex_game_event)"
  by (simp add: accepted_def ex_game_event_def validateGameEvent_def IsZero_def)

section \<open>Properties\<close>



text \<open>
  An acknowledged event is processed, for good: if the consumer reports success for a
  message, the message holds a valid game event whose key is recorded, and stays so through
  any later deliveries.
\<close>

theorem acknowledged_event_is_processed:
  assumes "Handle (pg_game_events d t) subject bytes s = (s', Inr ())"
  shows "\<exists>ev. accepted subject bytes = Some ev \<and>
    event_key d ev \<in> seen_keys (deliver_all (pg_game_events d) ds s')"
  using pg_inbox.Handle_once(2) [OF assms refl] pg_inbox.seen_mono by blast

theorem acknowledged_event_is_processed_witness:
  "(ConsumerGameEvents, ''e1'') \<in> seen_keys (fst (Handle (pg_game_events ex_driver 1) SubjectGameStarted
     (marshal_game_event ex_game_event) ex_inbox))"
proof -
  obtain s' where h: "Handle (pg_game_events ex_driver 1) SubjectGameStarted (marshal_game_event ex_game_event) ex_inbox = (s', Inr ())"
    by (simp add: Handle_def handleGameStarted_def validateGameEvent_def IsZero_def pg_game_events_def
        pg_ProcessGameStarted_def process_def validateRepoGameEvent_def toRepositoryGameEvent_def ConsumerGameEvents_def
        SubjectGameStarted_def ex_game_event_def ex_inbox_def ex_driver_def claimEvent_def apply_started_def
        fault_error_def Let_def)
  from acknowledged_event_is_processed [OF h, of "[]"] h ex_accepted show ?thesis
    by (simp add: event_key_def ex_driver_def toRepositoryGameEvent_def ex_game_event_def)
qed

text \<open>
  A transaction has no partial effect: when processing an event fails, sessions and
  recorded keys are both unchanged, or (a commit whose reply was lost) the event is recorded
  and has its whole effect; a duplicate changes nothing.
\<close>

theorem failed_event_has_no_partial_effect:
  assumes "Handle (pg_game_events d t) subject bytes s = (s', res)"
  shows "seen_keys s' = seen_keys s \<and> game_sessions s' = game_sessions s \<or>
    (\<exists>ev. accepted subject bytes = Some ev \<and> event_key d ev \<notin> seen_keys s \<and>
       seen_keys s' = insert (event_key d ev) (seen_keys s) \<and>
       session_effect d ev (game_sessions s) = Some (game_sessions s'))"
  using pg_inbox.Handle_once(1) [OF assms] by (auto simp: unchanged_def applied_def)

theorem failed_event_has_no_partial_effect_witness:
  "game_sessions (fst (Handle (pg_game_events ex_driver 1) ''game.other'' Malformed ex_inbox)) = []"
proof -
  obtain s' res where h: "Handle (pg_game_events ex_driver 1) ''game.other'' Malformed ex_inbox = (s', res)"
    by (meson surj_pair)
  have "accepted ''game.other'' Malformed = None"
    by (simp add: accepted_def SubjectGameStarted_def SubjectGameEnded_def)
  with failed_event_has_no_partial_effect [OF h] h show ?thesis by (simp add: ex_inbox_def)
qed



definition gameEventsMaxAge :: duration where
  "gameEventsMaxAge = 7 * 24 * hour"

text \<open>
  The inbox forgets only what the stream can no longer redeliver: a cleanup deletes
  exactly the keys that were recorded more than 30 days before, so every key recorded within
  the seven days that the stream keeps a message survives.
\<close>

theorem inbox_outlives_the_stream:
  assumes "ProcessedCleanup now db = (db', Inr n)"
  shows "processed_events db' = filter (\<lambda>x. now - 30 * 24 * hour \<le> pe_processed_at x) (processed_events db) \<and>
    length (processed_events db') + n = length (processed_events db) \<and>
    (\<forall>x \<in> set (processed_events db). now - gameEventsMaxAge \<le> pe_processed_at x \<longrightarrow> x \<in> set (processed_events db'))"
proof -
  have "processed_events db' = filter (\<lambda>x. \<not> pe_processed_at x < now - 30 * 24 * hour) (processed_events db) \<and>
      n = length (filter (\<lambda>x. pe_processed_at x < now - 30 * 24 * hour) (processed_events db))"
    using assms
    by (auto simp: ProcessedCleanup_def DeleteProcessedBefore_def processedEventRetention_def Let_def
        split: if_splits sum.splits prod.splits fault.splits)
  then show ?thesis
    using sum_length_filter_compl [of "\<lambda>x. pe_processed_at x < now - 30 * 24 * hour" "processed_events db"]
    by (auto simp: not_less gameEventsMaxAge_def)
qed

theorem inbox_outlives_the_stream_witness:
  "processed_events (fst (ProcessedCleanup (31 * 24 * hour) ex_inbox)) = []"
proof -
  obtain db' n where c: "ProcessedCleanup (31 * 24 * hour) ex_inbox = (db', Inr n)"
    by (simp add: ProcessedCleanup_def DeleteProcessedBefore_def processedEventRetention_def ex_inbox_def IsZero_def Let_def)
  from inbox_outlives_the_stream [OF c] c show ?thesis by (simp add: ex_inbox_def)
qed

end
