(* ===== verification/DeadLetter.thy ===== *)
theory DeadLetter
  imports GameEvents
begin

text \<open>
  Delivery of game events and dead letters: the callback of the JetStream consumer with its
  failure handling (\<open>internal/messaging/jetstream_consumer.go\<close>), the dead-letter stream
  (\<open>dead_letter_store.go\<close>), the replay service (\<open>internal/services/dead_letter_replay_service.go\<close>)
  and the command \<open>cmd/dlq-replay\<close>.
\<close>

section \<open>The consumer callback\<close>

text \<open>
  A delivered message with the metadata the client library reads from its reply subject
  (deliveries so far, stream, stream sequence, consumer), or the error of reading it.
\<close>

record msg_metadata =
  NumDelivered :: nat
  MdStream :: string
  MdStreamSequence :: nat
  MdConsumer :: string

record js_msg =
  MsgSubject :: string
  MsgData :: game_payload
  MsgMetadata :: "go_error + msg_metadata"

datatype ack_action = DoubleAck | NakWithDelay duration | TermWithReason string

text \<open>
  \<open>cb_actions\<close> are the acknowledgements that reached the server, \<open>cb_faults\<close> the outcomes of
  the calls that send them, \<open>cb_labels\<close> the labels of \<open>metrics.GameEventDeliveryOutcomes\<close>.
\<close>

record callback_state =
  cb_js :: jetstream
  cb_actions :: "ack_action list"
  cb_faults :: "fault list"
  cb_labels :: "(string \<times> string) list"

definition send_ack :: "ack_action \<Rightarrow> callback_state \<Rightarrow> callback_state \<times> (go_error + unit)" where
  "send_ack a st =
     (let st1 = st\<lparr>cb_faults := rest_faults (cb_faults st)\<rparr>;
          st2 = st1\<lparr>cb_actions := cb_actions st @ [a]\<rparr>
      in case next_fault (cb_faults st) of
           NoFault \<Rightarrow> (st2, Inr ())
         | FailBefore e \<Rightarrow> (st1, Inl e)
         | FailAfter e \<Rightarrow> (st2, Inl e))"

definition count_outcome :: "js_msg \<Rightarrow> string \<Rightarrow> callback_state \<Rightarrow> callback_state" where
  "count_outcome msg label st = st\<lparr>cb_labels := cb_labels st @ [(MsgSubject msg, label)]\<rparr>"

definition gameEventRetryDelay :: duration where "gameEventRetryDelay = 5 * second"
definition gameEventMaxDeliver :: nat where "gameEventMaxDeliver = 5"
definition deadLetterTermReason :: string where "deadLetterTermReason = ''moved to GAME_EVENTS_DLQ''"

definition nakGameEvent :: "js_msg \<Rightarrow> callback_state \<Rightarrow> callback_state" where
  "nakGameEvent msg st =
     (case send_ack (NakWithDelay gameEventRetryDelay) st of
        (st', Inl e) \<Rightarrow> count_outcome msg ''retry_error'' st'
      | (st', Inr u) \<Rightarrow> count_outcome msg ''retried'' st')"

definition handleGameEventFailure ::
  "go_error + 8 word list \<Rightarrow> time \<Rightarrow> js_msg \<Rightarrow> go_error \<Rightarrow> callback_state \<Rightarrow> callback_state" where
  "handleGameEventFailure rnd now msg processingErr st =
     (case MsgMetadata msg of
        Inl e \<Rightarrow> nakGameEvent msg st
      | Inr metadata \<Rightarrow>
          if NumDelivered metadata < gameEventMaxDeliver then nakGameEvent msg st
          else
            (case NewEventMetadata rnd now of
               Inl e \<Rightarrow> nakGameEvent msg st
             | Inr m \<Rightarrow>
                 (let event = \<lparr>EventID = EventID m, OccurredAt = OccurredAt m, Version = Version m,
                        OriginalSubject = MsgSubject msg, OriginalPayload = MsgData msg,
                        DLError = error_text processingErr, DeliveryCount = NumDelivered metadata,
                        SourceStream = MdStream metadata, StreamSequence = MdStreamSequence metadata,
                        Consumer = MdConsumer metadata\<rparr>
                  in case PublishGameDeadLetter event (cb_js st) of
                       (j, Inl e) \<Rightarrow> nakGameEvent msg (st\<lparr>cb_js := j\<rparr>)
                     | (j, Inr ack) \<Rightarrow>
                         (case send_ack (TermWithReason deadLetterTermReason) (st\<lparr>cb_js := j\<rparr>) of
                            (st', Inl e) \<Rightarrow> nakGameEvent msg st'
                          | (st', Inr u) \<Rightarrow> count_outcome msg ''dead_lettered'' st'))))"

text \<open>The function given to \<open>Consume\<close>; the handler works on a state of its own.\<close>

definition consume_callback ::
  "(string \<Rightarrow> game_payload \<Rightarrow> 's \<Rightarrow> 's \<times> (go_error + unit)) \<Rightarrow> go_error + 8 word list \<Rightarrow> time \<Rightarrow>
   js_msg \<Rightarrow> 's \<times> callback_state \<Rightarrow> 's \<times> callback_state" where
  "consume_callback handler rnd now msg sst =
     (let (s, st) = sst
      in case handler (MsgSubject msg) (MsgData msg) s of
           (s', Inl err) \<Rightarrow> (s', handleGameEventFailure rnd now msg err st)
         | (s', Inr u) \<Rightarrow>
             (case send_ack DoubleAck st of
                (st', Inl e) \<Rightarrow> (s', count_outcome msg ''ack_error'' st')
              | (st', Inr u) \<Rightarrow> (s', count_outcome msg ''acked'' st')))"

section \<open>The dead-letter stream\<close>

text \<open>
  The stored messages by sequence number. Looking the stream up and the operation on it are
  two calls; the operation on a sequence that is not there is refused by the server.
\<close>

record dlq_stream =
  dlq_msgs :: "(nat \<times> string \<times> dead_payload) list"
  dlq_faults :: "fault list"

definition not_found :: go_error where
  "not_found = External ''nats: message not found''"

definition dlq_call ::
  "(go_error \<Rightarrow> go_error) \<Rightarrow> (dlq_stream \<Rightarrow> dlq_stream \<times> (go_error + 'a)) \<Rightarrow> dlq_stream \<Rightarrow>
   dlq_stream \<times> (go_error + 'a)" where
  "dlq_call wrap op q =
     (let q1 = q\<lparr>dlq_faults := rest_faults (dlq_faults q)\<rparr>
      in case next_fault (dlq_faults q) of
           NoFault \<Rightarrow> (case op q1 of (q2, Inl e) \<Rightarrow> (q2, Inl (wrap e)) | (q2, Inr a) \<Rightarrow> (q2, Inr a))
         | FailBefore e \<Rightarrow> (q1, Inl (wrap e))
         | FailAfter e \<Rightarrow> (fst (op q1), Inl (wrap e)))"

definition get_stream :: "dlq_stream \<Rightarrow> dlq_stream \<times> (go_error + unit)" where
  "get_stream = dlq_call (\<lambda>e. Errorf [Txt ''get dead-letter stream: '', Wrapped e]) (\<lambda>q. (q, Inr ()))"

definition decodeGameDeadLetter :: "nat \<Rightarrow> string \<Rightarrow> dead_payload \<Rightarrow> go_error + game_dead_letter" where
  "decodeGameDeadLetter sq subject bytes =
     (if subject \<noteq> SubjectGameDeadLetter then
        Inl (Errorf [Txt ''unexpected dead-letter subject '', Quoted subject])
      else
        (case unmarshal_dead_letter bytes of
           Inl e \<Rightarrow> Inl (Errorf [Txt ''decode dead-letter message '', Num (int sq), Txt '': '', Wrapped e])
         | Inr event \<Rightarrow>
             (case validateGameDeadLetterEvent event of
                Some e \<Rightarrow> Inl (Errorf [Txt ''validate dead-letter message '', Num (int sq), Txt '': '', Wrapped e])
              | None \<Rightarrow> Inr event)))"

definition GetGameDeadLetter :: "nat \<Rightarrow> dlq_stream \<Rightarrow> dlq_stream \<times> (go_error + game_dead_letter)" where
  "GetGameDeadLetter sq q =
     (if sq = 0 then (q, Inl (Errorf [Txt ''dead-letter sequence must be positive'']))
      else
        (case get_stream q of
           (q1, Inl e) \<Rightarrow> (q1, Inl e)
         | (q1, Inr u) \<Rightarrow>
             (case dlq_call
                     (\<lambda>e. Errorf [Txt ''get dead-letter message '', Num (int sq), Txt '': '', Wrapped e])
                     (\<lambda>q. (q, case map_of (dlq_msgs q) sq of None \<Rightarrow> Inl not_found | Some m \<Rightarrow> Inr m)) q1 of
                (q2, Inl e) \<Rightarrow> (q2, Inl e)
              | (q2, Inr (subject, bytes)) \<Rightarrow> (q2, decodeGameDeadLetter sq subject bytes))))"

definition DeleteGameDeadLetter :: "nat \<Rightarrow> dlq_stream \<Rightarrow> dlq_stream \<times> (go_error + unit)" where
  "DeleteGameDeadLetter sq q =
     (if sq = 0 then (q, Inl (Errorf [Txt ''dead-letter sequence must be positive'']))
      else
        (case get_stream q of
           (q1, Inl e) \<Rightarrow> (q1, Inl e)
         | (q1, Inr u) \<Rightarrow>
             dlq_call (\<lambda>e. Errorf [Txt ''delete dead-letter message '', Num (int sq), Txt '': '', Wrapped e])
               (\<lambda>q. case map_of (dlq_msgs q) sq of
                      None \<Rightarrow> (q, Inl not_found)
                    | Some m \<Rightarrow> (q\<lparr>dlq_msgs := AList.delete sq (dlq_msgs q)\<rparr>, Inr ())) q1))"

text \<open>The last message of the subject is the one with the greatest sequence.\<close>

definition last_message :: "string \<Rightarrow> (nat \<times> string \<times> dead_payload) list \<Rightarrow> (nat \<times> string \<times> dead_payload) option" where
  "last_message subject ms =
     (let xs = filter (\<lambda>(n, sub, b). sub = subject) ms
      in if xs = [] then None
         else (let n = Max (fst ` set xs) in map_option (Pair n) (map_of xs n)))"

definition GetLastGameDeadLetter :: "dlq_stream \<Rightarrow> dlq_stream \<times> (go_error + nat \<times> game_dead_letter)" where
  "GetLastGameDeadLetter q =
     (case get_stream q of
        (q1, Inl e) \<Rightarrow> (q1, Inl e)
      | (q1, Inr u) \<Rightarrow>
          (case dlq_call (\<lambda>e. Errorf [Txt ''get latest dead-letter message: '', Wrapped e])
                  (\<lambda>q. (q, case last_message SubjectGameDeadLetter (dlq_msgs q) of
                             None \<Rightarrow> Inl not_found | Some m \<Rightarrow> Inr m)) q1 of
             (q2, Inl e) \<Rightarrow> (q2, Inl e)
           | (q2, Inr (n, subject, bytes)) \<Rightarrow>
               (case decodeGameDeadLetter n subject bytes of
                  Inl e \<Rightarrow> (q2, Inl e)
                | Inr event \<Rightarrow> (q2, Inr (n, event)))))"

section \<open>Replay\<close>

text \<open>
  The store is an interface; its implementation above and the publisher of the replay service
  are the same client, whose dead-letter stream and event stream are two parts of the state.
\<close>

record 's dead_letter_store =
  store_get :: "nat \<Rightarrow> 's \<Rightarrow> 's \<times> (go_error + game_dead_letter)"
  store_delete :: "nat \<Rightarrow> 's \<Rightarrow> 's \<times> (go_error + unit)"

record 's replay_state =
  rp_store :: 's
  rp_js :: jetstream
  rp_labels :: "string list"

record replay_result =
  RrSequence :: nat
  RrEventID :: string
  RrSubject :: string
  RrDuplicate :: bool

definition no_result :: replay_result where
  "no_result = \<lparr>RrSequence = 0, RrEventID = [], RrSubject = [], RrDuplicate = False\<rparr>"

definition validateReplayEvent :: "game_dead_letter \<Rightarrow> go_error option" where
  "validateReplayEvent event =
     (if OriginalSubject event \<noteq> SubjectGameStarted \<and> OriginalSubject event \<noteq> SubjectGameEnded then
        Some (Errorf [Txt ''unsupported original subject '', Quoted (OriginalSubject event)])
      else if OriginalPayload event = EmptyBytes then Some (Errorf [Txt ''original payload is required''])
      else if \<not> json_valid (OriginalPayload event) then
        Some (Errorf [Txt ''original payload must be valid JSON''])
      else None)"

definition deadLetterReplayMessageID :: "game_dead_letter \<Rightarrow> nat \<Rightarrow> string" where
  "deadLetterReplayMessageID event sq = ''dlq-replay:'' @ EventID event @ '':'' @ show_nat sq"

text \<open>
  \<open>Replay\<close> returns a result together with an error that may be nil. The model's publisher
  has no acknowledgement that is nil without an error, so that branch has no case.
\<close>

definition Replay ::
  "'s dead_letter_store \<Rightarrow> nat \<Rightarrow> 's replay_state \<Rightarrow> 's replay_state \<times> replay_result \<times> go_error option" where
  "Replay store sq st =
     (let fin = (\<lambda>st res err outcome. (st\<lparr>rp_labels := rp_labels st @ [outcome]\<rparr>, res, err))
      in if sq = 0 then
           fin st no_result (Some (Errorf [Txt ''dead-letter sequence must be positive''])) ''replay_error''
         else
           (case store_get store sq (rp_store st) of
              (s1, Inl e) \<Rightarrow> fin (st\<lparr>rp_store := s1\<rparr>) no_result
                (Some (Errorf [Txt ''load dead-letter message '', Num (int sq), Txt '': '', Wrapped e])) ''replay_error''
            | (s1, Inr event) \<Rightarrow>
                (let st1 = st\<lparr>rp_store := s1\<rparr>
                 in case validateReplayEvent event of
                      Some e \<Rightarrow> fin st1 no_result
                        (Some (Errorf [Txt ''validate dead-letter message '', Num (int sq),
                                       Txt '' for replay: '', Wrapped e])) ''replay_error''
                    | None \<Rightarrow>
                        (case PublishDurable (OriginalSubject event) (deadLetterReplayMessageID event sq)
                                (GamePayload (OriginalPayload event)) (rp_js st1) of
                           (j, Inl e) \<Rightarrow> fin (st1\<lparr>rp_js := j\<rparr>) no_result
                             (Some (Errorf [Txt ''republish dead-letter message '', Num (int sq), Txt '': '',
                                            Wrapped e])) ''replay_error''
                         | (j, Inr ack) \<Rightarrow>
                             (let st2 = st1\<lparr>rp_js := j\<rparr>;
                                  result = \<lparr>RrSequence = sq, RrEventID = EventID event,
                                            RrSubject = OriginalSubject event, RrDuplicate = Duplicate ack\<rparr>
                              in case store_delete store sq (rp_store st2) of
                                   (s3, Inl e) \<Rightarrow> fin (st2\<lparr>rp_store := s3\<rparr>) result
                                     (Some (Errorf [Txt ''delete replayed dead-letter message '', Num (int sq),
                                                    Txt '': '', Wrapped e])) ''replay_error''
                                 | (s3, Inr u) \<Rightarrow> fin (st2\<lparr>rp_store := s3\<rparr>) result None ''replayed'')))))"

definition dlq_store :: "dlq_stream dead_letter_store" where
  "dlq_store = \<lparr>store_get = GetGameDeadLetter, store_delete = DeleteGameDeadLetter\<rparr>"

section \<open>The replay command\<close>

text \<open>
  \<open>main\<close> of \<open>cmd/dlq-replay\<close> after the flags are parsed: the connection to NATS succeeds or
  not (\<open>connect\<close>), \<open>log.Fatal\<close> ends the program with a message, and the outcome is a dry run
  that shows an event or the result of a replay.
\<close>

datatype cli_outcome = Fatal go_error | DryRun nat game_dead_letter | Replayed replay_result

definition dlq_replay_main ::
  "nat \<Rightarrow> bool \<Rightarrow> bool \<Rightarrow> go_error option \<Rightarrow> dlq_stream replay_state \<Rightarrow>
   dlq_stream replay_state \<times> cli_outcome" where
  "dlq_replay_main sq latest execute connect st =
     (if sq = 0 \<and> \<not> latest then (st, Fatal (Errorf [Txt ''specify either -sequence or -latest'']))
      else if sq \<noteq> 0 \<and> latest then
        (st, Fatal (Errorf [Txt ''-sequence and -latest cannot be used together'']))
      else if latest \<and> execute then
        (st, Fatal (Errorf [Txt ''-execute requires an explicit -sequence'']))
      else
        (case connect of
           Some e \<Rightarrow> (st, Fatal (Errorf [Txt ''connect NATS: '', Wrapped e]))
         | None \<Rightarrow>
             (case (if latest then
                      (case GetLastGameDeadLetter (rp_store st) of
                         (q, Inl e) \<Rightarrow> (q, Inl (Errorf [Txt ''load latest dead-letter message: '', Wrapped e]))
                       | (q, Inr (n, event)) \<Rightarrow> (q, Inr (n, event)))
                    else
                      (case GetGameDeadLetter sq (rp_store st) of
                         (q, Inl e) \<Rightarrow> (q, Inl (Errorf [Txt ''load dead-letter message: '', Wrapped e]))
                       | (q, Inr event) \<Rightarrow> (q, Inr (sq, event)))) of
                (q, Inl e) \<Rightarrow> (st\<lparr>rp_store := q\<rparr>, Fatal e)
              | (q, Inr (n, event)) \<Rightarrow>
                  (let st1 = st\<lparr>rp_store := q\<rparr>
                   in if \<not> execute then (st1, DryRun n event)
                      else
                        (case Replay dlq_store n st1 of
                           (st2, result, Some e) \<Rightarrow>
                             (st2, Fatal (Errorf [Txt ''replay dead-letter message: '', Wrapped e]))
                         | (st2, result, None) \<Rightarrow> (st2, Replayed result))))))"

section \<open>What the callback sends\<close>

lemma send_ack_actions:
  "send_ack a st = (st', res) \<Longrightarrow> cb_js st' = cb_js st \<and>
     (cb_actions st' = cb_actions st \<or> cb_actions st' = cb_actions st @ [a]) \<and>
     (res = Inr u \<longrightarrow> cb_actions st' = cb_actions st @ [a])"
  by (auto simp: send_ack_def Let_def split: fault.splits)

lemma count_outcome_simps [simp]:
  "cb_js (count_outcome m l st) = cb_js st" "cb_actions (count_outcome m l st) = cb_actions st"
  "cb_faults (count_outcome m l st) = cb_faults st"
  by (simp_all add: count_outcome_def)

text \<open>The actions added by a step, and the messages published by it.\<close>

definition adds :: "callback_state \<Rightarrow> callback_state \<Rightarrow> ack_action list \<Rightarrow> bool" where
  "adds st st' as \<longleftrightarrow> cb_actions st' = cb_actions st @ as \<and> set (js_sent (cb_js st)) \<subseteq> set (js_sent (cb_js st'))"

lemma nak_adds: "\<exists>as. adds st (nakGameEvent msg st) as \<and> set as \<subseteq> {NakWithDelay gameEventRetryDelay} \<and>
    cb_js (nakGameEvent msg st) = cb_js st"
proof -
  obtain st1 q where s: "send_ack (NakWithDelay gameEventRetryDelay) st = (st1, q)" by (meson surj_pair)
  from send_ack_actions [OF s] show ?thesis
    by (cases q) (auto simp: nakGameEvent_def s adds_def)
qed

lemma PublishGameDeadLetter_Inr:
  "PublishGameDeadLetter e j = (j', Inr a) \<Longrightarrow>
   validateGameDeadLetterEvent e = None \<and>
   js_sent j' = js_sent j @ [(SubjectGameDeadLetter, deadLetterMessageID e, DeadPayload (marshal_dead_letter e))]"
  by (auto simp: PublishGameDeadLetter_def split: option.splits dest: PublishDurable_Inr)

lemma PublishGameDeadLetter_sent:
  "PublishGameDeadLetter e j = (j', res) \<Longrightarrow> set (js_sent j) \<subseteq> set (js_sent j')"
  by (auto simp: PublishGameDeadLetter_def split: option.splits dest: PublishDurable_sent)

text \<open>The dead letter that a failed message leaves in the stream.\<close>

definition dead_lettered :: "js_msg \<Rightarrow> msg_metadata \<Rightarrow> go_error \<Rightarrow> jetstream \<Rightarrow> bool" where
  "dead_lettered msg md err j \<longleftrightarrow> (\<exists>e. validateGameDeadLetterEvent e = None \<and>
     OriginalSubject e = MsgSubject msg \<and> OriginalPayload e = MsgData msg \<and> DLError e = error_text err \<and>
     DeliveryCount e = NumDelivered md \<and> SourceStream e = MdStream md \<and>
     StreamSequence e = MdStreamSequence md \<and> Consumer e = MdConsumer md \<and>
     (SubjectGameDeadLetter, deadLetterMessageID e, DeadPayload (marshal_dead_letter e)) \<in> set (js_sent j))"

lemma handleGameEventFailure_adds:
  "\<exists>as. adds st (handleGameEventFailure rnd now msg err st) as \<and>
     DoubleAck \<notin> set as \<and>
     (\<forall>reason. TermWithReason reason \<in> set as \<longrightarrow> (\<exists>md. MsgMetadata msg = Inr md \<and>
        gameEventMaxDeliver \<le> NumDelivered md \<and>
        dead_lettered msg md err (cb_js (handleGameEventFailure rnd now msg err st))))"
    (is "\<exists>as. ?P (handleGameEventFailure rnd now msg err st) as")
proof -
  have nak: "\<exists>as. ?P (nakGameEvent msg st1) as" if "adds st st1 []" for st1
    using nak_adds [of st1 msg] that by (auto simp: adds_def subset_iff)
  show ?thesis
  proof (cases "\<exists>md m. MsgMetadata msg = Inr md \<and> gameEventMaxDeliver \<le> NumDelivered md \<and> NewEventMetadata rnd now = Inr m")
    case False
    then have "handleGameEventFailure rnd now msg err st = nakGameEvent msg st"
      by (auto simp: handleGameEventFailure_def not_less split: sum.splits)
    with nak [of st] show ?thesis by (simp add: adds_def)
  next
    case True
    then obtain md m where md: "MsgMetadata msg = Inr md" "gameEventMaxDeliver \<le> NumDelivered md"
      "NewEventMetadata rnd now = Inr m" by blast
    define e where "e = \<lparr>EventID = EventID m, OccurredAt = OccurredAt m, Version = Version m,
                        OriginalSubject = MsgSubject msg, OriginalPayload = MsgData msg,
                        DLError = error_text err, DeliveryCount = NumDelivered md,
                        SourceStream = MdStream md, StreamSequence = MdStreamSequence md,
                        Consumer = MdConsumer md\<rparr>"
    obtain j q where p: "PublishGameDeadLetter e (cb_js st) = (j, q)" by (meson surj_pair)
    have h: "handleGameEventFailure rnd now msg err st = (case q of Inl e \<Rightarrow> nakGameEvent msg (st\<lparr>cb_js := j\<rparr>)
       | Inr ack \<Rightarrow> (case send_ack (TermWithReason deadLetterTermReason) (st\<lparr>cb_js := j\<rparr>) of
            (st', Inl e) \<Rightarrow> nakGameEvent msg st' | (st', Inr u) \<Rightarrow> count_outcome msg ''dead_lettered'' st'))"
      using md p by (simp add: handleGameEventFailure_def e_def [symmetric] Let_def)
    have sub: "set (js_sent (cb_js st)) \<subseteq> set (js_sent j)" by (rule PublishGameDeadLetter_sent [OF p])
    show ?thesis
    proof (cases q)
      case (Inl er)
      with nak [of "st\<lparr>cb_js := j\<rparr>"] sub h show ?thesis by (simp add: adds_def)
    next
      case (Inr ack)
      have dl: "dead_lettered msg md err j"
        using PublishGameDeadLetter_Inr [OF p [unfolded Inr]]
        unfolding dead_lettered_def by (intro exI [of _ e]) (simp add: e_def)
      obtain st1 r where s: "send_ack (TermWithReason deadLetterTermReason) (st\<lparr>cb_js := j\<rparr>) = (st1, r)"
        by (meson surj_pair)
      from send_ack_actions [OF s] have st1: "cb_js st1 = j"
        "cb_actions st1 = cb_actions st \<or> cb_actions st1 = cb_actions st @ [TermWithReason deadLetterTermReason]"
        by auto
      obtain as where as: "adds st1 (nakGameEvent msg st1) as" "set as \<subseteq> {NakWithDelay gameEventRetryDelay}"
        "cb_js (nakGameEvent msg st1) = j"
        using nak_adds [of st1 msg] st1 by auto
      show ?thesis
      proof (cases r)
        case (Inl er)
        from st1(2) obtain bs where bs: "cb_actions st1 = cb_actions st @ bs"
          "set bs \<subseteq> {TermWithReason deadLetterTermReason}" by auto
        have "adds st (nakGameEvent msg st1) (bs @ as)" using as(1,3) bs sub st1 by (simp add: adds_def)
        moreover have "DoubleAck \<notin> set (bs @ as)" using as(2) bs(2) by auto
        ultimately show ?thesis using h Inr s Inl md dl as(3) by (intro exI [of _ "bs @ as"]) auto
      next
        case (Inr u)
        with send_ack_actions [OF s] have "cb_actions st1 = cb_actions st @ [TermWithReason deadLetterTermReason]" by auto
        with h \<open>q = Inr ack\<close> s Inr md dl sub st1 show ?thesis
          by (intro exI [of _ "[TermWithReason deadLetterTermReason]"]) (simp add: adds_def)
      qed
    qed
  qed
qed

text \<open>The actions of a whole callback, and what they presuppose.\<close>

lemma callback_actions:
  assumes "consume_callback handler rnd now msg (s, st) = (s', st')"
  shows "\<exists>as. cb_actions st' = cb_actions st @ as \<and>
    (DoubleAck \<in> set as \<longrightarrow> (\<exists>u. handler (MsgSubject msg) (MsgData msg) s = (s', Inr u))) \<and>
    (\<forall>reason. TermWithReason reason \<in> set as \<longrightarrow>
       (\<exists>md err. handler (MsgSubject msg) (MsgData msg) s = (s', Inl err) \<and> MsgMetadata msg = Inr md \<and>
          5 \<le> NumDelivered md \<and> dead_lettered msg md err (cb_js st')))"
proof -
  obtain s1 q where h: "handler (MsgSubject msg) (MsgData msg) s = (s1, q)" by (meson surj_pair)
  show ?thesis
  proof (cases q)
    case (Inl err)
    with assms h have "s' = s1" "st' = handleGameEventFailure rnd now msg err st"
      by (simp_all add: consume_callback_def)
    with handleGameEventFailure_adds [of st rnd now msg err] h Inl show ?thesis
      by (auto simp: adds_def gameEventMaxDeliver_def)
  next
    case (Inr u)
    obtain st1 r where k: "send_ack DoubleAck st = (st1, r)" by (meson surj_pair)
    have "consume_callback handler rnd now msg (s, st) =
        (s1, count_outcome msg (if isl r then ''ack_error'' else ''acked'') st1)"
      using h Inr k by (cases r) (simp_all add: consume_callback_def)
    with assms have "s' = s1" "cb_actions st' = cb_actions st1" by auto
    with send_ack_actions [OF k] h Inr show ?thesis by auto
  qed
qed

section \<open>The dead-letter store as an interface\<close>

text \<open>
  \<open>letters\<close> is the content of the store: the dead letter that can be loaded under a sequence.
  A read changes nothing; a failed delete has one of two effects.
\<close>

locale dead_letters =
  fixes store :: "'s dead_letter_store" and letters :: "'s \<Rightarrow> nat \<Rightarrow> game_dead_letter option"
  assumes get_keeps: "store_get store sq s = (s', res) \<Longrightarrow> letters s' = letters s"
    and get_Inr: "store_get store sq s = (s', Inr e) \<Longrightarrow> letters s sq = Some e"
    and delete_Inr: "store_delete store sq s = (s', Inr u) \<Longrightarrow> letters s' = (letters s)(sq := None)"
    and delete_Inl: "store_delete store sq s = (s', Inl er) \<Longrightarrow>
           letters s' = letters s \<or> letters s' = (letters s)(sq := None)"
begin

text \<open>The republished message of a dead letter.\<close>

definition republished :: "nat \<Rightarrow> game_dead_letter \<Rightarrow> string \<times> string \<times> js_payload" where
  "republished sq e = (OriginalSubject e, deadLetterReplayMessageID e sq, GamePayload (OriginalPayload e))"

lemma Replay_step:
  assumes "Replay store sq st = (st', result, err)"
  shows "letters (rp_store st') = letters (rp_store st) \<and> js_sent (rp_js st') = js_sent (rp_js st) \<and> err \<noteq> None \<or>
    (\<exists>e. letters (rp_store st) sq = Some e \<and> validateReplayEvent e = None \<and>
       (js_sent (rp_js st') = js_sent (rp_js st) @ [republished sq e] \<and>
          (letters (rp_store st') = letters (rp_store st) \<and> err \<noteq> None \<or>
           letters (rp_store st') = (letters (rp_store st))(sq := None))))"
proof (cases "sq = 0")
  case True
  with assms show ?thesis by (auto simp: Replay_def)
next
  case sq: False
  obtain s1 q1 where g: "store_get store sq (rp_store st) = (s1, q1)" by (meson surj_pair)
  note gk = get_keeps [OF g]
  show ?thesis
  proof (cases q1)
    case (Inl er)
    with assms sq g gk show ?thesis by (auto simp: Replay_def Let_def)
  next
    case (Inr e)
    note le = get_Inr [OF g [unfolded Inr]]
    show ?thesis
    proof (cases "validateReplayEvent e")
      case (Some er)
      with assms sq g gk Inr show ?thesis by (auto simp: Replay_def Let_def)
    next
      case v: None
      obtain j q2 where p: "PublishDurable (OriginalSubject e) (deadLetterReplayMessageID e sq)
          (GamePayload (OriginalPayload e)) (rp_js st) = (j, q2)" by (meson surj_pair)
      show ?thesis
      proof (cases q2)
        case (Inl er)
        with assms sq g Inr v p have "rp_store st' = s1" "rp_js st' = j" "err \<noteq> None"
          by (auto simp: Replay_def Let_def)
        with PublishDurable_sent [OF p] gk le v show ?thesis by (auto simp: republished_def)
      next
        case (Inr ack)
        note pi = PublishDurable_Inr [OF p [unfolded Inr]]
        obtain s3 q3 where d: "store_delete store sq s1 = (s3, q3)" by (meson surj_pair)
        have st': "rp_store st' = s3" "rp_js st' = j" "err = None \<longleftrightarrow> \<not> isl q3"
          using assms sq g \<open>q1 = Inr e\<close> v p Inr d by (cases q3; auto simp: Replay_def Let_def)+
        show ?thesis
        proof (cases q3)
          case (Inl er)
          with delete_Inl [OF d [unfolded Inl]] st' pi gk le v show ?thesis by (auto simp: republished_def)
        next
          case (Inr u)
          with delete_Inr [OF d [unfolded Inr]] st' pi gk le v show ?thesis by (auto simp: republished_def)
        qed
      qed
    qed
  qed
qed

end

definition dlq_letters :: "dlq_stream \<Rightarrow> nat \<Rightarrow> game_dead_letter option" where
  "dlq_letters q sq = (if sq = 0 then None else
     (case map_of (dlq_msgs q) sq of
        None \<Rightarrow> None
      | Some (subject, bytes) \<Rightarrow>
          (case decodeGameDeadLetter sq subject bytes of Inl e \<Rightarrow> None | Inr e \<Rightarrow> Some e)))"

lemma dlq_letters_faults [simp]: "dlq_letters (q\<lparr>dlq_faults := fs\<rparr>) = dlq_letters q"
  by (rule ext) (simp add: dlq_letters_def)

lemma dlq_letters_delete:
  "dlq_letters (q\<lparr>dlq_faults := fs, dlq_msgs := AList.delete sq (dlq_msgs q)\<rparr>) = (dlq_letters q)(sq := None)"
  by (rule ext) (simp add: dlq_letters_def AList.delete_conv)

lemma get_stream_msgs: "get_stream q = (q', res) \<Longrightarrow> \<exists>fs. q' = q\<lparr>dlq_faults := fs\<rparr>"
  by (auto simp: get_stream_def dlq_call_def Let_def split: fault.splits)

lemma GetGameDeadLetter_letters:
  assumes "GetGameDeadLetter sq q = (q', res)"
  shows "dlq_letters q' = dlq_letters q" and "res = Inr e \<Longrightarrow> dlq_letters q sq = Some e"
proof -
  obtain q1 r1 where g: "get_stream q = (q1, r1)" by (meson surj_pair)
  from get_stream_msgs [OF g] obtain fs where q1: "q1 = q\<lparr>dlq_faults := fs\<rparr>" by blast
  show "dlq_letters q' = dlq_letters q" "res = Inr e \<Longrightarrow> dlq_letters q sq = Some e"
    using assms g q1
    by (auto simp: GetGameDeadLetter_def dlq_call_def Let_def dlq_letters_def fun_eq_iff
        split: if_splits sum.splits fault.splits option.splits prod.splits)
qed

lemma DeleteGameDeadLetter_letters:
  assumes "DeleteGameDeadLetter sq q = (q', res)"
  shows "dlq_letters q' = dlq_letters q \<or> dlq_letters q' = (dlq_letters q)(sq := None)"
    and "res = Inr u \<Longrightarrow> dlq_letters q' = (dlq_letters q)(sq := None)"
proof -
  obtain q1 r1 where g: "get_stream q = (q1, r1)" by (meson surj_pair)
  from get_stream_msgs [OF g] obtain fs where q1: "q1 = q\<lparr>dlq_faults := fs\<rparr>" by blast
  show "dlq_letters q' = dlq_letters q \<or> dlq_letters q' = (dlq_letters q)(sq := None)"
    "res = Inr u \<Longrightarrow> dlq_letters q' = (dlq_letters q)(sq := None)"
    using assms g q1
    by (auto simp: DeleteGameDeadLetter_def dlq_call_def Let_def dlq_letters_delete
        split: if_splits sum.splits fault.splits option.splits prod.splits)
qed

lemma GetLastGameDeadLetter_letters:
  assumes "GetLastGameDeadLetter q = (q', res)"
  shows "dlq_letters q' = dlq_letters q"
proof -
  obtain q1 r1 where g: "get_stream q = (q1, r1)" by (meson surj_pair)
  from get_stream_msgs [OF g] obtain fs where q1: "q1 = q\<lparr>dlq_faults := fs\<rparr>" by blast
  show ?thesis
    using assms g q1
    by (auto simp: GetLastGameDeadLetter_def dlq_call_def Let_def
        split: if_splits sum.splits fault.splits option.splits prod.splits)
qed

interpretation dlq: dead_letters dlq_store dlq_letters
  by unfold_locales (auto simp: dlq_store_def dest: GetGameDeadLetter_letters DeleteGameDeadLetter_letters)

section \<open>Examples\<close>

definition ex_msg :: js_msg where
  "ex_msg = \<lparr>MsgSubject = SubjectGameEnded, MsgData = marshal_game_event ex_game_event,
     MsgMetadata = Inr \<lparr>NumDelivered = 5, MdStream = ''GAME_EVENTS'', MdStreamSequence = 3, MdConsumer = ConsumerGameEvents\<rparr>\<rparr>"

text \<open>The event ends a game that was never started, so its handler fails.\<close>

lemma ex_msg_fails:
  "\<exists>err. snd (Handle (pg_game_events ex_driver 1) (MsgSubject ex_msg) (MsgData ex_msg) ex_inbox) = Inl err \<and>
     error_text err \<noteq> []"
  by (simp add: Handle_def handleGameEnded_def validateGameEvent_def IsZero_def pg_game_events_def
        pg_ProcessGameEnded_def process_def validateRepoGameEvent_def toRepositoryGameEvent_def ConsumerGameEvents_def
        ex_msg_def SubjectGameEnded_def SubjectGameStarted_def ex_game_event_def ex_inbox_def ex_driver_def claimEvent_def
        apply_ended_def update_ended_def fault_error_def Let_def)

definition ex_callback :: callback_state where
  "ex_callback = \<lparr>cb_js = \<lparr>js_sent = [], js_replies = []\<rparr>, cb_actions = [], cb_faults = [], cb_labels = []\<rparr>"

definition ex_letter :: game_dead_letter where
  "ex_letter = \<lparr>EventID = ''d1'', OccurredAt = 9, Version = 1, OriginalSubject = SubjectGameStarted,
     OriginalPayload = marshal_game_event ex_game_event, DLError = ''x'', DeliveryCount = 5,
     SourceStream = ''GAME_EVENTS'', StreamSequence = 3, Consumer = ConsumerGameEvents\<rparr>"

definition ex_replay :: "dlq_stream replay_state" where
  "ex_replay = \<lparr>rp_store = \<lparr>dlq_msgs = [(2, SubjectGameDeadLetter, marshal_dead_letter ex_letter)], dlq_faults = []\<rparr>,
     rp_js = \<lparr>js_sent = [], js_replies = []\<rparr>, rp_labels = []\<rparr>"

section \<open>Properties\<close>

text \<open>
  C13: no game event is dropped. Whatever the handler, the DLQ publication and the
  acknowledgement calls do, the callback acknowledges a message only if the handler
  succeeded on it, and terminates it only from the fifth delivery on and only when the dead
  letter with its subject, payload and error is in the dead-letter stream. In every other
  case the message stays with the server for redelivery.
\<close>

theorem message_is_settled_only_when_safe:
  assumes "consume_callback handler rnd now msg (s, st) = (s', st')"
  shows "\<exists>as. cb_actions st' = cb_actions st @ as \<and>
    (DoubleAck \<in> set as \<longrightarrow> (\<exists>u. handler (MsgSubject msg) (MsgData msg) s = (s', Inr u))) \<and>
    (\<forall>reason. TermWithReason reason \<in> set as \<longrightarrow>
       (\<exists>md err. handler (MsgSubject msg) (MsgData msg) s = (s', Inl err) \<and> MsgMetadata msg = Inr md \<and>
          5 \<le> NumDelivered md \<and> dead_lettered msg md err (cb_js st')))"
  by (rule callback_actions [OF assms])

theorem message_is_settled_only_when_safe_witness:
  "DoubleAck \<notin> set (cb_actions (snd (consume_callback (Handle (pg_game_events ex_driver 1)) (Inr (replicate 16 0)) 5
     ex_msg (ex_inbox, ex_callback))))"
proof -
  obtain s' st' where c: "consume_callback (Handle (pg_game_events ex_driver 1)) (Inr (replicate 16 0)) 5 ex_msg
      (ex_inbox, ex_callback) = (s', st')" by (meson surj_pair)
  have "cb_actions ex_callback = []" by (simp add: ex_callback_def)
  with message_is_settled_only_when_safe [OF c] c ex_msg_fails show ?thesis by auto
qed

text \<open>
  C35: poison messages do not block the stream: when NATS answers, a message whose handler
  fails on the fifth or a later delivery is copied to the dead-letter stream and terminated.
\<close>

theorem poison_message_is_dead_lettered:
  assumes "snd (handler (MsgSubject msg) (MsgData msg) s) = Inl err" "error_text err \<noteq> []"
    and "MsgMetadata msg = Inr md" "5 \<le> NumDelivered md"
    and "MsgSubject msg \<noteq> []" "MdStream md \<noteq> []" "0 < MdStreamSequence md" "MdConsumer md \<noteq> []"
    and "now \<noteq> zero_time" "js_replies (cb_js st) = []" "cb_faults st = []"
  shows "\<exists>s' st'. consume_callback handler (Inr bytes) now msg (s, st) = (s', st') \<and>
    cb_actions st' = cb_actions st @ [TermWithReason deadLetterTermReason] \<and> dead_lettered msg md err (cb_js st')"
proof -
  obtain s' where h: "handler (MsgSubject msg) (MsgData msg) s = (s', Inl err)"
    using assms(1) by (metis prod.collapse)
  obtain m where m: "NewEventMetadata (Inr bytes) now = Inr m"
    by (simp add: NewEventMetadata_def newEventID_def)
  note mm = NewEventMetadata_Inr [OF m]
  define e where "e = \<lparr>EventID = EventID m, OccurredAt = OccurredAt m, Version = Version m,
      OriginalSubject = MsgSubject msg, OriginalPayload = MsgData msg, DLError = error_text err,
      DeliveryCount = NumDelivered md, SourceStream = MdStream md, StreamSequence = MdStreamSequence md,
      Consumer = MdConsumer md\<rparr>"
  have v: "validateGameDeadLetterEvent e = None"
    using mm assms(2,4-9) by (simp add: validateGameDeadLetterEvent_def e_def IsZero_def)
  have "deadLetterMessageID e \<noteq> []" using assms(6) by (simp add: deadLetterMessageID_def e_def)
  then obtain j a where p: "PublishGameDeadLetter e (cb_js st) = (j, Inr a)"
    using v assms(10) by (simp add: PublishGameDeadLetter_def PublishDurable_def next_reply_def)
  let ?st1 = "st\<lparr>cb_js := j, cb_faults := [], cb_actions := cb_actions st @ [TermWithReason deadLetterTermReason]\<rparr>"
  have k: "send_ack (TermWithReason deadLetterTermReason) (st\<lparr>cb_js := j\<rparr>) = (?st1, Inr ())"
    using assms(11) by (simp add: send_ack_def)
  have f: "handleGameEventFailure (Inr bytes) now msg err st = count_outcome msg ''dead_lettered'' ?st1"
    using assms(3,4) m p k by (simp add: handleGameEventFailure_def gameEventMaxDeliver_def e_def [symmetric] Let_def)
  have "dead_lettered msg md err j"
    using PublishGameDeadLetter_Inr [OF p] v
    unfolding dead_lettered_def by (intro exI [of _ e]) (simp add: e_def)
  with h f show ?thesis by (simp add: consume_callback_def)
qed

theorem poison_message_is_dead_lettered_witness:
  "\<exists>s' st'. consume_callback (Handle (pg_game_events ex_driver 1)) (Inr (replicate 16 0)) 5 ex_msg (ex_inbox, ex_callback) =
     (s', st') \<and> cb_actions st' = [TermWithReason deadLetterTermReason]"
proof -
  let ?h = "Handle (pg_game_events ex_driver 1)"
  obtain err where e: "snd (?h (MsgSubject ex_msg) (MsgData ex_msg) ex_inbox) = Inl err" "error_text err \<noteq> []"
    using ex_msg_fails by blast
  from poison_message_is_dead_lettered [where handler = ?h and msg = ex_msg and s = ex_inbox and now = 5
      and st = ex_callback and bytes = "replicate 16 0", OF e]
  show ?thesis
    by (simp add: ex_msg_def ex_callback_def ConsumerGameEvents_def SubjectGameEnded_def) blast
qed

text \<open>
  C36: replaying is safe: a dead letter leaves the store only after its original event was
  republished under its original subject and payload; no other dead letter changes, at most
  one message is published, and a replay without an error has done both.
\<close>

theorem replay_deletes_only_after_republishing:
  assumes "Replay dlq_store sq st = (st', result, err)"
  shows "(\<forall>n. n \<noteq> sq \<longrightarrow> dlq_letters (rp_store st') n = dlq_letters (rp_store st) n) \<and>
    (js_sent (rp_js st') = js_sent (rp_js st) \<and> dlq_letters (rp_store st') sq = dlq_letters (rp_store st) sq \<and> err \<noteq> None \<or>
     (\<exists>e. dlq_letters (rp_store st) sq = Some e \<and>
        js_sent (rp_js st') = js_sent (rp_js st) @
          [(OriginalSubject e, deadLetterReplayMessageID e sq, GamePayload (OriginalPayload e))] \<and>
        (err = None \<longrightarrow> dlq_letters (rp_store st') sq = None)))"
  using dlq.Replay_step [OF assms] by (auto simp: dlq.republished_def)

theorem replay_deletes_only_after_republishing_witness:
  "dlq_letters (rp_store (fst (Replay dlq_store 2 ex_replay))) 2 = None"
proof -
  obtain st' result where r: "Replay dlq_store 2 ex_replay = (st', result, None)"
    by (simp add: Replay_def dlq_store_def GetGameDeadLetter_def DeleteGameDeadLetter_def get_stream_def dlq_call_def
        decodeGameDeadLetter_def validateGameDeadLetterEvent_def validateReplayEvent_def PublishDurable_def
        next_reply_def deadLetterReplayMessageID_def IsZero_def SubjectGameStarted_def ConsumerGameEvents_def
        ex_replay_def ex_letter_def marshal_game_event_def json_valid_def Let_def)
  from replay_deletes_only_after_republishing [OF r] r show ?thesis by auto
qed

text \<open>
  Message identifiers neither merge nor split dead letters: a replay gets the identifier
  of another replay only for the same event and sequence, and a dead letter the identifier of
  another only for the same stream, sequence and consumer (stream names contain no colon),
  so JetStream's deduplication drops exactly repetitions.
\<close>

theorem dead_letter_ids_identify:
  assumes "CHR '':'' \<notin> set (SourceStream a)" "CHR '':'' \<notin> set (SourceStream b)"
  shows "(deadLetterReplayMessageID a m = deadLetterReplayMessageID b n \<longleftrightarrow> EventID a = EventID b \<and> m = n) \<and>
    (deadLetterMessageID a = deadLetterMessageID b \<longleftrightarrow>
       SourceStream a = SourceStream b \<and> StreamSequence a = StreamSequence b \<and> Consumer a = Consumer b)"
  using deadLetterMessageID_inject [OF assms]
  by (simp add: deadLetterReplayMessageID_def append_sep_inject_right)

theorem dead_letter_ids_identify_witness:
  "deadLetterReplayMessageID ex_letter 1 \<noteq> deadLetterReplayMessageID ex_letter 2"
  using dead_letter_ids_identify [of ex_letter ex_letter 1 2] by (simp add: ex_letter_def)

text \<open>
  A dead letter survives the stream: what the consumer publishes decodes, for the replay
  service, to the same dead letter.
\<close>

theorem published_dead_letter_can_be_loaded:
  assumes "PublishGameDeadLetter e j = (j', Inr a)"
  shows "\<exists>bytes. js_sent j' = js_sent j @ [(SubjectGameDeadLetter, deadLetterMessageID e, DeadPayload bytes)] \<and>
    decodeGameDeadLetter sq SubjectGameDeadLetter bytes = Inr e"
  using PublishGameDeadLetter_Inr [OF assms] by (simp add: decodeGameDeadLetter_def)

theorem published_dead_letter_can_be_loaded_witness:
  "\<exists>bytes. decodeGameDeadLetter 1 SubjectGameDeadLetter bytes = Inr ex_letter"
proof -
  obtain j' a where p: "PublishGameDeadLetter ex_letter \<lparr>js_sent = [], js_replies = []\<rparr> = (j', Inr a)"
    by (simp add: PublishGameDeadLetter_def validateGameDeadLetterEvent_def PublishDurable_def next_reply_def
        deadLetterMessageID_def IsZero_def SubjectGameStarted_def ConsumerGameEvents_def ex_letter_def)
  from published_dead_letter_can_be_loaded [OF p, of 1] show ?thesis by blast
qed

text \<open>
  The replay command is read-only unless asked: it publishes or deletes something only
  with -execute and an explicit -sequence.
\<close>

theorem command_is_a_dry_run_by_default:
  assumes "dlq_replay_main sq latest execute connect st = (st', out)"
    and "\<not> execute \<or> latest \<or> sq = 0"
  shows "rp_js st' = rp_js st \<and> dlq_letters (rp_store st') = dlq_letters (rp_store st) \<and>
    (\<forall>r. out \<noteq> Replayed r)"
proof -
  have get: "dlq_letters q' = dlq_letters q" if "GetGameDeadLetter n q = (q', r)" for n q q' r
    using GetGameDeadLetter_letters(1) [OF that] .
  have last: "dlq_letters q' = dlq_letters q" if "GetLastGameDeadLetter q = (q', r)" for q q' r
    by (rule GetLastGameDeadLetter_letters [OF that])
  show ?thesis
  proof (cases latest)
    case True
    obtain q r where l: "GetLastGameDeadLetter (rp_store st) = (q, r)" by (meson surj_pair)
    from last [OF l] assms(1) l True show ?thesis
      by (auto simp: dlq_replay_main_def Let_def split: if_splits option.splits sum.splits)
  next
    case False
    obtain q r where l: "GetGameDeadLetter sq (rp_store st) = (q, r)" by (meson surj_pair)
    from get [OF l] assms l False show ?thesis
      by (auto simp: dlq_replay_main_def Let_def split: if_splits option.splits sum.splits)
  qed
qed

theorem command_is_a_dry_run_by_default_witness:
  "rp_js (fst (dlq_replay_main 2 False False None ex_replay)) = rp_js ex_replay"
proof -
  obtain st' out where m: "dlq_replay_main 2 False False None ex_replay = (st', out)" by (meson surj_pair)
  from command_is_a_dry_run_by_default [OF m] m show ?thesis by simp
qed

end
