(* ===== verification/PgRooms.thy ===== *)
theory PgRooms
  imports RoomSpec
begin

text \<open>
  The PostgreSQL room repository (\<open>internal/repositories/postgres/room\<close>): the tables \<open>rooms\<close>,
  \<open>players\<close> and \<open>summoner_spells\<close> with their cascades, the transaction of \<open>Save\<close>, the three
  queries of \<open>loadRoom\<close>, and the proof that they meet the repository contract.
\<close>

section \<open>The tables\<close>

record player_row =
  pl_id :: nat
  pl_room_id :: string
  pl_game_name :: string
  pl_tag_line :: string
  pl_champion :: string
  pl_champion_image :: string
  pl_champion_id :: int
  pl_summoner_spell_haste :: int

record spell_row =
  sp_id :: nat
  sp_player_id :: nat
  sp_name :: string
  sp_is_ready :: bool
  sp_base_cooldown :: int
  sp_remaining_cooldown :: int
  sp_cooldown_end_time :: "time option"

text \<open>
  The rows in insertion order, the two \<open>BIGSERIAL\<close> sequences, which a rollback does not set
  back, and the outcomes of the calls.
\<close>

record room_db =
  tbl_rooms :: "(string \<times> time) list"
  tbl_players :: "player_row list"
  tbl_spells :: "spell_row list"
  next_player :: nat
  next_spell :: nat
  room_faults :: "fault list"

text \<open>
  What the code relies on of the driver and the server: how a time comes back from a
  \<open>TIMESTAMPTZ\<close> and from a \<open>TIMESTAMP\<close> column, and the order of rows that \<open>ORDER BY\<close> leaves open.
\<close>

record room_driver =
  end_time_column :: "time \<Rightarrow> time"
  last_updated_column :: "time \<Rightarrow> time"
  tie_order :: "(string \<times> time) list \<Rightarrow> (string \<times> time) list"

definition out_of_range :: go_error where
  "out_of_range = External ''integer out of range''"

section \<open>Statements of a transaction\<close>

definition tx_exec ::
  "(go_error \<Rightarrow> go_error) \<Rightarrow> (room_db \<Rightarrow> go_error + room_db \<times> 'a) \<Rightarrow> room_db \<Rightarrow> room_db \<times> (go_error + 'a)" where
  "tx_exec wrap stmt db =
     (let db1 = db\<lparr>room_faults := rest_faults (room_faults db)\<rparr>
      in case fault_error (next_fault (room_faults db)) of
           Some e \<Rightarrow> (db1, Inl (wrap e))
         | None \<Rightarrow> (case stmt db1 of Inl e \<Rightarrow> (db1, Inl (wrap e)) | Inr (db2, a) \<Rightarrow> (db2, Inr a)))"

definition upsert_room :: "room_driver \<Rightarrow> room \<Rightarrow> room_db \<Rightarrow> go_error + room_db \<times> unit" where
  "upsert_room d x db =
     Inr (db\<lparr>tbl_rooms := AList.update (Id x) (last_updated_column d (LastUpdated x)) (tbl_rooms db)\<rparr>, ())"

text \<open>Deleting players deletes their spells (\<open>ON DELETE CASCADE\<close>).\<close>

definition delete_players :: "string \<Rightarrow> room_db \<Rightarrow> go_error + room_db \<times> unit" where
  "delete_players roomID db =
     (let gone = {pl_id p | p. p \<in> set (tbl_players db) \<and> pl_room_id p = roomID}
      in Inr (db\<lparr>tbl_players := filter (\<lambda>p. pl_room_id p \<noteq> roomID) (tbl_players db),
                 tbl_spells := filter (\<lambda>s. sp_player_id s \<notin> gone) (tbl_spells db)\<rparr>, ()))"

definition insert_player :: "string \<Rightarrow> player \<Rightarrow> room_db \<Rightarrow> go_error + room_db \<times> nat" where
  "insert_player roomId p db =
     (if \<not> int32 (ChampionId p) \<or> \<not> int32 (SummonerSpellHaste p) then Inl out_of_range
      else Inr (db\<lparr>tbl_players := tbl_players db @
                 [\<lparr>pl_id = next_player db, pl_room_id = roomId, pl_game_name = GameName p,
                   pl_tag_line = TagLine p, pl_champion = Champion p, pl_champion_image = ChampionImage p,
                   pl_champion_id = ChampionId p, pl_summoner_spell_haste = SummonerSpellHaste p\<rparr>],
                next_player := Suc (next_player db)\<rparr>, next_player db))"

definition nullableTime :: "time \<Rightarrow> time option" where
  "nullableTime value = (if IsZero value then None else Some value)"

definition insert_spell :: "room_driver \<Rightarrow> nat \<Rightarrow> summoner_spell \<Rightarrow> room_db \<Rightarrow> go_error + room_db \<times> unit" where
  "insert_spell d playerId s db =
     (if \<not> int32 (BaseCooldown s) \<or> \<not> int32 (RemainingCooldown s) then Inl out_of_range
      else Inr (db\<lparr>tbl_spells := tbl_spells db @
                 [\<lparr>sp_id = next_spell db, sp_player_id = playerId, sp_name = Name s, sp_is_ready = IsReady s,
                   sp_base_cooldown = BaseCooldown s, sp_remaining_cooldown = RemainingCooldown s,
                   sp_cooldown_end_time = map_option (end_time_column d) (nullableTime (CooldownEndTime s))\<rparr>],
                next_spell := Suc (next_spell db)\<rparr>, ()))"

section \<open>Saving\<close>

fun save_spells :: "room_driver \<Rightarrow> player \<Rightarrow> nat \<Rightarrow> summoner_spell list \<Rightarrow> room_db \<Rightarrow> room_db \<times> (go_error + unit)" where
  "save_spells d p playerId [] db = (db, Inr ())"
| "save_spells d p playerId (s # ss) db =
     (case tx_exec (\<lambda>e. Errorf [Txt ''insert spell '', Quoted (Name s), Txt '' for player '', Quoted (GameName p),
                                Txt ''#'', Quoted (TagLine p), Txt '': '', Wrapped e])
             (insert_spell d playerId s) db of
        (db', Inl e) \<Rightarrow> (db', Inl e)
      | (db', Inr u) \<Rightarrow> save_spells d p playerId ss db')"

definition savePlayer :: "room_driver \<Rightarrow> string \<Rightarrow> player \<Rightarrow> room_db \<Rightarrow> room_db \<times> (go_error + unit)" where
  "savePlayer d roomId p db =
     (case tx_exec (\<lambda>e. Errorf [Txt ''insert player '', Quoted (GameName p), Txt ''#'', Quoted (TagLine p),
                                Txt '': '', Wrapped e])
             (insert_player roomId p) db of
        (db', Inl e) \<Rightarrow> (db', Inl e)
      | (db', Inr playerId) \<Rightarrow> save_spells d p playerId (elems (Spells p)) db')"

fun save_players :: "room_driver \<Rightarrow> string \<Rightarrow> player list \<Rightarrow> room_db \<Rightarrow> room_db \<times> (go_error + unit)" where
  "save_players d roomId [] db = (db, Inr ())"
| "save_players d roomId (p # ps) db =
     (case savePlayer d roomId p db of
        (db', Inl e) \<Rightarrow> (db', Inl e)
      | (db', Inr u) \<Rightarrow> save_players d roomId ps db')"

definition tx_saveRoom :: "room_driver \<Rightarrow> room \<Rightarrow> room_db \<Rightarrow> room_db \<times> (go_error + unit)" where
  "tx_saveRoom d x db =
     (case tx_exec (\<lambda>e. Errorf [Txt ''upsert room '', Quoted (Id x), Txt '': '', Wrapped e])
             (upsert_room d x) db of
        (db1, Inl e) \<Rightarrow> (db1, Inl e)
      | (db1, Inr u) \<Rightarrow>
          (case tx_exec (\<lambda>e. Errorf [Txt ''delete old players for room '', Quoted (Id x), Txt '': '', Wrapped e])
                  (delete_players (Id x)) db1 of
             (db2, Inl e) \<Rightarrow> (db2, Inl e)
           | (db2, Inr u) \<Rightarrow> save_players d (Id x) (elems (Players x)) db2))"

text \<open>A rollback restores the tables, not the sequences.\<close>

definition rollback :: "room_db \<Rightarrow> room_db \<Rightarrow> room_db" where
  "rollback db db' = db\<lparr>next_player := next_player db', next_spell := next_spell db', room_faults := room_faults db'\<rparr>"

definition pg_Save :: "room_driver \<Rightarrow> room option \<Rightarrow> room_db \<Rightarrow> room_db \<times> (go_error + unit)" where
  "pg_Save d ro db =
     (case ro of
        None \<Rightarrow> (db, Inr ())
      | Some x \<Rightarrow>
          (case tx_exec (\<lambda>e. Errorf [Txt ''begin room save transaction: '', Wrapped e]) (\<lambda>db. Inr (db, ())) db of
             (db1, Inl e) \<Rightarrow> (db1, Inl e)
           | (db1, Inr u) \<Rightarrow>
               (case tx_saveRoom d x db1 of
                  (db2, Inl e) \<Rightarrow> (rollback db db2, Inl e)
                | (db2, Inr u) \<Rightarrow>
                    (let db3 = db2\<lparr>room_faults := rest_faults (room_faults db2)\<rparr>;
                         err = (\<lambda>e. Inl (Errorf [Txt ''commit room save transaction: '', Wrapped e]))
                     in case next_fault (room_faults db2) of
                          NoFault \<Rightarrow> (db3, Inr ())
                        | FailBefore e \<Rightarrow> (rollback db db3, err e)
                        | FailAfter e \<Rightarrow> (db3, err e)))))"

section \<open>Loading\<close>

text \<open>A query: its rows, or an error; \<open>pgx\<close> reports errors of sending and of iterating alike.\<close>

definition query :: "(go_error \<Rightarrow> go_error) \<Rightarrow> (room_db \<Rightarrow> 'a) \<Rightarrow> room_db \<Rightarrow> room_db \<times> (go_error + 'a)" where
  "query wrap sel db = tx_exec wrap (\<lambda>db. Inr (db, sel db)) db"

definition loadPlayers :: "string \<Rightarrow> room_db \<Rightarrow> room_db \<times> (go_error + player list \<times> nat list)" where
  "loadPlayers roomID db =
     (case query (\<lambda>e. Errorf [Txt ''select players for room '', Quoted roomID, Txt '': '', Wrapped e])
             (\<lambda>db. sort_key pl_id (filter (\<lambda>p. pl_room_id p = roomID) (tbl_players db))) db of
        (db', Inl e) \<Rightarrow> (db', Inl e)
      | (db', Inr rows) \<Rightarrow> (db', Inr
          (map (\<lambda>p. \<lparr>Champion = pl_champion p, ChampionImage = pl_champion_image p, GameName = pl_game_name p,
                      TagLine = pl_tag_line p, ChampionId = pl_champion_id p,
                      SummonerSpellHaste = pl_summoner_spell_haste p, Spells = Some []\<rparr>) rows,
           map pl_id rows)))"

definition row_spell :: "spell_row \<Rightarrow> summoner_spell" where
  "row_spell s = \<lparr>Name = sp_name s, IsReady = sp_is_ready s, BaseCooldown = sp_base_cooldown s,
     CooldownEndTime = (case sp_cooldown_end_time s of None \<Rightarrow> zero_time | Some t \<Rightarrow> t),
     RemainingCooldown = sp_remaining_cooldown s\<rparr>"

text \<open>The loop over the spell rows; the list of identifiers is the map \<open>playerIndexes\<close>.\<close>

fun attach_spells :: "string \<Rightarrow> nat list \<Rightarrow> spell_row list \<Rightarrow> player list \<Rightarrow> go_error + player list" where
  "attach_spells roomID ids [] players = Inr players"
| "attach_spells roomID ids (s # ss) players =
     (case find_index (\<lambda>i. i = sp_player_id s) ids of
        None \<Rightarrow> Inl (Errorf [Txt ''player '', Num (int (sp_player_id s)), Txt '' not found while loading room '',
                             Quoted roomID])
      | Some k \<Rightarrow>
          attach_spells roomID ids ss
            (players[k := (players ! k)\<lparr>Spells := append_slice (Spells (players ! k)) (row_spell s)\<rparr>]))"

definition loadSpells ::
  "string \<Rightarrow> player list \<Rightarrow> nat list \<Rightarrow> room_db \<Rightarrow> room_db \<times> (go_error + player list)" where
  "loadSpells roomID players ids db =
     (case query (\<lambda>e. Errorf [Txt ''select spells for room '', Quoted roomID, Txt '': '', Wrapped e])
             (\<lambda>db. sort_key sp_id (filter (\<lambda>s. \<exists>p \<in> set (tbl_players db). pl_id p = sp_player_id s \<and> pl_room_id p = roomID)
                (tbl_spells db))) db of
        (db', Inl e) \<Rightarrow> (db', Inl e)
      | (db', Inr rows) \<Rightarrow> (db', attach_spells roomID ids rows players))"

definition loadRoom :: "string \<Rightarrow> room_db \<Rightarrow> room_db \<times> (go_error + room option)" where
  "loadRoom roomID db =
     (case query (\<lambda>e. Errorf [Txt ''select room '', Quoted roomID, Txt '': '', Wrapped e])
             (\<lambda>db. map_of (tbl_rooms db) roomID) db of
        (db1, Inl e) \<Rightarrow> (db1, Inl e)
      | (db1, Inr None) \<Rightarrow> (db1, Inr None)
      | (db1, Inr (Some updated)) \<Rightarrow>
          (case loadPlayers roomID db1 of
             (db2, Inl e) \<Rightarrow> (db2, Inl e)
           | (db2, Inr (players, ids)) \<Rightarrow>
               (case loadSpells roomID players ids db2 of
                  (db3, Inl e) \<Rightarrow> (db3, Inl e)
                | (db3, Inr players') \<Rightarrow>
                    (db3, Inr (Some \<lparr>Id = roomID, Players = Some players', LastUpdated = updated\<rparr>)))))"

definition pg_Get :: "string \<Rightarrow> room_db \<Rightarrow> room_db \<times> (go_error + room option)" where
  "pg_Get i db = (if i = [] then (db, Inr None) else loadRoom i db)"

fun load_rooms :: "string list \<Rightarrow> room list \<Rightarrow> room_db \<Rightarrow> room_db \<times> (go_error + room list)" where
  "load_rooms [] rooms db = (db, Inr rooms)"
| "load_rooms (i # is) rooms db =
     (case loadRoom i db of
        (db', Inl e) \<Rightarrow> (db', Inl e)
      | (db', Inr None) \<Rightarrow> load_rooms is rooms db'
      | (db', Inr (Some x)) \<Rightarrow> load_rooms is (rooms @ [x]) db')"

definition pg_GetAll :: "room_driver \<Rightarrow> room_db \<Rightarrow> room_db \<times> (go_error + room list)" where
  "pg_GetAll d db =
     (case query (\<lambda>e. Errorf [Txt ''select room ids: '', Wrapped e])
             (\<lambda>db. map fst (sort_key (\<lambda>r. - snd r) (tie_order d (tbl_rooms db)))) db of
        (db1, Inl e) \<Rightarrow> (db1, Inl e)
      | (db1, Inr ids) \<Rightarrow>
          (case load_rooms ids [] db1 of
             (db2, Inl e) \<Rightarrow> (db2, Inl e)
           | (db2, Inr rooms) \<Rightarrow>
               query (\<lambda>e. Errorf [Txt ''iterate rooms: '', Wrapped e]) (\<lambda>db. rooms) db2))"

section \<open>Deleting\<close>

definition delete_room :: "string \<Rightarrow> room_db \<Rightarrow> room_db" where
  "delete_room i db =
     (case delete_players i db of
        Inl e \<Rightarrow> db
      | Inr (db', u) \<Rightarrow> db'\<lparr>tbl_rooms := AList.delete i (tbl_rooms db')\<rparr>)"

definition pg_Delete :: "string \<Rightarrow> room_db \<Rightarrow> room_db \<times> (go_error + unit)" where
  "pg_Delete i db =
     (let db1 = db\<lparr>room_faults := rest_faults (room_faults db)\<rparr>;
          err = (\<lambda>e. Inl (Errorf [Txt ''delete room '', Quoted i, Txt '': '', Wrapped e]))
      in case next_fault (room_faults db) of
           NoFault \<Rightarrow> (delete_room i db1, Inr ())
         | FailBefore e \<Rightarrow> (db1, err e)
         | FailAfter e \<Rightarrow> (delete_room i db1, err e))"

definition pg_rooms :: "room_driver \<Rightarrow> room_db room_repo" where
  "pg_rooms d = \<lparr>repo_get = pg_Get, repo_get_all = pg_GetAll d, repo_save = pg_Save d, repo_delete = pg_Delete\<rparr>"

section \<open>Content and invariant\<close>

definition end_time_kept :: "room_driver \<Rightarrow> time \<Rightarrow> time" where
  "end_time_kept d t = (if IsZero t then zero_time else end_time_column d t)"

definition row_player :: "spell_row list \<Rightarrow> player_row \<Rightarrow> player" where
  "row_player sps p =
     \<lparr>Champion = pl_champion p, ChampionImage = pl_champion_image p, GameName = pl_game_name p,
      TagLine = pl_tag_line p, ChampionId = pl_champion_id p,
      SummonerSpellHaste = pl_summoner_spell_haste p,
      Spells = Some (map row_spell (filter (\<lambda>s. sp_player_id s = pl_id p) sps))\<rparr>"

definition room_players :: "string \<Rightarrow> room_db \<Rightarrow> player list" where
  "room_players i db = map (row_player (tbl_spells db)) (filter (\<lambda>p. pl_room_id p = i) (tbl_players db))"

definition pg_view :: "room_db \<Rightarrow> string \<Rightarrow> room option" where
  "pg_view db i = map_option (\<lambda>t. \<lparr>Id = i, Players = Some (room_players i db), LastUpdated = t\<rparr>)
     (map_of (tbl_rooms db) i)"

definition ascending :: "('a \<Rightarrow> nat) \<Rightarrow> nat \<Rightarrow> 'a list \<Rightarrow> bool" where
  "ascending key bound xs \<longleftrightarrow> sorted_wrt (\<lambda>a b. key a < key b) xs \<and> (\<forall>x \<in> set xs. key x < bound)"

definition tables_ok :: "room_db \<Rightarrow> bool" where
  "tables_ok db \<longleftrightarrow> distinct (map fst (tbl_rooms db)) \<and> [] \<notin> fst ` set (tbl_rooms db) \<and>
     ascending pl_id (next_player db) (tbl_players db) \<and> ascending sp_id (next_spell db) (tbl_spells db) \<and>
     (\<forall>s \<in> set (tbl_spells db). sp_player_id s \<in> pl_id ` set (tbl_players db))"

definition pg_inv :: "room_driver \<Rightarrow> room_db \<Rightarrow> bool" where
  "pg_inv d db \<longleftrightarrow> tables_ok db \<and> (\<forall>xs. mset (tie_order d xs) = mset xs)"

lemma ascending_filter: "ascending key b xs \<Longrightarrow> ascending key b (filter P xs)"
  by (auto simp: ascending_def sorted_wrt_filter)

lemma ascending_mono: "ascending key b xs \<Longrightarrow> b \<le> b' \<Longrightarrow> ascending key b' xs"
  by (auto simp: ascending_def)

lemma ascending_append:
  "ascending key b xs \<Longrightarrow> ascending key b' ys \<Longrightarrow> (\<And>y. y \<in> set ys \<Longrightarrow> b \<le> key y) \<Longrightarrow> b \<le> b' \<Longrightarrow>
   ascending key b' (xs @ ys)"
  by (auto simp: ascending_def sorted_wrt_append) (meson less_le_trans)+

lemma ascending_distinct: "ascending key b xs \<Longrightarrow> distinct (map key xs)"
  unfolding ascending_def by (induction xs) (auto simp: image_iff)

lemma ascending_sort: "ascending key b xs \<Longrightarrow> sort_key key xs = xs"
  by (rule sort_key_id_if_sorted) (auto simp: ascending_def sorted_map intro: sorted_wrt_mono_rel [of xs "\<lambda>a b. key a < key b"])

lemma pg_view_faults [simp]: "pg_view (db\<lparr>room_faults := fs\<rparr>) = pg_view db"
  by (rule ext) (simp add: pg_view_def room_players_def)

lemma pg_inv_faults [simp]: "pg_inv d (db\<lparr>room_faults := fs\<rparr>) = pg_inv d db"
  by (simp add: pg_inv_def tables_ok_def)

lemma room_players_faults [simp]: "room_players i (db\<lparr>room_faults := fs\<rparr>) = room_players i db"
  by (simp add: room_players_def)

section \<open>Loading returns the content\<close>

lemma query_cases:
  "query wrap sel db = (db', res) \<Longrightarrow>
   (\<exists>fs. db' = db\<lparr>room_faults := fs\<rparr>) \<and> (\<forall>a. res = Inr a \<longrightarrow> a = sel db')"
  by (auto simp: query_def tx_exec_def Let_def split: option.splits)

lemma attach_spells_eq:
  assumes "distinct ids" "length players = length ids" "\<forall>s \<in> set ss. sp_player_id s \<in> set ids"
  shows "\<exists>out. attach_spells i ids ss players = Inr out \<and> length out = length ids \<and>
    (\<forall>k < length ids. out ! k = (let p = players ! k; new = map row_spell (filter (\<lambda>s. sp_player_id s = ids ! k) ss)
       in if new = [] then p else p\<lparr>Spells := Some (elems (Spells p) @ new)\<rparr>))"
  using assms
proof (induction ss arbitrary: players)
  case (Cons s ss)
  from Cons.prems(3) obtain k where k: "k < length ids" "ids ! k = sp_player_id s"
    by (auto simp: in_set_conv_nth)
  have f: "find_index (\<lambda>i. i = sp_player_id s) ids = Some k"
    using k Cons.prems(1) by (intro find_index_unique) (simp_all, metis nth_eq_iff_index_eq)
  let ?ps = "players[k := (players ! k)\<lparr>Spells := append_slice (Spells (players ! k)) (row_spell s)\<rparr>]"
  obtain out where out: "attach_spells i ids ss ?ps = Inr out" "length out = length ids"
    "\<forall>j < length ids. out ! j = (let p = ?ps ! j; new = map row_spell (filter (\<lambda>s. sp_player_id s = ids ! j) ss)
       in if new = [] then p else p\<lparr>Spells := Some (elems (Spells p) @ new)\<rparr>)"
    using Cons.IH [of ?ps] Cons.prems by auto
  have "out ! j = (let p = players ! j; new = map row_spell (filter (\<lambda>s. sp_player_id s = ids ! j) (s # ss))
       in if new = [] then p else p\<lparr>Spells := Some (elems (Spells p) @ new)\<rparr>)" if j: "j < length ids" for j
  proof (cases "j = k")
    case True
    with out(3) j k Cons.prems(2) show ?thesis by (auto simp: Let_def append_slice_def)
  next
    case False
    with k j Cons.prems(1) have "sp_player_id s \<noteq> ids ! j" by (auto simp: nth_eq_iff_index_eq)
    with False out(3) j show ?thesis by (simp add: Let_def)
  qed
  with f out(1,2) show ?case by (intro exI [of _ out]) simp
qed simp

definition bare_player :: "player_row \<Rightarrow> player" where
  "bare_player p = \<lparr>Champion = pl_champion p, ChampionImage = pl_champion_image p, GameName = pl_game_name p,
     TagLine = pl_tag_line p, ChampionId = pl_champion_id p,
     SummonerSpellHaste = pl_summoner_spell_haste p, Spells = Some []\<rparr>"

lemma attach_room_spells:
  fixes i :: string
  assumes "tables_ok db"
  defines "rows \<equiv> filter (\<lambda>p. pl_room_id p = i) (tbl_players db)"
  shows "attach_spells i (map pl_id rows)
     (filter (\<lambda>s. \<exists>p \<in> set (tbl_players db). pl_id p = sp_player_id s \<and> pl_room_id p = i) (tbl_spells db))
     (map bare_player rows) = Inr (room_players i db)"
proof -
  let ?ss = "filter (\<lambda>s. \<exists>p \<in> set (tbl_players db). pl_id p = sp_player_id s \<and> pl_room_id p = i) (tbl_spells db)"
  have d: "distinct (map pl_id rows)"
    using assms(1) ascending_distinct ascending_filter unfolding tables_ok_def rows_def by blast
  have known: "\<forall>s \<in> set ?ss. sp_player_id s \<in> set (map pl_id rows)" by (force simp: rows_def)
  obtain out where out: "attach_spells i (map pl_id rows) ?ss (map bare_player rows) = Inr out"
    "length out = length rows"
    "\<forall>k < length rows. out ! k = (let p = bare_player (rows ! k);
         new = map row_spell (filter (\<lambda>s. sp_player_id s = pl_id (rows ! k)) ?ss)
       in if new = [] then p else p\<lparr>Spells := Some (elems (Spells p) @ new)\<rparr>)"
    using attach_spells_eq [OF d _ known, of "map bare_player rows" i] by auto
  have "out ! k = row_player (tbl_spells db) (rows ! k)" if k: "k < length rows" for k
  proof -
    have "rows ! k \<in> set rows" using k by simp
    then have "pl_room_id (rows ! k) = i" "rows ! k \<in> set (tbl_players db)" by (auto simp: rows_def)
    then have "filter (\<lambda>s. sp_player_id s = pl_id (rows ! k)) ?ss =
        filter (\<lambda>s. sp_player_id s = pl_id (rows ! k)) (tbl_spells db)"
      unfolding filter_filter by (intro filter_cong) auto
    with out(3) k show ?thesis by (auto simp: Let_def row_player_def bare_player_def)
  qed
  then have "out = map (row_player (tbl_spells db)) rows" using out(2) by (intro nth_equalityI) auto
  with out(1) show ?thesis by (simp add: room_players_def rows_def)
qed

lemma loadRoom_view:
  assumes "loadRoom i db = (db', res)" "tables_ok db"
  shows "\<exists>fs. db' = db\<lparr>room_faults := fs\<rparr>" and "res = Inr ro \<Longrightarrow> ro = pg_view db i"
proof -
  let ?rows = "filter (\<lambda>p. pl_room_id p = i) (tbl_players db)"
  have srt: "sort_key pl_id ?rows = ?rows"
    "sort_key sp_id (filter P (tbl_spells db)) = filter P (tbl_spells db)" for P
    using assms(2) ascending_sort ascending_filter unfolding tables_ok_def by blast+
  obtain db1 r1 where q1: "query (\<lambda>e. Errorf [Txt ''select room '', Quoted i, Txt '': '', Wrapped e])
             (\<lambda>db. map_of (tbl_rooms db) i) db = (db1, r1)" by (meson surj_pair)
  from query_cases [OF q1] obtain fs1 where c1: "db1 = db\<lparr>room_faults := fs1\<rparr>" "\<forall>a. r1 = Inr a \<longrightarrow> a = map_of (tbl_rooms db) i"
    by auto
  have main: "(\<exists>fs. db' = db\<lparr>room_faults := fs\<rparr>) \<and> (res = Inr ro \<longrightarrow> ro = pg_view db i)"
  proof (cases r1)
    case (Inl e)
    with assms(1) q1 c1 show ?thesis by (auto simp: loadRoom_def)
  next
    case (Inr a)
    show ?thesis
    proof (cases a)
      case None
      with assms(1) q1 c1 Inr show ?thesis by (auto simp: loadRoom_def pg_view_def)
    next
      case (Some t)
      obtain db2 r2 where q2: "query (\<lambda>e. Errorf [Txt ''select players for room '', Quoted i, Txt '': '', Wrapped e])
             (\<lambda>db. sort_key pl_id (filter (\<lambda>p. pl_room_id p = i) (tbl_players db))) db1 = (db2, r2)"
        by (meson surj_pair)
      from query_cases [OF q2] c1 srt obtain fs2 where c2: "db2 = db\<lparr>room_faults := fs2\<rparr>"
        "\<forall>a. r2 = Inr a \<longrightarrow> a = ?rows" by auto
      show ?thesis
      proof (cases r2)
        case (Inl e)
        with assms(1) q1 c1 \<open>r1 = Inr a\<close> Some q2 c2 show ?thesis by (auto simp: loadRoom_def loadPlayers_def)
      next
        case (Inr rows)
        with c2 have rows: "rows = ?rows" by simp
        obtain db3 r3 where q3: "query (\<lambda>e. Errorf [Txt ''select spells for room '', Quoted i, Txt '': '', Wrapped e])
             (\<lambda>db. sort_key sp_id (filter (\<lambda>s. \<exists>p \<in> set (tbl_players db). pl_id p = sp_player_id s \<and> pl_room_id p = i)
                (tbl_spells db))) db2 = (db3, r3)" by (meson surj_pair)
        from query_cases [OF q3] c2 srt obtain fs3 where c3: "db3 = db\<lparr>room_faults := fs3\<rparr>"
          "\<forall>a. r3 = Inr a \<longrightarrow> a = filter (\<lambda>s. \<exists>p \<in> set (tbl_players db). pl_id p = sp_player_id s \<and> pl_room_id p = i) (tbl_spells db)"
          by auto
        have lp: "loadPlayers i db1 = (db2, Inr (map bare_player rows, map pl_id rows))"
          using q2 Inr by (simp add: loadPlayers_def bare_player_def [abs_def])
        show ?thesis
        proof (cases r3)
          case (Inl e)
          then have "loadSpells i (map bare_player rows) (map pl_id rows) db2 = (db3, Inl e)"
            using q3 by (simp add: loadSpells_def)
          with assms(1) q1 \<open>r1 = Inr a\<close> Some lp c3 show ?thesis by (auto simp: loadRoom_def)
        next
          case (Inr ss)
          then have "loadSpells i (map bare_player rows) (map pl_id rows) db2 = (db3, Inr (room_players i db))"
            using q3 c3 attach_room_spells [OF assms(2), of i] rows by (simp add: loadSpells_def)
          moreover have "map_of (tbl_rooms db) i = Some t" using c1(2) \<open>r1 = Inr a\<close> Some by simp
          ultimately show ?thesis
            using assms(1) q1 \<open>r1 = Inr a\<close> Some lp c3(1) by (auto simp: loadRoom_def pg_view_def)
        qed
      qed
    qed
  qed
  then show "\<exists>fs. db' = db\<lparr>room_faults := fs\<rparr>" "res = Inr ro \<Longrightarrow> ro = pg_view db i" by auto
qed

lemma pg_Get_view:
  assumes "pg_Get i db = (db', res)" "tables_ok db"
  shows "\<exists>fs. db' = db\<lparr>room_faults := fs\<rparr>" and "res = Inr ro \<Longrightarrow> ro = pg_view db i"
proof -
  have "map_of (tbl_rooms db) [] = None" using assms(2) by (simp add: tables_ok_def map_of_eq_None_iff)
  then have none: "pg_view db [] = None" by (simp add: pg_view_def)
  have "(\<exists>fs. db' = db\<lparr>room_faults := fs\<rparr>) \<and> (res = Inr ro \<longrightarrow> ro = pg_view db i)"
  proof (cases "i = []")
    case True
    with assms(1) none show ?thesis by (auto simp: pg_Get_def intro: exI [of _ "room_faults db"])
  next
    case False
    with assms(1) have "loadRoom i db = (db', res)" by (simp add: pg_Get_def)
    from loadRoom_view [OF this assms(2)] show ?thesis by blast
  qed
  then show "\<exists>fs. db' = db\<lparr>room_faults := fs\<rparr>" "res = Inr ro \<Longrightarrow> ro = pg_view db i" by auto
qed

lemma tables_ok_faults [simp]: "tables_ok (db\<lparr>room_faults := fs\<rparr>) = tables_ok db"
  by (simp add: tables_ok_def)

lemma load_rooms_view:
  assumes "load_rooms is rooms db = (db', res)" "tables_ok db"
  shows "(\<exists>fs. db' = db\<lparr>room_faults := fs\<rparr>) \<and>
    (\<forall>out. res = Inr out \<longrightarrow> out = rooms @ List.map_filter (pg_view db) is)"
  using assms
proof (induction "is" arbitrary: rooms db)
  case Nil
  then show ?case by (auto simp: map_filter_simps intro: exI [of _ "room_faults db"])
next
  case (Cons i "is")
  obtain db1 r1 where l: "loadRoom i db = (db1, r1)" by (meson surj_pair)
  note v = loadRoom_view [OF l Cons.prems(2)]
  from v(1) obtain fs where db1: "db1 = db\<lparr>room_faults := fs\<rparr>" by blast
  show ?case
  proof (cases r1)
    case (Inl e)
    with Cons.prems l db1 show ?thesis by auto
  next
    case (Inr ro)
    have ro: "ro = pg_view db i" by (rule v(2) [OF Inr])
    let ?rooms = "case ro of None \<Rightarrow> rooms | Some x \<Rightarrow> rooms @ [x]"
    have "load_rooms is ?rooms db1 = (db', res)"
      using Cons.prems(1) l Inr by (cases ro) simp_all
    from Cons.IH [OF this] Cons.prems(2) db1 ro show ?thesis
      by (cases "pg_view db i") (auto simp: map_filter_simps)
  qed
qed

lemma pg_GetAll_view:
  assumes "pg_GetAll d db = (db', res)" "pg_inv d db"
  shows "\<exists>fs. db' = db\<lparr>room_faults := fs\<rparr>"
    and "res = Inr xs \<Longrightarrow> set xs = ran (pg_view db) \<and> distinct (map Id xs)"
proof -
  have t: "tables_ok db" and perm: "\<And>xs. mset (tie_order d xs) = mset xs"
    using assms(2) by (simp_all add: pg_inv_def)
  let ?ids = "map fst (sort_key (\<lambda>r. - snd r) (tie_order d (tbl_rooms db)))"
  have ids: "set ?ids = fst ` set (tbl_rooms db)" "distinct ?ids"
  proof -
    have m: "mset ?ids = mset (map fst (tbl_rooms db))" by (simp add: perm)
    show "set ?ids = fst ` set (tbl_rooms db)" using mset_eq_setD [OF m] by simp
    show "distinct ?ids" using mset_eq_imp_distinct_iff [OF m] t by (simp add: tables_ok_def)
  qed
  have some: "pg_view db i = Some (the (pg_view db i)) \<and> Id (the (pg_view db i)) = i" if "i \<in> set ?ids" for i
  proof -
    from that ids(1) obtain t where "map_of (tbl_rooms db) i = Some t"
      by (auto dest!: weak_map_of_SomeI)
    then show ?thesis by (simp add: pg_view_def)
  qed
  have mf: "List.map_filter (pg_view db) ?ids = map (\<lambda>i. the (pg_view db i)) ?ids"
  proof -
    have "filter (\<lambda>i. pg_view db i \<noteq> None) ?ids = ?ids" using some by (intro filter_True) (metis option.distinct(1))
    then show ?thesis by (simp add: map_filter_def comp_def)
  qed
  have rn: "ran (pg_view db) = (\<lambda>i. the (pg_view db i)) ` set ?ids"
  proof -
    have "i \<in> set ?ids" if "pg_view db i = Some x" for i x
      using that unfolding ids(1) by (auto simp: pg_view_def dest!: map_of_SomeD) force
    with some show ?thesis by (auto simp: ran_def image_iff) (metis option.sel)+
  qed
  have bk: "map Id (map (\<lambda>i. the (pg_view db i)) ?ids) = ?ids"
  proof -
    have "map Id (map (\<lambda>i. the (pg_view db i)) ks) = ks" if "\<And>i. i \<in> set ks \<Longrightarrow> Id (the (pg_view db i)) = i" for ks
      using that by (simp add: map_idI)
    then show ?thesis using some by blast
  qed
  have fin: "set (List.map_filter (pg_view db) ?ids) = ran (pg_view db)"
    "distinct (map Id (List.map_filter (pg_view db) ?ids))"
    unfolding mf by (simp only: set_map rn, simp only: bk ids(2))
  obtain db1 r1 where q1: "query (\<lambda>e. Errorf [Txt ''select room ids: '', Wrapped e])
      (\<lambda>db. map fst (sort_key (\<lambda>r. - snd r) (tie_order d (tbl_rooms db)))) db = (db1, r1)" by (meson surj_pair)
  from query_cases [OF q1] obtain fs1 where db1: "db1 = db\<lparr>room_faults := fs1\<rparr>" "\<forall>a. r1 = Inr a \<longrightarrow> a = ?ids" by auto
  have "(\<exists>fs. db' = db\<lparr>room_faults := fs\<rparr>) \<and> (\<forall>out. res = Inr out \<longrightarrow> out = List.map_filter (pg_view db) ?ids)"
  proof (cases r1)
    case (Inl e)
    with assms(1) q1 db1 show ?thesis by (auto simp: pg_GetAll_def)
  next
    case (Inr a)
    obtain db2 r2 where l: "load_rooms ?ids [] db1 = (db2, r2)" by (meson surj_pair)
    from load_rooms_view [OF l] t db1 obtain fs2 where db2: "db2 = db\<lparr>room_faults := fs2\<rparr>"
      "\<forall>out. r2 = Inr out \<longrightarrow> out = List.map_filter (pg_view db) ?ids" by auto
    show ?thesis
    proof (cases r2)
      case (Inl e)
      with assms(1) q1 db1 \<open>r1 = Inr a\<close> l db2 show ?thesis by (auto simp: pg_GetAll_def)
    next
      case (Inr rooms)
      obtain db3 r3 where q3: "query (\<lambda>e. Errorf [Txt ''iterate rooms: '', Wrapped e]) (\<lambda>db. rooms) db2 = (db3, r3)"
        by (meson surj_pair)
      from assms(1) q1 db1 \<open>r1 = Inr a\<close> l Inr q3 have "db' = db3" "res = r3" by (auto simp: pg_GetAll_def)
      with query_cases [OF q3] db2 Inr show ?thesis by auto
    qed
  qed
  with fin show "\<exists>fs. db' = db\<lparr>room_faults := fs\<rparr>"
    and "res = Inr xs \<Longrightarrow> set xs = ran (pg_view db) \<and> distinct (map Id xs)" by auto
qed

section \<open>Saving stores the room\<close>

lemma tx_exec_cases:
  assumes "tx_exec wrap stmt db = (db', res)"
  shows "(\<exists>fs. db' = db\<lparr>room_faults := fs\<rparr>) \<and> isl res \<or>
    (\<exists>fs a. res = Inr a \<and> stmt (db\<lparr>room_faults := fs\<rparr>) = Inr (db', a))"
  using assms by (auto simp: tx_exec_def Let_def split: option.splits sum.splits prod.splits)

lemma store_spell_row:
  "row_spell \<lparr>sp_id = n, sp_player_id = k, sp_name = Name s, sp_is_ready = IsReady s,
     sp_base_cooldown = BaseCooldown s, sp_remaining_cooldown = RemainingCooldown s,
     sp_cooldown_end_time = map_option (end_time_column d) (nullableTime (CooldownEndTime s))\<rparr> =
   store_spell (end_time_kept d) s"
  by (simp add: row_spell_def store_spell_def end_time_kept_def nullableTime_def)

text \<open>What inserting the spells of one player, and then all players, appends to the tables.\<close>

lemma save_spells_rows:
  assumes "save_spells d p k ss db = (db', res)"
  shows "next_player db' = next_player db \<and> next_spell db \<le> next_spell db'"
    and "res = Inr u \<Longrightarrow> \<exists>new. tbl_rooms db' = tbl_rooms db \<and> tbl_players db' = tbl_players db \<and>
      tbl_spells db' = tbl_spells db @ new \<and> (\<forall>s \<in> set new. sp_player_id s = k \<and> next_spell db \<le> sp_id s) \<and>
      ascending sp_id (next_spell db') new \<and> map row_spell new = map (store_spell (end_time_kept d)) ss"
proof -
  have "next_player db' = next_player db \<and> next_spell db \<le> next_spell db' \<and>
    (res = Inr u \<longrightarrow> (\<exists>new. tbl_rooms db' = tbl_rooms db \<and> tbl_players db' = tbl_players db \<and>
      tbl_spells db' = tbl_spells db @ new \<and> (\<forall>s \<in> set new. sp_player_id s = k \<and> next_spell db \<le> sp_id s) \<and>
      ascending sp_id (next_spell db') new \<and> map row_spell new = map (store_spell (end_time_kept d)) ss))"
    using assms
  proof (induction ss arbitrary: db)
    case Nil
    then show ?case by (auto simp: ascending_def)
  next
    case (Cons s ss)
    obtain db1 r1 where e: "tx_exec (\<lambda>e. Errorf [Txt ''insert spell '', Quoted (Name s), Txt '' for player '', Quoted (GameName p),
                                Txt ''#'', Quoted (TagLine p), Txt '': '', Wrapped e])
             (insert_spell d k s) db = (db1, r1)" by (meson surj_pair)
    from tx_exec_cases [OF e] show ?case
    proof (elim disjE conjE exE)
      fix fs assume "db1 = db\<lparr>room_faults := fs\<rparr>" "isl r1"
      with Cons.prems e show ?thesis by (auto simp: isl_def)
    next
      fix fs a assume r1: "r1 = Inr a" and i: "insert_spell d k s (db\<lparr>room_faults := fs\<rparr>) = Inr (db1, a)"
      let ?row = "\<lparr>sp_id = next_spell db, sp_player_id = k, sp_name = Name s, sp_is_ready = IsReady s,
         sp_base_cooldown = BaseCooldown s, sp_remaining_cooldown = RemainingCooldown s,
         sp_cooldown_end_time = map_option (end_time_column d) (nullableTime (CooldownEndTime s))\<rparr>"
      from i have db1: "tbl_rooms db1 = tbl_rooms db" "tbl_players db1 = tbl_players db"
        "tbl_spells db1 = tbl_spells db @ [?row]" "next_player db1 = next_player db"
        "next_spell db1 = Suc (next_spell db)"
        by (auto simp: insert_spell_def split: if_splits)
      have "save_spells d p k ss db1 = (db', res)" using Cons.prems e r1 by simp
      note IH = Cons.IH [OF this]
      show ?thesis
      proof (intro conjI impI)
        show "next_player db' = next_player db" "next_spell db \<le> next_spell db'" using IH db1 by auto
        assume "res = Inr u"
        with IH obtain new where new: "tbl_rooms db' = tbl_rooms db1" "tbl_players db' = tbl_players db1"
          "tbl_spells db' = tbl_spells db1 @ new" "\<forall>s \<in> set new. sp_player_id s = k \<and> next_spell db1 \<le> sp_id s"
          "ascending sp_id (next_spell db') new" "map row_spell new = map (store_spell (end_time_kept d)) ss"
          by auto
        have "ascending sp_id (next_spell db') (?row # new)"
          using new(4,5) db1(5) IH by (auto simp: ascending_def Suc_le_eq)
        with new db1 show "\<exists>new. tbl_rooms db' = tbl_rooms db \<and> tbl_players db' = tbl_players db \<and>
          tbl_spells db' = tbl_spells db @ new \<and> (\<forall>s \<in> set new. sp_player_id s = k \<and> next_spell db \<le> sp_id s) \<and>
          ascending sp_id (next_spell db') new \<and> map row_spell new = map (store_spell (end_time_kept d)) (s # ss)"
          by (intro exI [of _ "?row # new"]) (auto simp: store_spell_row Suc_le_eq)
      qed
    qed
  qed
  then show "next_player db' = next_player db \<and> next_spell db \<le> next_spell db'"
    and "res = Inr u \<Longrightarrow> \<exists>new. tbl_rooms db' = tbl_rooms db \<and> tbl_players db' = tbl_players db \<and>
      tbl_spells db' = tbl_spells db @ new \<and> (\<forall>s \<in> set new. sp_player_id s = k \<and> next_spell db \<le> sp_id s) \<and>
      ascending sp_id (next_spell db') new \<and> map row_spell new = map (store_spell (end_time_kept d)) ss"
    by auto
qed

lemma insert_player_Inr:
  assumes "insert_player i p db = Inr (db', k)"
  shows "k = next_player db \<and> tbl_rooms db' = tbl_rooms db \<and> tbl_spells db' = tbl_spells db \<and>
    next_player db' = Suc (next_player db) \<and> next_spell db' = next_spell db \<and>
    (\<exists>row. tbl_players db' = tbl_players db @ [row] \<and> pl_id row = next_player db \<and> pl_room_id row = i \<and>
       (\<forall>sps. row_player sps row = p\<lparr>Spells := Some (map row_spell (filter (\<lambda>s. sp_player_id s = next_player db) sps))\<rparr>))"
  using assms by (auto simp: insert_player_def row_player_def split: if_splits)

text \<open>What was appended when the players of a room were saved.\<close>

definition saved_players ::
  "room_driver \<Rightarrow> string \<Rightarrow> player list \<Rightarrow> room_db \<Rightarrow> room_db \<Rightarrow> player_row list \<Rightarrow> spell_row list \<Rightarrow> bool" where
  "saved_players d i ps db db' rows new \<longleftrightarrow>
     tbl_rooms db' = tbl_rooms db \<and> tbl_players db' = tbl_players db @ rows \<and> tbl_spells db' = tbl_spells db @ new \<and>
     (\<forall>r \<in> set rows. pl_room_id r = i \<and> next_player db \<le> pl_id r) \<and>
     (\<forall>s \<in> set new. sp_player_id s \<in> pl_id ` set rows \<and> next_spell db \<le> sp_id s) \<and>
     ascending pl_id (next_player db') rows \<and> ascending sp_id (next_spell db') new \<and>
     map (row_player new) rows = map (store_player (end_time_kept d)) ps"

lemma savePlayer_rows:
  assumes "savePlayer d i p db = (db', res)"
  shows "next_player db \<le> next_player db' \<and> next_spell db \<le> next_spell db'"
    and "res = Inr u \<Longrightarrow> \<exists>row new. saved_players d i [p] db db' [row] new \<and> pl_id row = next_player db \<and>
           next_player db' = Suc (next_player db)"
proof -
  obtain db1 r1 where e: "tx_exec (\<lambda>e. Errorf [Txt ''insert player '', Quoted (GameName p), Txt ''#'', Quoted (TagLine p),
      Txt '': '', Wrapped e]) (insert_player i p) db = (db1, r1)" by (meson surj_pair)
  have "next_player db \<le> next_player db' \<and> next_spell db \<le> next_spell db' \<and>
    (res = Inr u \<longrightarrow> (\<exists>row new. saved_players d i [p] db db' [row] new \<and> pl_id row = next_player db \<and>
           next_player db' = Suc (next_player db)))"
    using tx_exec_cases [OF e]
  proof (elim disjE conjE exE)
    fix fs assume "db1 = db\<lparr>room_faults := fs\<rparr>" "isl r1"
    with assms e show ?thesis by (auto simp: isl_def savePlayer_def)
  next
    fix fs k assume r1: "r1 = Inr k" and i: "insert_player i p (db\<lparr>room_faults := fs\<rparr>) = Inr (db1, k)"
    from insert_player_Inr [OF i] obtain row where db1: "k = next_player db" "tbl_rooms db1 = tbl_rooms db"
      "tbl_spells db1 = tbl_spells db" "next_player db1 = Suc (next_player db)" "next_spell db1 = next_spell db"
      "tbl_players db1 = tbl_players db @ [row]" "pl_id row = next_player db" "pl_room_id row = i"
      and rp: "\<And>sps. row_player sps row = p\<lparr>Spells := Some (map row_spell (filter (\<lambda>s. sp_player_id s = next_player db) sps))\<rparr>"
      by auto
    have sv: "save_spells d p k (elems (Spells p)) db1 = (db', res)" using assms e r1 by (simp add: savePlayer_def)
    note sr = save_spells_rows [OF sv]
    show ?thesis
    proof (intro conjI impI)
      show "next_player db \<le> next_player db'" "next_spell db \<le> next_spell db'" using sr(1) db1 by auto
      assume "res = Inr u"
      from sr(2) [OF this] obtain new where new: "tbl_rooms db' = tbl_rooms db1" "tbl_players db' = tbl_players db1"
        "tbl_spells db' = tbl_spells db1 @ new" "\<forall>s \<in> set new. sp_player_id s = k \<and> next_spell db1 \<le> sp_id s"
        "ascending sp_id (next_spell db') new" "map row_spell new = map (store_spell (end_time_kept d)) (elems (Spells p))"
        by blast
      have "filter (\<lambda>s. sp_player_id s = next_player db) new = new" using new(4) db1(1) by (intro filter_True) simp
      then have "row_player new row = store_player (end_time_kept d) p" using new(6) by (simp add: rp store_player_def)
      with new db1 sr(1) show "\<exists>row new. saved_players d i [p] db db' [row] new \<and> pl_id row = next_player db \<and>
          next_player db' = Suc (next_player db)"
        by (intro exI [of _ row] exI [of _ new]) (auto simp: saved_players_def ascending_def)
    qed
  qed
  then show "next_player db \<le> next_player db' \<and> next_spell db \<le> next_spell db'"
    and "res = Inr u \<Longrightarrow> \<exists>row new. saved_players d i [p] db db' [row] new \<and> pl_id row = next_player db \<and>
           next_player db' = Suc (next_player db)" by auto
qed

lemma row_player_append:
  "(\<And>s. s \<in> set other \<Longrightarrow> sp_player_id s \<noteq> pl_id r) \<Longrightarrow> row_player (sps @ other) r = row_player sps r"
  "(\<And>s. s \<in> set other \<Longrightarrow> sp_player_id s \<noteq> pl_id r) \<Longrightarrow> row_player (other @ sps) r = row_player sps r"
  by (simp_all add: row_player_def)

lemma saved_players_append:
  assumes "saved_players d i ps db db1 rows1 new1" "saved_players d i qs db1 db2 rows2 new2"
    and "next_player db \<le> next_player db1" "next_player db1 \<le> next_player db2"
    and "next_spell db \<le> next_spell db1" "next_spell db1 \<le> next_spell db2"
  shows "saved_players d i (ps @ qs) db db2 (rows1 @ rows2) (new1 @ new2)"
proof -
  note s1 = assms(1)[unfolded saved_players_def] and s2 = assms(2)[unfolded saved_players_def]
  have b1: "pl_id r < next_player db1" if "r \<in> set rows1" for r using s1 that by (auto simp: ascending_def)
  have b2: "next_player db1 \<le> pl_id r" if "r \<in> set rows2" for r using s2 that by auto
  have new1: "sp_player_id s < next_player db1" if "s \<in> set new1" for s using s1 that b1 by fastforce
  have new2: "next_player db1 \<le> sp_player_id s" if "s \<in> set new2" for s using s2 that b2 by fastforce
  have "map (row_player (new1 @ new2)) rows1 = map (row_player new1) rows1"
    using b1 new2 by (intro map_cong row_player_append(1)) fastforce+
  moreover have "map (row_player (new1 @ new2)) rows2 = map (row_player new2) rows2"
    using b2 new1 by (intro map_cong row_player_append(2)) fastforce+
  moreover have "ascending pl_id (next_player db2) (rows1 @ rows2)"
    using s1 s2 assms(4) by (intro ascending_append [of _ "next_player db1"]) auto
  moreover have "ascending sp_id (next_spell db2) (new1 @ new2)"
    using s1 s2 assms(6) by (intro ascending_append [of _ "next_spell db1"]) auto
  ultimately show ?thesis
    using s1 s2 assms(3,5) unfolding saved_players_def by auto
qed

lemma save_players_rows:
  "save_players d i ps db = (db', res) \<Longrightarrow>
   next_player db \<le> next_player db' \<and> next_spell db \<le> next_spell db' \<and>
   (res = Inr u \<longrightarrow> (\<exists>rows new. saved_players d i ps db db' rows new))"
proof (induction ps arbitrary: db)
  case Nil
  then show ?case by (auto simp: saved_players_def ascending_def)
next
  case (Cons p ps)
  obtain db1 r1 where s: "savePlayer d i p db = (db1, r1)" by (meson surj_pair)
  note sp = savePlayer_rows [OF s]
  show ?case
  proof (cases r1)
    case (Inl e)
    with Cons.prems s sp show ?thesis by auto
  next
    case (Inr v)
    from sp(2) [OF Inr] obtain row new where sv: "saved_players d i [p] db db1 [row] new" by blast
    have "save_players d i ps db1 = (db', res)" using Cons.prems s Inr by simp
    note IH = Cons.IH [OF this]
    show ?thesis
    proof (intro conjI impI)
      show "next_player db \<le> next_player db'" "next_spell db \<le> next_spell db'" using IH sp(1) by auto
      assume "res = Inr u"
      with IH obtain rows2 new2 where "saved_players d i ps db1 db' rows2 new2" by blast
      from saved_players_append [OF sv this] IH sp(1)
      show "\<exists>rows new. saved_players d i (p # ps) db db' rows new" by auto
    qed
  qed
qed

text \<open>The whole transaction: the content afterwards is the old one with the room stored.\<close>

lemma map_of_update_rooms: "map_of (AList.update k v xs) = (map_of xs)(k \<mapsto> v)"
  by (rule update_conv')

lemma delete_players_tables:
  "delete_players i db = Inr (db', u) \<Longrightarrow> tables_ok db \<Longrightarrow>
   tables_ok db' \<and> tbl_rooms db' = tbl_rooms db \<and> next_player db' = next_player db \<and> next_spell db' = next_spell db \<and>
   room_players i db' = [] \<and> (\<forall>p \<in> set (tbl_players db'). pl_room_id p \<noteq> i) \<and>
   (\<forall>k. k \<noteq> i \<longrightarrow> room_players k db' = room_players k db)"
proof -
  assume d: "delete_players i db = Inr (db', u)" and ok: "tables_ok db"
  let ?gone = "{pl_id p | p. p \<in> set (tbl_players db) \<and> pl_room_id p = i}"
  have db': "db' = db\<lparr>tbl_players := filter (\<lambda>p. pl_room_id p \<noteq> i) (tbl_players db),
                 tbl_spells := filter (\<lambda>s. sp_player_id s \<notin> ?gone) (tbl_spells db)\<rparr>"
    using d by (simp add: delete_players_def Let_def)
  have dist: "distinct (map pl_id (tbl_players db))" using ok ascending_distinct unfolding tables_ok_def by blast
  have kept: "pl_id p \<notin> ?gone" if "p \<in> set (tbl_players db)" "pl_room_id p \<noteq> i" for p
    using dist that by (auto simp: distinct_map inj_on_def)
  have "room_players k db' = room_players k db" if "k \<noteq> i" for k
  proof -
    have f: "filter (\<lambda>p. pl_room_id p = k) (tbl_players db') = filter (\<lambda>p. pl_room_id p = k) (tbl_players db)"
      using that by (auto simp: db' intro!: filter_cong)
    have "row_player (tbl_spells db') p = row_player (tbl_spells db) p"
      if "p \<in> set (filter (\<lambda>p. pl_room_id p = k) (tbl_players db))" for p
    proof -
      have "filter (\<lambda>s. sp_player_id s = pl_id p) (tbl_spells db') = filter (\<lambda>s. sp_player_id s = pl_id p) (tbl_spells db)"
        using kept [of p] that \<open>k \<noteq> i\<close> by (auto simp: db' intro!: filter_cong)
      then show ?thesis by (simp add: row_player_def)
    qed
    with f show ?thesis unfolding room_players_def f by (intro map_cong) auto
  qed
  moreover have "tables_ok db'"
  proof -
    have "sp_player_id q \<in> pl_id ` set (filter (\<lambda>p. pl_room_id p \<noteq> i) (tbl_players db))"
      if q: "q \<in> set (tbl_spells db)" "sp_player_id q \<notin> ?gone" for q
    proof -
      from q(1) ok obtain p where "p \<in> set (tbl_players db)" "sp_player_id q = pl_id p"
        unfolding tables_ok_def by fastforce
      with q(2) show ?thesis by auto
    qed
    with ok show ?thesis by (simp add: tables_ok_def db' ascending_filter)
  qed
  moreover have "room_players i db' = []" by (simp add: room_players_def db' filter_empty_conv)
  ultimately show ?thesis by (simp add: db')
qed

lemma tx_saveRoom_view:
  assumes "tx_saveRoom d x db = (db', res)" "tables_ok db" "Id x \<noteq> []"
  shows "next_player db \<le> next_player db' \<and> next_spell db \<le> next_spell db'"
    and "res = Inr u \<Longrightarrow> tables_ok db' \<and>
           pg_view db' = (pg_view db)(Id x \<mapsto> store_room (end_time_kept d) (last_updated_column d) x)"
proof -
  obtain db1 r1 where e1: "tx_exec (\<lambda>e. Errorf [Txt ''upsert room '', Quoted (Id x), Txt '': '', Wrapped e])
             (upsert_room d x) db = (db1, r1)" by (meson surj_pair)
  have "next_player db \<le> next_player db' \<and> next_spell db \<le> next_spell db' \<and>
    (res = Inr u \<longrightarrow> tables_ok db' \<and>
           pg_view db' = (pg_view db)(Id x \<mapsto> store_room (end_time_kept d) (last_updated_column d) x))"
    using tx_exec_cases [OF e1]
  proof (elim disjE conjE exE)
    fix fs assume "db1 = db\<lparr>room_faults := fs\<rparr>" "isl r1"
    with assms(1) e1 show ?thesis by (auto simp: isl_def tx_saveRoom_def)
  next
    fix fs a assume r1: "r1 = Inr a" and u1: "upsert_room d x (db\<lparr>room_faults := fs\<rparr>) = Inr (db1, a)"
    have db1: "db1 = db\<lparr>room_faults := fs, tbl_rooms := AList.update (Id x) (last_updated_column d (LastUpdated x)) (tbl_rooms db)\<rparr>"
      using u1 by (simp add: upsert_room_def)
    have ok1: "tables_ok db1" using assms(2,3) by (auto simp: tables_ok_def db1 distinct_update dom_update)
    obtain db2 r2 where e2: "tx_exec (\<lambda>e. Errorf [Txt ''delete old players for room '', Quoted (Id x), Txt '': '', Wrapped e])
                  (delete_players (Id x)) db1 = (db2, r2)" by (meson surj_pair)
    show ?thesis
      using tx_exec_cases [OF e2]
    proof (elim disjE conjE exE)
      fix fs2 assume "db2 = db1\<lparr>room_faults := fs2\<rparr>" "isl r2"
      with assms(1) e1 r1 e2 db1 show ?thesis by (auto simp: isl_def tx_saveRoom_def)
    next
      fix fs2 b assume r2: "r2 = Inr b" and u2: "delete_players (Id x) (db1\<lparr>room_faults := fs2\<rparr>) = Inr (db2, b)"
      have "tables_ok (db1\<lparr>room_faults := fs2\<rparr>)" using ok1 by simp
      note dp = delete_players_tables [OF u2 this, simplified]
      have sv: "save_players d (Id x) (elems (Players x)) db2 = (db', res)"
        using assms(1) e1 r1 e2 r2 by (simp add: tx_saveRoom_def)
      note sp = save_players_rows [OF sv]
      show ?thesis
      proof (intro conjI impI)
        show "next_player db \<le> next_player db'" "next_spell db \<le> next_spell db'" using sp dp db1 by auto
        assume "res = Inr u"
        with sp obtain rows new where "saved_players d (Id x) (elems (Players x)) db2 db' rows new" by blast
        note s = this[unfolded saved_players_def]
        have ok2: "tables_ok db2" using dp by simp
        have low: "pl_id p < next_player db2" if "p \<in> set (tbl_players db2)" for p
          using ok2 that by (auto simp: tables_ok_def ascending_def)
        have high: "next_player db2 \<le> sp_player_id q" if "q \<in> set new" for q using s that by auto
        have old: "row_player (tbl_spells db') p = row_player (tbl_spells db2) p" if "p \<in> set (tbl_players db2)" for p
        proof -
          have "sp_player_id q \<noteq> pl_id p" if "q \<in> set new" for q
            using low [OF \<open>p \<in> set (tbl_players db2)\<close>] high [OF that] by linarith
          then have "row_player (tbl_spells db2 @ new) p = row_player (tbl_spells db2) p"
            by (rule row_player_append(1))
          with s show ?thesis by simp
        qed
        have fresh: "row_player (tbl_spells db') p = row_player new p" if "p \<in> set rows" for p
        proof -
          have "next_player db2 \<le> pl_id p" using s that by auto
          moreover have "sp_player_id q < next_player db2" if "q \<in> set (tbl_spells db2)" for q
            using ok2 that low unfolding tables_ok_def by fastforce
          ultimately have "sp_player_id q \<noteq> pl_id p" if "q \<in> set (tbl_spells db2)" for q
            using that by (metis leD)
          then have "row_player (tbl_spells db2 @ new) p = row_player new p"
            by (rule row_player_append(2))
          with s show ?thesis by simp
        qed
        have rp_other: "room_players k db' = room_players k db" if "k \<noteq> Id x" for k
        proof -
          have "filter (\<lambda>p. pl_room_id p = k) rows = []" using s that by (auto simp: filter_empty_conv)
          then have "room_players k db' = map (row_player (tbl_spells db')) (filter (\<lambda>p. pl_room_id p = k) (tbl_players db2))"
            using s by (simp add: room_players_def)
          also have "\<dots> = room_players k db2" using old by (simp add: room_players_def)
          also have "\<dots> = room_players k db1" using dp that by simp
          also have "\<dots> = room_players k db" by (simp add: db1 room_players_def)
          finally show ?thesis .
        qed
        have rp_this: "room_players (Id x) db' = map (store_player (end_time_kept d)) (elems (Players x))"
        proof -
          have "filter (\<lambda>p. pl_room_id p = Id x) (tbl_players db2) = []" using dp by (auto simp: filter_empty_conv)
          moreover have "filter (\<lambda>p. pl_room_id p = Id x) rows = rows" using s by (intro filter_True) auto
          ultimately have "room_players (Id x) db' = map (row_player (tbl_spells db')) rows"
            using s by (simp add: room_players_def)
          also have "\<dots> = map (row_player new) rows" using fresh by simp
          finally show ?thesis using s by simp
        qed
        have rooms: "tbl_rooms db' = AList.update (Id x) (last_updated_column d (LastUpdated x)) (tbl_rooms db)"
          using s dp by (simp add: db1)
        show "pg_view db' = (pg_view db)(Id x \<mapsto> store_room (end_time_kept d) (last_updated_column d) x)"
        proof (rule ext)
          fix k show "pg_view db' k = ((pg_view db)(Id x \<mapsto> store_room (end_time_kept d) (last_updated_column d) x)) k"
            by (cases "k = Id x") (simp_all add: pg_view_def rooms map_of_update_rooms rp_other rp_this store_room_def)
        qed
        have "ascending pl_id (next_player db') (tbl_players db2 @ rows)"
          using ok2 s sp by (intro ascending_append [of _ "next_player db2"]) (auto simp: tables_ok_def)
        moreover have "ascending sp_id (next_spell db') (tbl_spells db2 @ new)"
          using ok2 s sp by (intro ascending_append [of _ "next_spell db2"]) (auto simp: tables_ok_def)
        ultimately show "tables_ok db'"
          using ok2 s dp unfolding tables_ok_def by auto
      qed
    qed
  qed
  then show "next_player db \<le> next_player db' \<and> next_spell db \<le> next_spell db'"
    and "res = Inr u \<Longrightarrow> tables_ok db' \<and>
           pg_view db' = (pg_view db)(Id x \<mapsto> store_room (end_time_kept d) (last_updated_column d) x)" by auto
qed

lemma rollback_view [simp]: "pg_view (rollback db db') = pg_view db"
  by (rule ext) (simp add: pg_view_def room_players_def rollback_def)

lemma tables_ok_rollback:
  "tables_ok db \<Longrightarrow> next_player db \<le> next_player db' \<Longrightarrow> next_spell db \<le> next_spell db' \<Longrightarrow> tables_ok (rollback db db')"
  by (auto simp: tables_ok_def rollback_def intro: ascending_mono)

lemma pg_Save_view:
  assumes "pg_Save d (Some x) db = (db', res)" "tables_ok db" "Id x \<noteq> []"
  defines "stored \<equiv> (pg_view db)(Id x \<mapsto> store_room (end_time_kept d) (last_updated_column d) x)"
  shows "tables_ok db' \<and> (pg_view db' = pg_view db \<and> isl res \<or> pg_view db' = stored)"
proof -
  obtain db1 r1 where b: "tx_exec (\<lambda>e. Errorf [Txt ''begin room save transaction: '', Wrapped e]) (\<lambda>db. Inr (db, ())) db = (db1, r1)"
    by (meson surj_pair)
  from tx_exec_cases [OF b] obtain fs where db1: "db1 = db\<lparr>room_faults := fs\<rparr>" by auto
  show ?thesis
  proof (cases r1)
    case (Inl e)
    with assms(1) b db1 assms(2) show ?thesis by (auto simp: pg_Save_def)
  next
    case (Inr v)
    obtain db2 r2 where t: "tx_saveRoom d x db1 = (db2, r2)" by (meson surj_pair)
    have "tables_ok db1" using assms(2) db1 by simp
    note tv = tx_saveRoom_view [OF t this assms(3)]
    have rb: "tables_ok (rollback db db2)" "tables_ok (rollback db (db2\<lparr>room_faults := gs\<rparr>))" for gs
      using tables_ok_rollback [OF assms(2)] tv(1) db1 by auto
    show ?thesis
    proof (cases r2)
      case (Inl e)
      with assms(1) b \<open>r1 = Inr v\<close> t rb show ?thesis by (auto simp: pg_Save_def)
    next
      case (Inr w)
      note st = tv(2) [OF Inr]
      show ?thesis
      proof (cases "next_fault (room_faults db2)")
        case NoFault
        with assms(1) b \<open>r1 = Inr v\<close> t Inr st db1 show ?thesis by (auto simp: pg_Save_def Let_def stored_def)
      next
        case (FailBefore e)
        with assms(1) b \<open>r1 = Inr v\<close> t Inr rb show ?thesis by (auto simp: pg_Save_def Let_def)
      next
        case (FailAfter e)
        with assms(1) b \<open>r1 = Inr v\<close> t Inr st db1 show ?thesis by (auto simp: pg_Save_def Let_def stored_def)
      qed
    qed
  qed
qed

lemma delete_room_view:
  assumes "tables_ok db"
  shows "tables_ok (delete_room i db) \<and> pg_view (delete_room i db) = (pg_view db)(i := None)"
proof -
  obtain db' where d: "delete_players i db = Inr (db', ())" by (simp add: delete_players_def Let_def)
  note dp = delete_players_tables [OF d assms]
  let ?db = "db'\<lparr>tbl_rooms := AList.delete i (tbl_rooms db')\<rparr>"
  have rp: "room_players k (db'\<lparr>tbl_rooms := rs\<rparr>) = room_players k db'" for k rs by (simp add: room_players_def)
  have "tables_ok ?db"
    using dp by (auto simp: tables_ok_def AList.delete_eq distinct_map_filter)
  moreover have "pg_view ?db k = ((pg_view db)(i := None)) k" for k
    using dp by (cases "k = i") (simp_all add: pg_view_def rp delete_conv)
  ultimately show ?thesis by (simp add: delete_room_def d fun_eq_iff)
qed

lemma pg_Delete_view:
  assumes "pg_Delete i db = (db', res)" "tables_ok db"
  shows "tables_ok db' \<and> (pg_view db' = pg_view db \<and> isl res \<or> pg_view db' = (pg_view db)(i := None))"
  using assms delete_room_view [of "db\<lparr>room_faults := rest_faults (room_faults db)\<rparr>" i]
  by (auto simp: pg_Delete_def Let_def split: fault.splits)

section \<open>The contract\<close>

interpretation pg: room_repository "pg_rooms d" pg_view "pg_inv d" "end_time_kept d" "last_updated_column d"
  for d
proof (unfold_locales, goal_cases)
  case (1 s i v)
  then show ?case by (auto simp: pg_view_def)
next
  case (2 s i s' res)
  then show ?case using pg_Get_view(1) [of i s s' res] by (auto simp: pg_rooms_def pg_inv_def)
next
  case (3 s i s')
  then show ?case using pg_Get_view(2) [of i s s' _ None] by (auto simp: pg_rooms_def pg_inv_def)
next
  case (4 s i s' x)
  then have "Some x = pg_view s i" using pg_Get_view(2) [of i s s' _ "Some x"] by (simp add: pg_rooms_def pg_inv_def)
  then show ?case by (metis agree_refl)
next
  case (5 s s' res2)
  then show ?case using pg_GetAll_view(1) [of d s s' res2] by (auto simp: pg_rooms_def)
next
  case (6 s s' xs)
  then show ?case using pg_GetAll_view(2) [of d s s' "Inr xs" xs] by (auto simp: pg_rooms_def)
next
  case (7 s s' res3)
  then show ?case by (auto simp: pg_rooms_def pg_Save_def)
next
  case (8 s x s' u)
  then show ?case using pg_Save_view [of d x s s' "Inr u"] by (auto simp: pg_rooms_def pg_inv_def)
next
  case (9 s x s' e)
  then show ?case using pg_Save_view [of d x s s' "Inl e"] by (auto simp: pg_rooms_def pg_inv_def)
next
  case (10 s i s' u)
  then show ?case using pg_Delete_view [of i s s' "Inr u"] by (auto simp: pg_rooms_def pg_inv_def)
next
  case (11 s i s' e)
  then show ?case using pg_Delete_view [of i s s' "Inl e"] by (auto simp: pg_rooms_def pg_inv_def)
qed

text \<open>
  The room service runs on it when the end time of a cooldown stays on its side of the first
  second, which the microseconds of a \<open>TIMESTAMPTZ\<close> grant.
\<close>

lemma pg_room_service:
  assumes "\<And>t. second \<le> end_time_column d t \<longleftrightarrow> second \<le> t"
  shows "room_service (pg_rooms d) pg_view (pg_inv d) (end_time_kept d) (last_updated_column d)"
  by unfold_locales (simp add: end_time_kept_def IsZero_def assms)

section \<open>Properties\<close>

definition micros :: room_driver where
  "micros = \<lparr>end_time_column = (\<lambda>t. t div 1000 * 1000), last_updated_column = (\<lambda>t. t div 1000 * 1000), tie_order = (\<lambda>xs. xs)\<rparr>"

definition empty_db :: room_db where
  "empty_db = \<lparr>tbl_rooms = [], tbl_players = [], tbl_spells = [], next_player = 1, next_spell = 1, room_faults = []\<rparr>"

definition saved_room :: room where
  "saved_room = \<lparr>Id = ''7-1'', Players = Some
     [\<lparr>Champion = ''Ahri'', ChampionImage = [], GameName = ''me'', TagLine = ''EUW'', ChampionId = 103,
       SummonerSpellHaste = 18, Spells = Some
         [\<lparr>Name = ''Flash'', IsReady = True, BaseCooldown = 300, CooldownEndTime = zero_time, RemainingCooldown = 0\<rparr>]\<rparr>],
     LastUpdated = 5 * hour\<rparr>"

lemma empty_db_inv: "pg_inv micros empty_db"
  by (simp add: pg_inv_def tables_ok_def micros_def empty_db_def ascending_def)

text \<open>
  C15: what was saved is loaded: after a successful save, a successful load of the room
  returns its identifier, its players and their spells in order, every field as saved except
  that times went through their columns and the zero time stays zero; every other room loads
  as before.
\<close>

theorem saved_room_is_loaded:
  assumes "pg_inv d db" "Id x \<noteq> []" "pg_Save d (Some x) db = (db1, Inr u)"
    and "pg_Get i db1 = (db2, Inr ro)"
  shows "ro = (if i = Id x then Some (store_room (end_time_kept d) (last_updated_column d) x) else pg_view db i)"
proof -
  have t: "tables_ok db" using assms(1) by (simp add: pg_inv_def)
  from pg_Save_view [OF assms(3) t assms(2)]
  have "tables_ok db1" "pg_view db1 = (pg_view db)(Id x \<mapsto> store_room (end_time_kept d) (last_updated_column d) x)"
    by auto
  with pg_Get_view(2) [OF assms(4)] show ?thesis by simp
qed

theorem saved_room_is_loaded_witness:
  "\<exists>db1 db2. pg_Get ''7-1'' db1 = (db2, Inr (Some (store_room (end_time_kept micros) (last_updated_column micros) saved_room)))"
proof -
  obtain db1 where s: "pg_Save micros (Some saved_room) empty_db = (db1, Inr ())"
    by (simp add: pg_Save_def tx_saveRoom_def tx_exec_def upsert_room_def delete_players_def savePlayer_def
        insert_player_def insert_spell_def int32_def saved_room_def empty_db_def micros_def Let_def)
  then have f: "room_faults db1 = []"
    by (auto simp: pg_Save_def tx_saveRoom_def tx_exec_def upsert_room_def delete_players_def savePlayer_def
        insert_player_def insert_spell_def int32_def saved_room_def empty_db_def micros_def Let_def)
  obtain db2 ro where g: "pg_Get ''7-1'' db1 = (db2, Inr ro)"
    using s
    by (auto simp: pg_Save_def tx_saveRoom_def tx_exec_def upsert_room_def delete_players_def savePlayer_def
        insert_player_def insert_spell_def int32_def saved_room_def empty_db_def micros_def Let_def
        pg_Get_def loadRoom_def query_def loadPlayers_def loadSpells_def)
  have "Id saved_room = ''7-1''" by (simp add: saved_room_def)
  with saved_room_is_loaded [OF empty_db_inv _ s g] g show ?thesis by auto
qed

text \<open>
  C14: saving is atomic: whatever call of the transaction fails, the stored rooms are as
  before or, when only the reply of the commit is lost, with the whole room stored; no
  partial list of players or spells is ever visible and the tables stay consistent.
\<close>

theorem save_is_atomic:
  assumes "pg_inv d db" "Id x \<noteq> []" "pg_Save d (Some x) db = (db', res)"
  shows "pg_inv d db' \<and> (pg_view db' = pg_view db \<and> isl res \<or>
    pg_view db' = (pg_view db)(Id x \<mapsto> store_room (end_time_kept d) (last_updated_column d) x))"
  using pg_Save_view [OF assms(3) _ assms(2)] assms(1) by (simp add: pg_inv_def)

theorem save_is_atomic_witness:
  "pg_view (fst (pg_Save micros (Some saved_room)
     (empty_db\<lparr>room_faults := [NoFault, NoFault, NoFault, FailBefore CtxDeadline]\<rparr>))) ''none'' = None"
proof -
  let ?db = "empty_db\<lparr>room_faults := [NoFault, NoFault, NoFault, FailBefore CtxDeadline]\<rparr>"
  obtain db' res where s: "pg_Save micros (Some saved_room) ?db = (db', res)" by (meson surj_pair)
  have "pg_inv micros ?db" "Id saved_room \<noteq> []" using empty_db_inv by (simp_all add: saved_room_def)
  note save_is_atomic [OF this s]
  moreover have "pg_view ?db ''none'' = None" by (simp add: pg_view_def empty_db_def)
  moreover have "Id saved_room \<noteq> ''none''" by (simp add: saved_room_def)
  ultimately show ?thesis using s by auto
qed

end
