(* ===== verification/RoomCache.thy ===== *)
theory RoomCache
  imports PgRooms RoomProps
begin

text \<open>
  The cached room repository (\<open>internal/repositories/cached_room_repository.go\<close>) over any
  repository, with the Redis room cache (\<open>internal/cache/redis_room_cache.go\<close>).
\<close>

section \<open>The Redis cache\<close>

text \<open>
  Keys with a value and an expiry. A value is the JSON text of a room, kept as the room it
  decodes to, or a text that does not decode (\<open>None\<close>). \<open>rc_now\<close> is the server's clock, and
  reads and writes have schedules of their own. The library sends no expiry for a duration of
  zero, which the configuration can set.
\<close>

record redis_cache =
  rc_entries :: "(string \<times> room option \<times> time option) list"
  rc_now :: time
  rc_ttl :: duration
  rc_get_faults :: "fault list"
  rc_write_faults :: "fault list"

definition roomKey :: "string \<Rightarrow> string" where
  "roomKey roomID = ''room:'' @ roomID"

definition cache_expiry :: "time \<Rightarrow> duration \<Rightarrow> time option" where
  "cache_expiry now ttl = (if 0 < ttl then Some (now + ttl) else None)"

definition unexpired :: "time \<Rightarrow> time option \<Rightarrow> bool" where
  "unexpired now expiry \<longleftrightarrow> (case expiry of None \<Rightarrow> True | Some t \<Rightarrow> now < t)"

definition live :: "redis_cache \<Rightarrow> string \<Rightarrow> room option option" where
  "live c roomID =
     (case map_of (rc_entries c) (roomKey roomID) of
        None \<Rightarrow> None
      | Some (v, expiry) \<Rightarrow> if unexpired (rc_now c) expiry then Some v else None)"

definition cache_Get :: "string \<Rightarrow> redis_cache \<Rightarrow> redis_cache \<times> (go_error + room option)" where
  "cache_Get roomID c =
     (let c1 = c\<lparr>rc_get_faults := rest_faults (rc_get_faults c)\<rparr>
      in case fault_error (next_fault (rc_get_faults c)) of
           Some e \<Rightarrow> (c1, Inl (Errorf [Txt ''get room '', Quoted roomID, Txt '' from Redis: '', Wrapped e]))
         | None \<Rightarrow>
             (case live c roomID of
                None \<Rightarrow> (c1, Inr None)
              | Some None \<Rightarrow> (c1, Inl (Errorf [Txt ''unmarshal cached room '', Quoted roomID, Txt '': '', Wrapped json_error]))
              | Some (Some x) \<Rightarrow> (c1, Inr (Some x))))"

definition cache_write ::
  "(redis_cache \<Rightarrow> redis_cache) \<Rightarrow> (go_error \<Rightarrow> go_error) \<Rightarrow> redis_cache \<Rightarrow> redis_cache \<times> (go_error + unit)" where
  "cache_write upd wrap c =
     (let c1 = c\<lparr>rc_write_faults := rest_faults (rc_write_faults c)\<rparr>
      in case next_fault (rc_write_faults c) of
           NoFault \<Rightarrow> (upd c1, Inr ())
         | FailBefore e \<Rightarrow> (c1, Inl (wrap e))
         | FailAfter e \<Rightarrow> (upd c1, Inl (wrap e)))"

definition cache_Set :: "room option \<Rightarrow> redis_cache \<Rightarrow> redis_cache \<times> (go_error + unit)" where
  "cache_Set ro c =
     (case ro of
        None \<Rightarrow> (c, Inr ())
      | Some x \<Rightarrow> cache_write
          (\<lambda>c. c\<lparr>rc_entries := AList.update (roomKey (Id x)) (Some x, cache_expiry (rc_now c) (rc_ttl c)) (rc_entries c)\<rparr>)
          (\<lambda>e. Errorf [Txt ''set room '', Quoted (Id x), Txt '' in Redis: '', Wrapped e]) c)"

definition cache_Delete :: "string \<Rightarrow> redis_cache \<Rightarrow> redis_cache \<times> (go_error + unit)" where
  "cache_Delete roomID =
     cache_write (\<lambda>c. c\<lparr>rc_entries := AList.delete (roomKey roomID) (rc_entries c)\<rparr>)
       (\<lambda>e. Errorf [Txt ''delete room '', Quoted roomID, Txt '' from Redis: '', Wrapped e])"

section \<open>The cached repository\<close>

text \<open>
  The cache may be nil. \<open>cr_labels\<close> are the metric updates (\<open>CacheErrors\<close>, \<open>CacheRequests\<close>,
  \<open>RepositoryOperations\<close> with their label values, and \<open>ActiveRooms\<close>), in order.
\<close>

record 's cached_repo =
  cr_repo :: 's
  cr_cache :: "redis_cache option"
  cr_labels :: "string list list"

definition inc :: "string list \<Rightarrow> 's cached_repo \<Rightarrow> 's cached_repo" where
  "inc labels st = st\<lparr>cr_labels := cr_labels st @ [labels]\<rparr>"

text \<open>A write to the cache whose error is only counted and logged.\<close>

definition quiet_write ::
  "(redis_cache \<Rightarrow> redis_cache \<times> (go_error + unit)) \<Rightarrow> string \<Rightarrow> 's cached_repo \<Rightarrow> 's cached_repo" where
  "quiet_write wr op st =
     (case cr_cache st of
        None \<Rightarrow> st
      | Some c \<Rightarrow>
          (case wr c of
             (c', Inl e) \<Rightarrow> inc [''cache_errors'', op] (st\<lparr>cr_cache := Some c'\<rparr>)
           | (c', Inr u) \<Rightarrow> st\<lparr>cr_cache := Some c'\<rparr>))"

definition cached_load :: "'s room_repo \<Rightarrow> string \<Rightarrow> 's cached_repo \<Rightarrow> 's cached_repo \<times> (go_error + room option)" where
  "cached_load r i st =
     (case repo_get r i (cr_repo st) of
        (s, Inl e) \<Rightarrow> (inc [''repository'', ''get'', ''error''] (st\<lparr>cr_repo := s\<rparr>), Inl e)
      | (s, Inr None) \<Rightarrow> (inc [''repository'', ''get'', ''not_found''] (st\<lparr>cr_repo := s\<rparr>), Inr None)
      | (s, Inr (Some x)) \<Rightarrow>
          (quiet_write (cache_Set (Some x)) ''set'' (inc [''repository'', ''get'', ''success''] (st\<lparr>cr_repo := s\<rparr>)),
           Inr (Some x)))"

definition cached_Get :: "'s room_repo \<Rightarrow> string \<Rightarrow> 's cached_repo \<Rightarrow> 's cached_repo \<times> (go_error + room option)" where
  "cached_Get r i st =
     (case cr_cache st of
        None \<Rightarrow> cached_load r i st
      | Some c \<Rightarrow>
          (case cache_Get i c of
             (c', Inl e) \<Rightarrow> cached_load r i (inc [''cache_errors'', ''get''] (st\<lparr>cr_cache := Some c'\<rparr>))
           | (c', Inr (Some x)) \<Rightarrow> (inc [''cache_requests'', ''hit''] (st\<lparr>cr_cache := Some c'\<rparr>), Inr (Some x))
           | (c', Inr None) \<Rightarrow> cached_load r i (inc [''cache_requests'', ''miss''] (st\<lparr>cr_cache := Some c'\<rparr>))))"

definition cached_GetAll :: "'s room_repo \<Rightarrow> 's cached_repo \<Rightarrow> 's cached_repo \<times> (go_error + room list)" where
  "cached_GetAll r st =
     (case repo_get_all r (cr_repo st) of
        (s, Inl e) \<Rightarrow> (inc [''repository'', ''get_all'', ''error''] (st\<lparr>cr_repo := s\<rparr>), Inl e)
      | (s, Inr xs) \<Rightarrow>
          (inc [''active_rooms'', show_nat (length xs)]
             (inc [''repository'', ''get_all'', ''success''] (st\<lparr>cr_repo := s\<rparr>)), Inr xs))"

definition cached_Save :: "'s room_repo \<Rightarrow> room option \<Rightarrow> 's cached_repo \<Rightarrow> 's cached_repo \<times> (go_error + unit)" where
  "cached_Save r ro st =
     (case repo_save r ro (cr_repo st) of
        (s, Inl e) \<Rightarrow> (inc [''repository'', ''save'', ''error''] (st\<lparr>cr_repo := s\<rparr>), Inl e)
      | (s, Inr u) \<Rightarrow>
          (let st1 = inc [''repository'', ''save'', ''success''] (st\<lparr>cr_repo := s\<rparr>)
           in (if ro = None then st1 else quiet_write (cache_Set ro) ''set'' st1, Inr ())))"

definition cached_Delete :: "'s room_repo \<Rightarrow> string \<Rightarrow> 's cached_repo \<Rightarrow> 's cached_repo \<times> (go_error + unit)" where
  "cached_Delete r i st =
     (case repo_delete r i (cr_repo st) of
        (s, Inl e) \<Rightarrow> (inc [''repository'', ''delete'', ''error''] (st\<lparr>cr_repo := s\<rparr>), Inl e)
      | (s, Inr u) \<Rightarrow>
          (quiet_write (cache_Delete i) ''delete''
             (inc [''repository'', ''delete'', ''success''] (st\<lparr>cr_repo := s\<rparr>)), Inr ()))"

definition cached_rooms :: "'s room_repo \<Rightarrow> 's cached_repo room_repo" where
  "cached_rooms r = \<lparr>repo_get = cached_Get r, repo_get_all = cached_GetAll r, repo_save = cached_Save r,
                     repo_delete = cached_Delete r\<rparr>"

section \<open>Coherence\<close>

text \<open>
  Every live entry is a room that is stored as what the repository holds. That needs a
  repository whose failed writes have no effect, and a cache that accepts writes.
\<close>

definition coherent ::
  "(time \<Rightarrow> time) \<Rightarrow> (time \<Rightarrow> time) \<Rightarrow> (string \<Rightarrow> room option) \<Rightarrow> redis_cache \<Rightarrow> bool" where
  "coherent f g m c \<longleftrightarrow> (\<forall>i x. live c i = Some (Some x) \<longrightarrow> (\<exists>v. m i = Some v \<and> agree f g x v))"

definition cached_view :: "('s \<Rightarrow> string \<Rightarrow> room option) \<Rightarrow> 's cached_repo \<Rightarrow> string \<Rightarrow> room option" where
  "cached_view view st = view (cr_repo st)"

definition cached_inv ::
  "(time \<Rightarrow> time) \<Rightarrow> (time \<Rightarrow> time) \<Rightarrow> ('s \<Rightarrow> string \<Rightarrow> room option) \<Rightarrow> ('s \<Rightarrow> bool) \<Rightarrow> 's cached_repo \<Rightarrow> bool" where
  "cached_inv f g view I st \<longleftrightarrow> I (cr_repo st) \<and>
     (\<forall>c. cr_cache st = Some c \<longrightarrow> coherent f g (view (cr_repo st)) c \<and> rc_write_faults c = [])"

lemma roomKey_inject [simp]: "roomKey i = roomKey j \<longleftrightarrow> i = j"
  by (simp add: roomKey_def)

lemma live_after_write:
  "live (c\<lparr>rc_write_faults := fs, rc_entries := AList.update (roomKey k) (v, t) (rc_entries c)\<rparr>) i =
     (if i = k then (if unexpired (rc_now c) t then Some v else None) else live c i)"
  "live (c\<lparr>rc_write_faults := fs, rc_entries := AList.delete (roomKey k) (rc_entries c)\<rparr>) i =
     (if i = k then None else live c i)"
  by (simp_all add: live_def update_conv delete_conv split: option.split)

lemma live_faults [simp]:
  "live (c\<lparr>rc_get_faults := fs\<rparr>) = live c" "live (c\<lparr>rc_write_faults := fs\<rparr>) = live c"
  by (simp_all add: live_def fun_eq_iff split: option.split)

lemma coherent_faults [simp]:
  "coherent f g m (c\<lparr>rc_get_faults := fs\<rparr>) = coherent f g m c"
  "coherent f g m (c\<lparr>rc_write_faults := fs\<rparr>) = coherent f g m c"
  by (simp_all add: coherent_def)

lemma inc_simps [simp]:
  "cr_repo (inc l st) = cr_repo st" "cr_cache (inc l st) = cr_cache st"
  by (simp_all add: inc_def)

lemma cached_inv_inc [simp]: "cached_inv f g view I (inc l st) = cached_inv f g view I st"
  by (simp add: cached_inv_def)

lemma quiet_write_repo [simp]: "cr_repo (quiet_write wr op st) = cr_repo st"
  by (auto simp: quiet_write_def split: option.splits prod.splits sum.splits)

text \<open>A write that succeeds, as all do when no fault is scheduled.\<close>

lemma cache_Set_ok:
  assumes "rc_write_faults c = []" "m (Id x) = Some v" "agree f g x v"
    and "\<And>i y. i \<noteq> Id x \<Longrightarrow> live c i = Some (Some y) \<Longrightarrow> \<exists>w. m i = Some w \<and> agree f g y w"
  shows "\<exists>c'. cache_Set (Some x) c = (c', Inr ()) \<and> coherent f g m c' \<and> rc_write_faults c' = []"
  using assms by (auto simp: cache_Set_def cache_write_def coherent_def live_after_write Let_def split: if_splits)

lemma cache_Delete_ok:
  assumes "rc_write_faults c = []"
    and "\<And>k y. k \<noteq> i \<Longrightarrow> live c k = Some (Some y) \<Longrightarrow> \<exists>w. m k = Some w \<and> agree f g y w"
  shows "\<exists>c'. cache_Delete i c = (c', Inr ()) \<and> coherent f g m c' \<and> rc_write_faults c' = []"
  using assms by (auto simp: cache_Delete_def cache_write_def coherent_def live_after_write Let_def)

lemma cache_Get_cases:
  "cache_Get i c = (c', res) \<Longrightarrow> (\<exists>fs. c' = c\<lparr>rc_get_faults := fs\<rparr>) \<and>
     (\<forall>x. res = Inr (Some x) \<longrightarrow> live c i = Some (Some x))"
  by (auto simp: cache_Get_def Let_def split: option.splits)

text \<open>A repository whose failed writes have no effect.\<close>

locale definite_repository = room_repository r view inv f g
  for r :: "'s room_repo" and view inv f g +
  assumes save_definite: "inv s \<Longrightarrow> Id x \<noteq> [] \<Longrightarrow> repo_save r (Some x) s = (s', Inl e) \<Longrightarrow> view s' = view s"
    and delete_definite: "inv s \<Longrightarrow> repo_delete r i s = (s', Inl e) \<Longrightarrow> view s' = view s"
begin

abbreviation cinv :: "'s cached_repo \<Rightarrow> bool" where
  "cinv \<equiv> cached_inv f g view inv"

lemma quiet_Set_inv:
  assumes "inv (cr_repo st)" "\<And>c. cr_cache st = Some c \<Longrightarrow> rc_write_faults c = []"
    and "view (cr_repo st) (Id x) = Some v" "agree f g x v"
    and "\<And>c i y. cr_cache st = Some c \<Longrightarrow> i \<noteq> Id x \<Longrightarrow> live c i = Some (Some y) \<Longrightarrow>
           \<exists>w. view (cr_repo st) i = Some w \<and> agree f g y w"
  shows "cinv (quiet_write (cache_Set (Some x)) op st)"
proof (cases "cr_cache st")
  case None
  with assms(1) show ?thesis by (simp add: quiet_write_def cached_inv_def)
next
  case (Some c)
  from cache_Set_ok [OF assms(2) [OF Some], of "view (cr_repo st)" x v f g] assms(3,4) assms(5) [OF Some]
  obtain c' where "cache_Set (Some x) c = (c', Inr ())" "coherent f g (view (cr_repo st)) c'" "rc_write_faults c' = []"
    by blast
  with Some assms(1) show ?thesis by (simp add: quiet_write_def cached_inv_def)
qed

lemma cached_load_step:
  assumes "cached_load r i st = (st', res)" "cinv st"
  shows "cinv st' \<and> cached_view view st' = cached_view view st"
    and "res = Inr None \<Longrightarrow> cached_view view st i = None"
    and "res = Inr (Some x) \<Longrightarrow> \<exists>v. cached_view view st i = Some v \<and> agree f g x v"
proof -
  obtain s q where g: "repo_get r i (cr_repo st) = (s, q)" by (meson surj_pair)
  have I: "inv (cr_repo st)" using assms(2) by (simp add: cached_inv_def)
  note gi = get_inv [OF I g]
  have "cinv st' \<and> cached_view view st' = cached_view view st \<and>
    (res = Inr None \<longrightarrow> cached_view view st i = None) \<and>
    (res = Inr (Some x) \<longrightarrow> (\<exists>v. cached_view view st i = Some v \<and> agree f g x v))"
  proof (cases q)
    case (Inl e)
    with assms g gi show ?thesis by (auto simp: cached_load_def cached_inv_def cached_view_def)
  next
    case (Inr ro)
    show ?thesis
    proof (cases ro)
      case None
      with assms g gi Inr get_None [OF I] show ?thesis
        by (auto simp: cached_load_def cached_inv_def cached_view_def)
    next
      case (Some y)
      have gy: "repo_get r i (cr_repo st) = (s, Inr (Some y))" using g Inr Some by simp
      from get_Some [OF I gy] obtain v where v: "view (cr_repo st) i = Some v" "agree f g y v" by blast
      have iy: "Id y = i" by (rule get_Id [OF I gy])
      let ?st = "inc [''repository'', ''get'', ''success''] (st\<lparr>cr_repo := s\<rparr>)"
      have "cinv (quiet_write (cache_Set (Some y)) ''set'' ?st)"
        using assms(2) gi v iy by (intro quiet_Set_inv [where v = v]) (auto simp: cached_inv_def coherent_def)
      with assms(1) gy gi v show ?thesis by (auto simp: cached_load_def cached_view_def)
    qed
  qed
  then show "cinv st' \<and> cached_view view st' = cached_view view st"
    "res = Inr None \<Longrightarrow> cached_view view st i = None"
    "res = Inr (Some x) \<Longrightarrow> \<exists>v. cached_view view st i = Some v \<and> agree f g x v" by auto
qed

lemma cached_Get_step:
  assumes "cached_Get r i st = (st', res)" "cinv st"
  shows "cinv st' \<and> cached_view view st' = cached_view view st"
    and "res = Inr None \<Longrightarrow> cached_view view st i = None"
    and "res = Inr (Some x) \<Longrightarrow> \<exists>v. cached_view view st i = Some v \<and> agree f g x v"
proof -
  have "cinv st' \<and> cached_view view st' = cached_view view st \<and>
    (res = Inr None \<longrightarrow> cached_view view st i = None) \<and>
    (res = Inr (Some x) \<longrightarrow> (\<exists>v. cached_view view st i = Some v \<and> agree f g x v))"
  proof (cases "cr_cache st")
    case None
    with assms(1) have "cached_load r i st = (st', res)" by (simp add: cached_Get_def)
    from cached_load_step [OF this assms(2)] show ?thesis by blast
  next
    case (Some c)
    obtain c' q where g: "cache_Get i c = (c', q)" by (meson surj_pair)
    from cache_Get_cases [OF g] obtain fs where c': "c' = c\<lparr>rc_get_faults := fs\<rparr>"
      and hit: "\<And>x. q = Inr (Some x) \<Longrightarrow> live c i = Some (Some x)" by blast
    have inv1: "cinv (inc l (st\<lparr>cr_cache := Some c'\<rparr>))" for l
      using assms(2) Some c' by (simp add: cached_inv_def)
    have vw: "cached_view view (inc l (st\<lparr>cr_cache := Some c'\<rparr>)) = cached_view view st" for l
      by (simp add: cached_view_def)
    consider (hit) x where "q = Inr (Some x)" | (load) l where "cached_load r i (inc l (st\<lparr>cr_cache := Some c'\<rparr>)) = (st', res)"
      using assms(1) Some g by (auto simp: cached_Get_def split: sum.splits option.splits)
    then show ?thesis
    proof cases
      case (hit y)
      with assms Some g hit inv1 vw \<open>\<And>x. q = Inr (Some x) \<Longrightarrow> live c i = Some (Some x)\<close> [OF hit]
      show ?thesis by (auto simp: cached_Get_def cached_inv_def coherent_def cached_view_def)
    next
      case (load l)
      from cached_load_step [OF load inv1] vw show ?thesis by simp
    qed
  qed
  then show "cinv st' \<and> cached_view view st' = cached_view view st"
    "res = Inr None \<Longrightarrow> cached_view view st i = None"
    "res = Inr (Some x) \<Longrightarrow> \<exists>v. cached_view view st i = Some v \<and> agree f g x v" by auto
qed

lemma cached_Save_step:
  assumes "cached_Save r (Some x) st = (st', res)" "cinv st" "Id x \<noteq> []"
  shows "cinv st'"
    and "cached_view view st' = (if isl res then cached_view view st
           else (cached_view view st)(Id x \<mapsto> store_room f g x))"
proof -
  obtain s q where sv: "repo_save r (Some x) (cr_repo st) = (s, q)" by (meson surj_pair)
  have I: "inv (cr_repo st)" using assms(2) by (simp add: cached_inv_def)
  have "cinv st' \<and> cached_view view st' = (if isl res then cached_view view st
           else (cached_view view st)(Id x \<mapsto> store_room f g x))"
  proof (cases q)
    case (Inl e)
    with save_Inl [OF I assms(3)] save_definite [OF I assms(3)] sv assms show ?thesis
      by (auto simp: cached_Save_def cached_inv_def cached_view_def)
  next
    case (Inr u)
    with save_Inr [OF I assms(3)] sv have s: "inv s" "view s = (view (cr_repo st))(Id x \<mapsto> store_room f g x)" by auto
    let ?st = "inc [''repository'', ''save'', ''success''] (st\<lparr>cr_repo := s\<rparr>)"
    have "cinv (quiet_write (cache_Set (Some x)) ''set'' ?st)"
      using assms(2) s
      by (intro quiet_Set_inv [where v = "store_room f g x"]) (auto simp: cached_inv_def coherent_def agree_def)
    moreover have "st' = quiet_write (cache_Set (Some x)) ''set'' ?st" "res = Inr ()"
      using assms(1) sv Inr by (simp_all add: cached_Save_def Let_def)
    ultimately show ?thesis using s by (auto simp: cached_view_def fun_eq_iff)
  qed
  then show "cinv st'" "cached_view view st' = (if isl res then cached_view view st
           else (cached_view view st)(Id x \<mapsto> store_room f g x))" by auto
qed

lemma cached_Delete_step:
  assumes "cached_Delete r i st = (st', res)" "cinv st"
  shows "cinv st'"
    and "cached_view view st' = (if isl res then cached_view view st else (cached_view view st)(i := None))"
proof -
  obtain s q where sv: "repo_delete r i (cr_repo st) = (s, q)" by (meson surj_pair)
  have I: "inv (cr_repo st)" using assms(2) by (simp add: cached_inv_def)
  have "cinv st' \<and> cached_view view st' = (if isl res then cached_view view st else (cached_view view st)(i := None))"
  proof (cases q)
    case (Inl e)
    with delete_Inl [OF I] delete_definite [OF I] sv assms show ?thesis
      by (auto simp: cached_Delete_def cached_inv_def cached_view_def)
  next
    case (Inr u)
    with delete_Inr [OF I] sv have s: "inv s" "view s = (view (cr_repo st))(i := None)" by auto
    let ?st = "inc [''repository'', ''delete'', ''success''] (st\<lparr>cr_repo := s\<rparr>)"
    have st': "st' = quiet_write (cache_Delete i) ''delete'' ?st" "res = Inr ()"
      using assms(1) sv Inr by (simp_all add: cached_Delete_def)
    have "cinv st'"
    proof (cases "cr_cache st")
      case None
      with s st' show ?thesis by (simp add: quiet_write_def cached_inv_def)
    next
      case (Some c)
      have "rc_write_faults c = []" and coh: "coherent f g (view (cr_repo st)) c"
        using assms(2) Some by (simp_all add: cached_inv_def)
      from cache_Delete_ok [OF this(1), of i "view s" f g] coh s(2)
      obtain c' where "cache_Delete i c = (c', Inr ())" "coherent f g (view s) c'" "rc_write_faults c' = []"
        by (auto simp: coherent_def)
      with Some s st' show ?thesis by (simp add: quiet_write_def cached_inv_def)
    qed
    with s st' show ?thesis by (auto simp: cached_view_def fun_eq_iff)
  qed
  then show "cinv st'"
    "cached_view view st' = (if isl res then cached_view view st else (cached_view view st)(i := None))" by auto
qed

end

sublocale definite_repository \<subseteq> cached: room_repository "cached_rooms r" "cached_view view" "cached_inv f g view inv" f g
proof (unfold_locales, goal_cases)
  case (1 s i v)
  then show ?case using view_Id by (auto simp: cached_inv_def cached_view_def)
next
  case (2 s i s' res)
  then show ?case using cached_Get_step(1) by (simp add: cached_rooms_def)
next
  case (3 s i s')
  then show ?case using cached_Get_step(2) by (simp add: cached_rooms_def)
next
  case (4 s i s' x)
  then show ?case using cached_Get_step(3) by (simp add: cached_rooms_def)
next
  case (5 s s' res2)
  then show ?case using get_all_inv [of "cr_repo s"]
    by (auto simp: cached_rooms_def cached_GetAll_def cached_inv_def cached_view_def split: prod.splits sum.splits)
next
  case (6 s s' xs)
  then show ?case using get_all_Inr [of "cr_repo s"]
    by (auto simp: cached_rooms_def cached_GetAll_def cached_inv_def cached_view_def split: prod.splits sum.splits)
next
  case (7 s s' res3)
  then show ?case using save_nil [of "cr_repo s"]
    by (auto simp: cached_rooms_def cached_Save_def cached_inv_def cached_view_def Let_def split: prod.splits sum.splits)
next
  case (8 s x s' u)
  then show ?case using cached_Save_step [of x s s' "Inr u"] by (simp add: cached_rooms_def)
next
  case (9 s x s' e)
  then show ?case using cached_Save_step [of x s s' "Inl e"] by (simp add: cached_rooms_def)
next
  case (10 s i s' u)
  then show ?case using cached_Delete_step [of i s s' "Inr u"] by (simp add: cached_rooms_def)
next
  case (11 s i s' e)
  then show ?case using cached_Delete_step [of i s s' "Inl e"] by (simp add: cached_rooms_def)
qed

section \<open>PostgreSQL without lost replies\<close>

text \<open>
  When no reply is lost, a failed transaction was rolled back, so the PostgreSQL repository is
  definite. The schedule of outcomes only shrinks.
\<close>

definition lossless :: "fault list \<Rightarrow> bool" where
  "lossless fs \<longleftrightarrow> (\<forall>e. FailAfter e \<notin> set fs)"

definition shrinks :: "room_db \<Rightarrow> room_db \<Rightarrow> bool" where
  "shrinks db db' \<longleftrightarrow> set (room_faults db') \<subseteq> set (room_faults db)"

lemma shrinks_refl [simp]: "shrinks db db"
  by (simp add: shrinks_def)

lemma shrinks_trans: "shrinks a b \<Longrightarrow> shrinks b c \<Longrightarrow> shrinks a c"
  by (auto simp: shrinks_def)

lemma rest_faults_subset: "set (rest_faults fs) \<subseteq> set fs"
  by (cases fs) auto

lemma tx_exec_shrinks:
  assumes "tx_exec wrap stmt db = (db', res)" "\<And>a b x. stmt a = Inr (b, x) \<Longrightarrow> room_faults b = room_faults a"
  shows "shrinks db db'"
  using assms rest_faults_subset [of "room_faults db"]
  by (auto simp: tx_exec_def Let_def shrinks_def split: option.splits sum.splits prod.splits)

lemma save_spells_shrinks: "save_spells d p k ss db = (db', res) \<Longrightarrow> shrinks db db'"
proof (induction ss arbitrary: db)
  case (Cons s ss)
  obtain db1 r1 where e: "tx_exec (\<lambda>e. Errorf [Txt ''insert spell '', Quoted (Name s), Txt '' for player '', Quoted (GameName p),
                                Txt ''#'', Quoted (TagLine p), Txt '': '', Wrapped e])
             (insert_spell d k s) db = (db1, r1)" by (meson surj_pair)
  have "shrinks db db1"
    by (rule tx_exec_shrinks [OF e]) (auto simp: insert_spell_def split: if_splits)
  with Cons e show ?case by (cases r1) (auto intro: shrinks_trans)
qed simp

lemma savePlayer_shrinks: "savePlayer d i p db = (db', res) \<Longrightarrow> shrinks db db'"
proof -
  assume s: "savePlayer d i p db = (db', res)"
  obtain db1 r1 where e: "tx_exec (\<lambda>e. Errorf [Txt ''insert player '', Quoted (GameName p), Txt ''#'', Quoted (TagLine p),
      Txt '': '', Wrapped e]) (insert_player i p) db = (db1, r1)" by (meson surj_pair)
  have "shrinks db db1"
    by (rule tx_exec_shrinks [OF e]) (auto simp: insert_player_def split: if_splits)
  with s e show ?thesis
    by (cases r1) (auto simp: savePlayer_def intro: shrinks_trans dest: save_spells_shrinks)
qed

lemma save_players_shrinks: "save_players d i ps db = (db', res) \<Longrightarrow> shrinks db db'"
proof (induction ps arbitrary: db)
  case (Cons p ps)
  obtain db1 r1 where s: "savePlayer d i p db = (db1, r1)" by (meson surj_pair)
  with Cons savePlayer_shrinks [OF s] show ?case by (cases r1) (auto intro: shrinks_trans)
qed simp

lemma tx_saveRoom_shrinks: "tx_saveRoom d x db = (db', res) \<Longrightarrow> shrinks db db'"
proof -
  assume t: "tx_saveRoom d x db = (db', res)"
  obtain db1 r1 where e1: "tx_exec (\<lambda>e. Errorf [Txt ''upsert room '', Quoted (Id x), Txt '': '', Wrapped e])
             (upsert_room d x) db = (db1, r1)" by (meson surj_pair)
  obtain db2 r2 where e2: "tx_exec (\<lambda>e. Errorf [Txt ''delete old players for room '', Quoted (Id x), Txt '': '', Wrapped e])
                  (delete_players (Id x)) db1 = (db2, r2)" by (meson surj_pair)
  have "shrinks db db1" by (rule tx_exec_shrinks [OF e1]) (auto simp: upsert_room_def)
  moreover have "shrinks db1 db2" by (rule tx_exec_shrinks [OF e2]) (auto simp: delete_players_def Let_def)
  ultimately show ?thesis
    using t e1 e2 by (cases r1; cases r2) (auto simp: tx_saveRoom_def intro: shrinks_trans dest: save_players_shrinks)
qed

lemma next_fault_lossless: "lossless fs \<Longrightarrow> next_fault fs \<noteq> FailAfter e"
  by (cases fs) (auto simp: lossless_def)

lemma pg_Save_lossless:
  assumes "pg_Save d ro db = (db', res)" "lossless (room_faults db)"
  shows "shrinks db db'" and "isl res \<Longrightarrow> pg_view db' = pg_view db"
proof -
  have "shrinks db db' \<and> (isl res \<longrightarrow> pg_view db' = pg_view db)"
  proof (cases ro)
    case None
    with assms(1) show ?thesis by (auto simp: pg_Save_def)
  next
    case (Some x)
    obtain db1 r1 where b: "tx_exec (\<lambda>e. Errorf [Txt ''begin room save transaction: '', Wrapped e]) (\<lambda>db. Inr (db, ())) db = (db1, r1)"
      by (meson surj_pair)
    from tx_exec_cases [OF b] obtain fs where db1: "db1 = db\<lparr>room_faults := fs\<rparr>" by auto
    have sh1: "shrinks db db1" by (rule tx_exec_shrinks [OF b]) simp
    show ?thesis
    proof (cases r1)
      case (Inl e)
      with assms(1) Some b db1 sh1 show ?thesis by (auto simp: pg_Save_def)
    next
      case (Inr v)
      obtain db2 r2 where t: "tx_saveRoom d x db1 = (db2, r2)" by (meson surj_pair)
      have sh2: "shrinks db db2" using sh1 tx_saveRoom_shrinks [OF t] by (rule shrinks_trans)
      then have l2: "lossless (room_faults db2)" using assms(2) by (auto simp: shrinks_def lossless_def)
      have sh3: "set (rest_faults (room_faults db2)) \<subseteq> set (room_faults db)"
        using sh2 rest_faults_subset [of "room_faults db2"] by (auto simp: shrinks_def)
      note ll = next_fault_lossless [OF l2]
      have rb: "room_faults (rollback db q) = room_faults q" for q by (simp add: rollback_def)
      show ?thesis
      proof (cases r2)
        case (Inl e)
        with assms(1) Some b \<open>r1 = Inr v\<close> t sh2 show ?thesis by (auto simp: pg_Save_def shrinks_def rb)
      next
        case (Inr w)
        with assms(1) Some b \<open>r1 = Inr v\<close> t sh3 ll show ?thesis
          by (cases "next_fault (room_faults db2)") (auto simp: pg_Save_def Let_def shrinks_def rb)
      qed
    qed
  qed
  then show "shrinks db db'" "isl res \<Longrightarrow> pg_view db' = pg_view db" by auto
qed

lemma pg_Delete_lossless:
  assumes "pg_Delete i db = (db', res)" "lossless (room_faults db)"
  shows "shrinks db db'" and "isl res \<Longrightarrow> pg_view db' = pg_view db"
proof -
  have "room_faults (delete_room i q) = room_faults q" for q
    by (simp add: delete_room_def delete_players_def Let_def)
  with assms rest_faults_subset [of "room_faults db"] next_fault_lossless [OF assms(2)]
  show "shrinks db db'" "isl res \<Longrightarrow> pg_view db' = pg_view db"
    by (auto simp: pg_Delete_def Let_def shrinks_def split: fault.splits)
qed

lemma query_shrinks: "query wrap sel db = (db', res) \<Longrightarrow> shrinks db db'"
  unfolding query_def by (erule tx_exec_shrinks) simp

lemma loadRoom_shrinks: "loadRoom i db = (db', res) \<Longrightarrow> shrinks db db'"
  by (auto simp: loadRoom_def loadPlayers_def loadSpells_def dest!: query_shrinks intro: shrinks_trans
      split: prod.splits sum.splits option.splits)

lemma load_rooms_shrinks: "load_rooms is rooms db = (db', res) \<Longrightarrow> shrinks db db'"
proof (induction "is" arbitrary: rooms db)
  case (Cons i "is")
  then show ?case
    by (auto dest!: loadRoom_shrinks intro: shrinks_trans split: prod.splits sum.splits option.splits)
qed simp

lemma pg_GetAll_shrinks: "pg_GetAll d db = (db', res) \<Longrightarrow> shrinks db db'"
  by (auto simp: pg_GetAll_def dest!: query_shrinks load_rooms_shrinks intro: shrinks_trans
      split: prod.splits sum.splits)

lemma pg_Get_shrinks: "pg_Get i db = (db', res) \<Longrightarrow> shrinks db db'"
  by (auto simp: pg_Get_def dest: loadRoom_shrinks split: if_splits)

lemma shrinks_lossless: "shrinks db db' \<Longrightarrow> lossless (room_faults db) \<Longrightarrow> lossless (room_faults db')"
  by (auto simp: shrinks_def lossless_def)

definition definite_db :: "room_driver \<Rightarrow> room_db \<Rightarrow> bool" where
  "definite_db d db \<longleftrightarrow> pg_inv d db \<and> lossless (room_faults db)"

interpretation pg_definite: definite_repository "pg_rooms d" pg_view "definite_db d" "end_time_kept d" "last_updated_column d"
  for d
proof (unfold_locales, goal_cases)
  case (1 s i v)
  then show ?case using pg.view_Id by (auto simp: definite_db_def)
next
  case (2 s i s' res)
  then show ?case using pg.get_inv [of d s i s' res] pg_Get_shrinks [of i s s' res]
    by (auto simp: definite_db_def pg_rooms_def intro: shrinks_lossless)
next
  case (3 s i s')
  then show ?case using pg.get_None by (auto simp: definite_db_def)
next
  case (4 s i s' x)
  then show ?case using pg.get_Some by (auto simp: definite_db_def)
next
  case (5 s s' res2)
  then show ?case using pg.get_all_inv [of d s s' res2] pg_GetAll_shrinks [of d s s' res2]
    by (auto simp: definite_db_def pg_rooms_def intro: shrinks_lossless)
next
  case (6 s s' xs)
  then show ?case using pg.get_all_Inr [of d s s' xs] by (auto simp: definite_db_def)
next
  case (7 s s' res3)
  then show ?case using pg.save_nil [of d s s' res3] by (auto simp: definite_db_def pg_rooms_def pg_Save_def)
next
  case (8 s x s' u)
  then show ?case using pg.save_Inr [of d s x s' u] pg_Save_lossless [of d "Some x" s s' "Inr u"]
    by (auto simp: definite_db_def pg_rooms_def intro: shrinks_lossless)
next
  case (9 s x s' e)
  then show ?case using pg.save_Inl [of d s x s' e] pg_Save_lossless [of d "Some x" s s' "Inl e"]
    by (auto simp: definite_db_def pg_rooms_def intro: shrinks_lossless)
next
  case (10 s i s' u)
  then show ?case using pg.delete_Inr [of d s i s' u] pg_Delete_lossless [of i s s' "Inr u"]
    by (auto simp: definite_db_def pg_rooms_def intro: shrinks_lossless)
next
  case (11 s i s' e)
  then show ?case using pg.delete_Inl [of d s i s' e] pg_Delete_lossless [of i s s' "Inl e"]
    by (auto simp: definite_db_def pg_rooms_def intro: shrinks_lossless)
next
  case (12 s x s' e)
  then show ?case using pg_Save_lossless [of d "Some x" s s' "Inl e"]
    by (auto simp: definite_db_def pg_rooms_def)
next
  case (13 s i s' e)
  then show ?case using pg_Delete_lossless [of i s s' "Inl e"] by (auto simp: definite_db_def pg_rooms_def)
qed

section \<open>Steps of a cached repository\<close>

inductive cache_step :: "'s room_repo \<Rightarrow> 's cached_repo \<Rightarrow> 's cached_repo \<Rightarrow> bool" for r where
  get: "cached_Get r i st = (st', res) \<Longrightarrow> cache_step r st st'"
| get_all: "cached_GetAll r st = (st', res) \<Longrightarrow> cache_step r st st'"
| save: "cached_Save r ro st = (st', res) \<Longrightarrow> cache_step r st st'"
| delete: "cached_Delete r i st = (st', res) \<Longrightarrow> cache_step r st st'"
| clock: "cr_cache st = Some c \<Longrightarrow> rc_now c \<le> t \<Longrightarrow> cache_step r st (st\<lparr>cr_cache := Some (c\<lparr>rc_now := t\<rparr>)\<rparr>)"

text \<open>Every entry expires at the latest one lifetime from now.\<close>

definition expiring :: "duration \<Rightarrow> redis_cache \<Rightarrow> bool" where
  "expiring ttl c \<longleftrightarrow> rc_ttl c = ttl \<and>
     (\<forall>(k, v, expiry) \<in> set (rc_entries c). \<exists>t. expiry = Some t \<and> t \<le> rc_now c + ttl)"

definition cache_expiring :: "duration \<Rightarrow> 's cached_repo \<Rightarrow> bool" where
  "cache_expiring ttl st \<longleftrightarrow> (\<forall>c. cr_cache st = Some c \<longrightarrow> expiring ttl c)"

lemma expiring_get_faults: "expiring ttl c \<Longrightarrow> expiring ttl (c\<lparr>rc_get_faults := fs\<rparr>)"
  by (simp add: expiring_def)

lemma expiring_Set: "expiring ttl c \<Longrightarrow> 0 < ttl \<Longrightarrow> expiring ttl (fst (cache_Set ro c))"
  by (auto simp: expiring_def cache_Set_def cache_write_def cache_expiry_def Let_def
      dest!: set_AList_update split: option.split fault.split)

lemma expiring_Delete: "expiring ttl c \<Longrightarrow> expiring ttl (fst (cache_Delete i c))"
  by (auto simp: expiring_def cache_Delete_def cache_write_def AList.delete_eq Let_def split: fault.split)

lemma cache_expiring_inc [simp]: "cache_expiring ttl (inc l st) = cache_expiring ttl st"
  by (simp add: cache_expiring_def)

lemma cache_expiring_repo [simp]: "cache_expiring ttl (st\<lparr>cr_repo := s\<rparr>) = cache_expiring ttl st"
  by (simp add: cache_expiring_def)

lemma expiring_quiet_write:
  assumes "\<And>c. expiring ttl c \<Longrightarrow> expiring ttl (fst (wr c))" "cache_expiring ttl st"
  shows "cache_expiring ttl (quiet_write wr op st)"
proof (cases "cr_cache st")
  case (Some c)
  obtain c' q where w: "wr c = (c', q)" by (meson surj_pair)
  with assms Some have "expiring ttl c'" by (metis cache_expiring_def fst_conv)
  with Some w show ?thesis by (cases q) (simp_all add: quiet_write_def cache_expiring_def)
qed (use assms in \<open>simp add: quiet_write_def\<close>)

lemma cached_load_expiring:
  "cached_load r i st = (st', res) \<Longrightarrow> 0 < ttl \<Longrightarrow> cache_expiring ttl st \<Longrightarrow> cache_expiring ttl st'"
  by (auto simp: cached_load_def intro!: expiring_quiet_write expiring_Set
      split: prod.splits sum.splits option.splits)

lemma cached_Get_expiring:
  assumes "cached_Get r i st = (st', res)" "0 < ttl" "cache_expiring ttl st"
  shows "cache_expiring ttl st'"
proof (cases "cr_cache st")
  case None
  with assms show ?thesis by (auto simp: cached_Get_def dest: cached_load_expiring)
next
  case (Some c)
  obtain c' q where g: "cache_Get i c = (c', q)" by (meson surj_pair)
  from cache_Get_cases [OF g] assms(3) Some have "expiring ttl c'"
    by (auto simp: cache_expiring_def expiring_get_faults)
  then have "cache_expiring ttl (inc l (st\<lparr>cr_cache := Some c'\<rparr>))" for l by (simp add: cache_expiring_def)
  with assms(1,2) Some g show ?thesis
    by (auto simp: cached_Get_def dest: cached_load_expiring split: sum.splits option.splits)
qed

lemma cache_step_expiring: "cache_step r st st' \<Longrightarrow> 0 < ttl \<Longrightarrow> cache_expiring ttl st \<Longrightarrow> cache_expiring ttl st'"
proof (induction rule: cache_step.induct)
  case (get i st st' res)
  then show ?case by (rule cached_Get_expiring)
next
  case (save ro st st' res)
  then show ?case
    by (auto simp: cached_Save_def Let_def intro!: expiring_quiet_write expiring_Set split: prod.splits sum.splits if_splits)
next
  case (delete i st st' res)
  then show ?case
    by (auto simp: cached_Delete_def intro!: expiring_quiet_write expiring_Delete split: prod.splits sum.splits)
next
  case (clock st c t)
  then show ?case by (auto simp: cache_expiring_def expiring_def)
qed (auto simp: cached_GetAll_def split: prod.splits sum.splits)

lemma cache_steps_expiring: "(cache_step r)\<^sup>*\<^sup>* st st' \<Longrightarrow> 0 < ttl \<Longrightarrow> cache_expiring ttl st \<Longrightarrow> cache_expiring ttl st'"
  by (induction rule: rtranclp_induct) (auto intro: cache_step_expiring)

lemma expired_not_live: "expiring ttl c \<Longrightarrow> rc_now c + ttl \<le> t \<Longrightarrow> live (c\<lparr>rc_now := t\<rparr>) i = None"
  by (auto simp: live_def expiring_def unexpired_def dest!: map_of_SomeD split: option.split)

lemma cached_Get_not_live:
  assumes "cr_cache st = Some c" "live c i = None"
  shows "snd (cached_Get r i st) = snd (repo_get r i (cr_repo st))"
  using assms by (auto simp: cached_Get_def cached_load_def cache_Get_def Let_def
      split: option.splits sum.splits prod.splits)

text \<open>The stack of the server: the room service on the cached PostgreSQL repository.\<close>

definition server_inv :: "room_driver \<Rightarrow> room_db cached_repo room_service \<Rightarrow> bool" where
  "server_inv d = service_inv (cached_view pg_view)
     (cached_inv (end_time_kept d) (last_updated_column d) pg_view (definite_db d))"

lemma cached_room_service:
  assumes "\<And>t. second \<le> end_time_column d t \<longleftrightarrow> second \<le> t"
  shows "room_service (cached_rooms (pg_rooms d)) (cached_view pg_view)
    (cached_inv (end_time_kept d) (last_updated_column d) pg_view (definite_db d))
    (end_time_kept d) (last_updated_column d)"
  by (intro room_service.intro room_service_axioms.intro pg_definite.cached.room_repository_axioms)
     (simp add: end_time_kept_def IsZero_def assms)

lemma server_steps_inv:
  assumes "\<And>t. second \<le> end_time_column d t \<longleftrightarrow> second \<le> t"
    and "server_inv d st" "(room_step (cached_rooms (pg_rooms d)) cat)\<^sup>*\<^sup>* st st'"
  shows "server_inv d st'"
  using room_service.room_steps_inv [OF cached_room_service [OF assms(1)] assms(3)] assms(2)
  by (simp add: server_inv_def)

section \<open>Properties\<close>

definition ex_server :: "room_db cached_repo room_service" where
  "ex_server = NewRoomService
     \<lparr>cr_repo = empty_db, cr_cache = Some \<lparr>rc_entries = [], rc_now = 0, rc_ttl = 300 * second,
       rc_get_faults = [], rc_write_faults = []\<rparr>, cr_labels = []\<rparr>
     \<lparr>nats_sent = [], nats_faults = []\<rparr> []"

lemma ex_server_inv: "server_inv micros ex_server"
  using empty_db_inv
  by (simp add: server_inv_def service_inv_def ex_server_def NewRoomService_def cached_inv_def coherent_def
      live_def definite_db_def lossless_def cached_view_def rooms_ok_def pg_view_def empty_db_def)

lemma micros_running: "second \<le> end_time_column micros t \<longleftrightarrow> second \<le> t"
proof -
  have "t = t div 1000 * 1000 + t mod 1000" "0 \<le> t mod 1000" "t mod 1000 < 1000" by simp_all
  then have "1000000 \<le> t div 1000 \<longleftrightarrow> 1000000000 \<le> t" by (intro iffI) linarith+
  then show ?thesis by (simp add: micros_def)
qed

text \<open>
  C12: the room service on the cached PostgreSQL repository reads what the database holds:
  after any sequence of its calls, with any failures of the message connection, of cache
  reads and of database calls short of a lost reply, a successful read of a room, served by
  the cache or not, returns none exactly when no row is stored, and otherwise the stored room
  up to the resolution of the time columns.
\<close>

theorem cached_reads_are_current:
  assumes "\<And>t. second \<le> end_time_column d t \<longleftrightarrow> second \<le> t"
    and "server_inv d st" "(room_step (cached_rooms (pg_rooms d)) cat)\<^sup>*\<^sup>* st st'"
    and "cached_Get (pg_rooms d) i (repo_state st') = (s, Inr ro)"
  shows "case ro of
      None \<Rightarrow> pg_view (cr_repo (repo_state st')) i = None
    | Some x \<Rightarrow> \<exists>v. pg_view (cr_repo (repo_state st')) i = Some v \<and>
        agree (end_time_kept d) (last_updated_column d) x v"
proof -
  have "cached_inv (end_time_kept d) (last_updated_column d) pg_view (definite_db d) (repo_state st')"
    using server_steps_inv [OF assms(1-3)] by (simp add: server_inv_def service_inv_def)
  note step = pg_definite.cached_Get_step [OF assms(4) this]
  show ?thesis
  proof (cases ro)
    case None
    with step(2) show ?thesis by (simp add: cached_view_def)
  next
    case (Some x)
    with step(3) [of x] show ?thesis by (simp add: cached_view_def)
  qed
qed

theorem cached_reads_are_current_witness:
  "\<exists>st v. (room_step (cached_rooms (pg_rooms micros)) ex_catalog)\<^sup>*\<^sup>* ex_server st \<and>
     pg_view (cr_repo (repo_state st)) ''7-1'' = Some v"
proof -
  let ?r = "cached_rooms (pg_rooms micros)"
  obtain st y x where c: "CreateRoom ?r (5 * hour) ''7-1'' ex_server = (st, Inr y)"
    and g: "\<exists>s. cached_Get (pg_rooms micros) ''7-1'' (repo_state st) = (s, Inr (Some x))"
    by (simp add: CreateRoom_def saveRoom_def cached_rooms_def cached_Get_def cached_load_def cached_Save_def
        cache_Get_def cache_Set_def cache_write_def live_def pg_rooms_def pg_Get_def loadRoom_def query_def
        pg_Save_def tx_saveRoom_def tx_exec_def upsert_room_def delete_players_def quiet_write_def inc_def
        ex_server_def NewRoomService_def empty_db_def micros_def Let_def cache_expiry_def unexpired_def
        Clone_def)
  from g obtain s where g: "cached_Get (pg_rooms micros) ''7-1'' (repo_state st) = (s, Inr (Some x))" by blast
  have step: "(room_step ?r ex_catalog)\<^sup>*\<^sup>* ex_server st" using room_step.create [OF c] by blast
  from cached_reads_are_current [OF micros_running ex_server_inv step g] step show ?thesis by auto
qed


definition stale_cache :: "fault list \<Rightarrow> mem_repo cached_repo" where
  "stale_cache fs = \<lparr>cr_repo = ex_repo, cr_cache = Some
     \<lparr>rc_entries = [(roomKey ''7-1'', Some (ex_room\<lparr>Players := None\<rparr>), Some (300 * second))], rc_now = 0,
      rc_ttl = 300 * second, rc_get_faults = [], rc_write_faults = fs\<rparr>, cr_labels = []\<rparr>"


text \<open>
  Within the lifetime a failed cache write does serve the room it should have replaced, after
  a save that reported success.
\<close>

lemma failed_cache_write_serves_the_old_room:
  assumes "cached_Save in_memory_repo (Some ex_room) (stale_cache [FailBefore CtxDeadline]) = (st, res)"
  shows "res = Inr () \<and> snd (cached_Get in_memory_repo ''7-1'' st) = Inr (Some (ex_room\<lparr>Players := None\<rparr>))"
  using assms
  by (auto simp: cached_Save_def mem_defs stale_cache_def ex_repo_def quiet_write_def cache_Set_def cache_write_def
      cached_Get_def cache_Get_def live_def unexpired_def inc_def roomKey_def ex_room_def)

end
