(* ===== verification/Hub.thy ===== *)
theory Hub
  imports RoomProps
begin

text \<open>
  The WebSocket hub (\<open>internal/websocket\<close>: \<open>hub.go\<close>, \<open>client.go\<close>, \<open>messages.go\<close>) and the
  consumer of room notifications that feeds it (\<open>internal/consumers/room_consumer.go\<close>).
\<close>

section \<open>Clients\<close>

text \<open>
  A text message is the value whose JSON text is sent. A connection keeps the messages that
  were written to it and the outcomes of its writes; \<open>ws_room\<close> is the room it was opened for,
  none for the endpoint of the current room. Writing to a closed connection fails.
\<close>

datatype ws_message =
    CurrentRoomMessage string
  | RoomUpdateMessage room
  | RawMessage string
  | PingMessage

record ws_client =
  ws_room :: "string option"
  ws_open :: bool
  ws_messages :: "ws_message list"
  ws_faults :: "fault list"

definition closed_connection :: go_error where
  "closed_connection = External ''use of closed network connection''"

definition client_write :: "ws_message \<Rightarrow> ws_client \<Rightarrow> ws_client \<times> (go_error + unit)" where
  "client_write m c =
     (if \<not> ws_open c then (c, Inl closed_connection)
      else let c1 = c\<lparr>ws_faults := rest_faults (ws_faults c)\<rparr>;
               c2 = c1\<lparr>ws_messages := ws_messages c @ [m]\<rparr>
           in case next_fault (ws_faults c) of
                NoFault \<Rightarrow> (c2, Inr ())
              | FailBefore e \<Rightarrow> (c1, Inl e)
              | FailAfter e \<Rightarrow> (c2, Inl e))"

section \<open>The hub\<close>

text \<open>
  \<open>clients\<close> maps rooms to sets of clients and \<open>currentRoomClients\<close> is a set, here lists
  without repetitions. A client is the number of its connection. \<open>hub_order\<close> is the order in
  which Go iterates over a set. The mutex makes each access to the maps atomic.
\<close>

record hub =
  clients :: "(string \<times> nat list) list"
  currentRoomClients :: "nat list"
  sockets :: "nat \<Rightarrow> ws_client"
  next_socket :: nat
  hub_order :: "nat list \<Rightarrow> nat list"

definition NewHub :: "(nat list \<Rightarrow> nat list) \<Rightarrow> hub" where
  "NewHub order = \<lparr>clients = [], currentRoomClients = [],
     sockets = (\<lambda>c. \<lparr>ws_room = None, ws_open = False, ws_messages = [], ws_faults = []\<rparr>),
     next_socket = 0, hub_order = order\<rparr>"

text \<open>A successful upgrade opens a new connection.\<close>

definition accept :: "string option \<Rightarrow> fault list \<Rightarrow> hub \<Rightarrow> nat \<times> hub" where
  "accept ro fs h =
     (next_socket h, h\<lparr>sockets := (sockets h)(next_socket h :=
        \<lparr>ws_room = ro, ws_open = True, ws_messages = [], ws_faults = fs\<rparr>), next_socket := Suc (next_socket h)\<rparr>)"

definition WriteMessage :: "nat \<Rightarrow> ws_message \<Rightarrow> hub \<Rightarrow> hub \<times> (go_error + unit)" where
  "WriteMessage c m h =
     (let (cl, res) = client_write m (sockets h c) in (h\<lparr>sockets := (sockets h)(c := cl)\<rparr>, res))"

definition close_client :: "nat \<Rightarrow> hub \<Rightarrow> hub" where
  "close_client c h = h\<lparr>sockets := (sockets h)(c := (sockets h c)\<lparr>ws_open := False\<rparr>)\<rparr>"

definition room_clients :: "string \<Rightarrow> hub \<Rightarrow> nat list" where
  "room_clients roomID h = (case map_of (clients h) roomID of None \<Rightarrow> [] | Some cs \<Rightarrow> cs)"

definition addClient :: "string \<Rightarrow> nat \<Rightarrow> hub \<Rightarrow> hub" where
  "addClient roomID c h =
     h\<lparr>clients := AList.update roomID (List.insert c (room_clients roomID h)) (clients h)\<rparr>"

definition removeClient :: "string \<Rightarrow> nat \<Rightarrow> hub \<Rightarrow> hub" where
  "removeClient roomID c h =
     close_client c
       (case map_of (clients h) roomID of
          None \<Rightarrow> h
        | Some cs \<Rightarrow>
            (let cs' = removeAll c cs
             in h\<lparr>clients := (if cs' = [] then AList.delete roomID (clients h)
                              else AList.update roomID cs' (clients h))\<rparr>))"

definition getRoomClients :: "string \<Rightarrow> hub \<Rightarrow> nat list" where
  "getRoomClients roomID h = (if room_clients roomID h = [] then [] else hub_order h (room_clients roomID h))"

definition addCurrentRoomClient :: "nat \<Rightarrow> hub \<Rightarrow> hub" where
  "addCurrentRoomClient c h = h\<lparr>currentRoomClients := List.insert c (currentRoomClients h)\<rparr>"

definition removeCurrentRoomClient :: "nat \<Rightarrow> hub \<Rightarrow> hub" where
  "removeCurrentRoomClient c h = close_client c (h\<lparr>currentRoomClients := removeAll c (currentRoomClients h)\<rparr>)"

definition getCurrentRoomClients :: "hub \<Rightarrow> nat list" where
  "getCurrentRoomClients h = hub_order h (currentRoomClients h)"

definition writeRoomUpdate :: "nat \<Rightarrow> room option \<Rightarrow> hub \<Rightarrow> hub \<times> (go_error + unit)" where
  "writeRoomUpdate c ro h = (case ro of None \<Rightarrow> (h, Inr ()) | Some x \<Rightarrow> WriteMessage c (RoomUpdateMessage x) h)"

definition writeCurrentRoom :: "nat \<Rightarrow> string \<Rightarrow> hub \<Rightarrow> hub \<times> (go_error + unit)" where
  "writeCurrentRoom c roomID h = WriteMessage c (CurrentRoomMessage roomID) h"

text \<open>The loop of a broadcast: a client whose write fails is removed.\<close>

fun send_all ::
  "(nat \<Rightarrow> hub \<Rightarrow> hub \<times> (go_error + unit)) \<Rightarrow> (nat \<Rightarrow> hub \<Rightarrow> hub) \<Rightarrow> nat list \<Rightarrow> hub \<Rightarrow> hub" where
  "send_all wr remove [] h = h"
| "send_all wr remove (c # cs) h =
     (case wr c h of
        (h', Inl e) \<Rightarrow> send_all wr remove cs (remove c h')
      | (h', Inr u) \<Rightarrow> send_all wr remove cs h')"

definition BroadcastToRoom :: "string \<Rightarrow> string \<Rightarrow> hub \<Rightarrow> hub" where
  "BroadcastToRoom roomID message h =
     send_all (\<lambda>c. WriteMessage c (RawMessage message)) (removeClient roomID) (getRoomClients roomID h) h"

definition BroadcastRoomUpdate :: "room option \<Rightarrow> hub \<Rightarrow> hub" where
  "BroadcastRoomUpdate ro h =
     (case ro of
        None \<Rightarrow> h
      | Some x \<Rightarrow> send_all (\<lambda>c. writeRoomUpdate c (Some x)) (removeClient (Id x)) (getRoomClients (Id x) h) h)"

definition BroadcastCurrentRoom :: "string \<Rightarrow> hub \<Rightarrow> hub" where
  "BroadcastCurrentRoom roomID h =
     send_all (\<lambda>c. writeCurrentRoom c roomID) removeCurrentRoomClient (getCurrentRoomClients h) h"

section \<open>Sessions\<close>

text \<open>
  A handler up to its read loop. The upgrade and the setting of the read deadline may fail;
  \<open>fs\<close> are the outcomes of the writes to the new connection. When the read loop ends, the
  deferred call removes the client: \<open>end_session\<close>.
\<close>

datatype ws_outcome = WsBadRequest | WsNotUpgraded | WsClosed nat | WsServing nat

definition HandleWebSocket ::
  "'s room_repo \<Rightarrow> string \<Rightarrow> go_error option \<Rightarrow> fault list \<Rightarrow> go_error option \<Rightarrow> 's room_service \<times> hub \<Rightarrow>
   ('s room_service \<times> hub) \<times> ws_outcome" where
  "HandleWebSocket r roomID upgrade fs deadline = (\<lambda>(st, h).
     if roomID = [] then ((st, h), WsBadRequest)
     else if upgrade \<noteq> None then ((st, h), WsNotUpgraded)
     else
       (let (c, h1) = accept (Some roomID) fs h; h2 = addClient roomID c h1
        in case GetRoomSnapshot r roomID st of
             (st', Inl e) \<Rightarrow> ((st', removeClient roomID c h2), WsClosed c)
           | (st', Inr None) \<Rightarrow> ((st', removeClient roomID c h2), WsClosed c)
           | (st', Inr (Some x)) \<Rightarrow>
               (case writeRoomUpdate c (Some x) h2 of
                  (h3, Inl e) \<Rightarrow> ((st', removeClient roomID c h3), WsClosed c)
                | (h3, Inr u) \<Rightarrow>
                    if deadline \<noteq> None then ((st', removeClient roomID c h3), WsClosed c)
                    else ((st', h3), WsServing c))))"

definition HandleCurrentRoomWebSocket ::
  "go_error option \<Rightarrow> fault list \<Rightarrow> 's room_service \<times> hub \<Rightarrow> ('s room_service \<times> hub) \<times> ws_outcome" where
  "HandleCurrentRoomWebSocket upgrade fs = (\<lambda>(st, h).
     if upgrade \<noteq> None then ((st, h), WsNotUpgraded)
     else
       (let (c, h1) = accept None fs h; h2 = addCurrentRoomClient c h1
        in case writeCurrentRoom c (GetCurrentRoomID st) h2 of
             (h3, Inl e) \<Rightarrow> ((st, removeCurrentRoomClient c h3), WsClosed c)
           | (h3, Inr u) \<Rightarrow> ((st, h3), WsServing c)))"

definition end_session :: "nat \<Rightarrow> hub \<Rightarrow> hub" where
  "end_session c h =
     (case ws_room (sockets h c) of None \<Rightarrow> removeCurrentRoomClient c h | Some i \<Rightarrow> removeClient i c h)"

text \<open>One tick of the ping loop; the loop goes on while the result is true.\<close>

definition ping_tick :: "nat \<Rightarrow> hub \<Rightarrow> hub \<times> bool" where
  "ping_tick c h =
     (case WriteMessage c PingMessage h of
        (h', Inl e) \<Rightarrow> (h', False)
      | (h', Inr u) \<Rightarrow> (h', True))"

section \<open>The consumer of room notifications\<close>

definition handleCurrentRoomChanged :: "room_payload \<Rightarrow> hub \<Rightarrow> hub" where
  "handleCurrentRoomChanged data h =
     (case unmarshal_room_event data of
        Inl e \<Rightarrow> h
      | Inr event \<Rightarrow> BroadcastCurrentRoom (EventRoomID event) h)"

definition handleRoomUpdated ::
  "'s room_repo \<Rightarrow> room_payload \<Rightarrow> 's room_service \<times> hub \<Rightarrow> 's room_service \<times> hub" where
  "handleRoomUpdated r data = (\<lambda>(st, h).
     case unmarshal_room_event data of
       Inl e \<Rightarrow> (st, h)
     | Inr event \<Rightarrow>
         if EventRoomID event = [] then (st, h)
         else (case GetRoomSnapshot r (EventRoomID event) st of
                 (st', Inl e) \<Rightarrow> (st', h)
               | (st', Inr None) \<Rightarrow> (st', h)
               | (st', Inr (Some x)) \<Rightarrow> (st', BroadcastRoomUpdate (Some x) h)))"

section \<open>Steps under the lock\<close>

text \<open>
  What one critical section does to the hub. Handlers, ping loops and broadcasts run
  concurrently: any interleaving of them is a sequence of these steps, since a client is
  removed only with the room it joined.
\<close>

inductive hub_step :: "hub \<Rightarrow> hub \<Rightarrow> bool" where
  join: "accept (Some i) fs h = (c, h1) \<Longrightarrow> hub_step h (addClient i c h1)"
| join_current: "accept None fs h = (c, h1) \<Longrightarrow> hub_step h (addCurrentRoomClient c h1)"
| message: "c < next_socket h \<Longrightarrow> WriteMessage c m h = (h', res) \<Longrightarrow> hub_step h h'"
| leave: "c < next_socket h \<Longrightarrow> ws_room (sockets h c) = Some i \<Longrightarrow> hub_step h (removeClient i c h)"
| leave_current: "c < next_socket h \<Longrightarrow> ws_room (sockets h c) = None \<Longrightarrow> hub_step h (removeCurrentRoomClient c h)"

inductive_cases hub_stepE: "hub_step h h'"

definition serves :: "hub \<Rightarrow> string option \<Rightarrow> nat \<Rightarrow> bool" where
  "serves h ro c \<longleftrightarrow> c < next_socket h \<and> ws_open (sockets h c) \<and> ws_room (sockets h c) = ro"

definition hub_ok :: "hub \<Rightarrow> bool" where
  "hub_ok h \<longleftrightarrow> distinct (map fst (clients h)) \<and>
     (\<forall>i cs. map_of (clients h) i = Some cs \<longrightarrow> cs \<noteq> [] \<and> distinct cs) \<and>
     distinct (currentRoomClients h) \<and>
     (\<forall>i c. c \<in> set (room_clients i h) \<longleftrightarrow> serves h (Some i) c) \<and>
     (\<forall>c. c \<in> set (currentRoomClients h) \<longleftrightarrow> serves h None c) \<and>
     (\<forall>xs. mset (hub_order h xs) = mset xs)"

lemma hub_frame [simp]:
  "sockets (addClient i c h) = sockets h" "next_socket (addClient i c h) = next_socket h"
  "currentRoomClients (addClient i c h) = currentRoomClients h" "hub_order (addClient i c h) = hub_order h"
  "sockets (addCurrentRoomClient c h) = sockets h" "next_socket (addCurrentRoomClient c h) = next_socket h"
  "clients (addCurrentRoomClient c h) = clients h" "hub_order (addCurrentRoomClient c h) = hub_order h"
  by (simp_all add: addClient_def addCurrentRoomClient_def)

lemma close_frame [simp]:
  "sockets (removeClient i c h) = (sockets h)(c := (sockets h c)\<lparr>ws_open := False\<rparr>)"
  "next_socket (removeClient i c h) = next_socket h" "hub_order (removeClient i c h) = hub_order h"
  "currentRoomClients (removeClient i c h) = currentRoomClients h"
  "sockets (removeCurrentRoomClient c h) = (sockets h)(c := (sockets h c)\<lparr>ws_open := False\<rparr>)"
  "next_socket (removeCurrentRoomClient c h) = next_socket h" "hub_order (removeCurrentRoomClient c h) = hub_order h"
  "clients (removeCurrentRoomClient c h) = clients h"
  by (simp_all add: removeClient_def removeCurrentRoomClient_def close_client_def Let_def split: option.split)

lemma accept_frame:
  "accept ro fs h = (c, h1) \<Longrightarrow> c = next_socket h \<and> next_socket h1 = Suc c \<and> clients h1 = clients h \<and>
     currentRoomClients h1 = currentRoomClients h \<and> hub_order h1 = hub_order h \<and>
     sockets h1 = (sockets h)(c := \<lparr>ws_room = ro, ws_open = True, ws_messages = [], ws_faults = fs\<rparr>)"
  by (auto simp: accept_def)

lemma write_frame:
  "WriteMessage c m h = (h', res) \<Longrightarrow> next_socket h' = next_socket h \<and> clients h' = clients h \<and>
     currentRoomClients h' = currentRoomClients h \<and> hub_order h' = hub_order h \<and>
     (\<forall>k. ws_open (sockets h' k) = ws_open (sockets h k) \<and> ws_room (sockets h' k) = ws_room (sockets h k)) \<and>
     (\<forall>k. k \<noteq> c \<longrightarrow> sockets h' k = sockets h k)"
  by (auto simp: WriteMessage_def client_write_def Let_def split: if_splits fault.splits)

lemma write_messages:
  "WriteMessage c m h = (h', res) \<Longrightarrow>
     (if \<not> ws_open (sockets h c) then sockets h' c = sockets h c \<and> isl res
      else ws_messages (sockets h' c) = ws_messages (sockets h c) @ [m] \<or>
        isl res \<and> ws_messages (sockets h' c) = ws_messages (sockets h c))"
  by (auto simp: WriteMessage_def client_write_def Let_def split: if_splits fault.splits)

lemma room_clients_cong: "clients h' = clients h \<Longrightarrow> room_clients i h' = room_clients i h"
  by (simp add: room_clients_def)

lemma room_clients_add:
  "room_clients k (addClient i c h) = (if k = i then List.insert c (room_clients i h) else room_clients k h)"
  by (simp add: room_clients_def addClient_def update_conv)

lemma clients_remove:
  "map_of (clients (removeClient i c h)) k =
     (if k = i then (let cs = removeAll c (room_clients i h) in if cs = [] then None else Some cs)
      else map_of (clients h) k)"
  by (auto simp: room_clients_def removeClient_def close_client_def update_conv delete_conv Let_def
      split: option.split)

lemma room_clients_remove:
  "room_clients k (removeClient i c h) = (if k = i then removeAll c (room_clients i h) else room_clients k h)"
  by (simp add: room_clients_def [of k "removeClient i c h"] clients_remove Let_def)
     (simp add: room_clients_def)

lemma distinct_remove: "distinct (map fst (clients h)) \<Longrightarrow> distinct (map fst (clients (removeClient i c h)))"
  by (auto simp: removeClient_def close_client_def Let_def distinct_update distinct_delete split: option.split)

lemma insert_not_Nil: "List.insert c cs \<noteq> []"
  by (auto simp: List.insert_def)

lemma hub_step_ok: "hub_step h h' \<Longrightarrow> hub_ok h \<Longrightarrow> hub_ok h'"
proof (induction rule: hub_step.induct)
  case (join i fs h c h1)
  note a = accept_frame [OF join.hyps]
  have rc: "room_clients k h1 = room_clients k h" for k by (rule room_clients_cong) (use a in simp)
  have d: "distinct (room_clients i h)"
    using join.prems by (auto simp: hub_ok_def room_clients_def split: option.split)
  show ?case unfolding hub_ok_def
  proof (intro conjI allI)
    show "distinct (map fst (clients (addClient i c h1)))"
      using join.prems a by (simp add: hub_ok_def addClient_def distinct_update)
    show "map_of (clients (addClient i c h1)) k = Some cs \<longrightarrow> cs \<noteq> [] \<and> distinct cs" for k cs
      using join.prems a d by (auto simp: hub_ok_def addClient_def update_conv rc insert_not_Nil split: if_splits)
    show "(k \<in> set (room_clients j (addClient i c h1))) = serves (addClient i c h1) (Some j) k" for j k
      using join.prems a by (auto simp: hub_ok_def room_clients_add rc serves_def less_Suc_eq)
    show "(k \<in> set (currentRoomClients (addClient i c h1))) = serves (addClient i c h1) None k" for k
      using join.prems a by (auto simp: hub_ok_def serves_def less_Suc_eq)
  qed (use join.prems a in \<open>simp_all add: hub_ok_def\<close>)
next
  case (join_current fs h c h1)
  note a = accept_frame [OF join_current.hyps]
  have rc: "room_clients k (addCurrentRoomClient d h1) = room_clients k h" for k d
    by (rule room_clients_cong) (use a in simp)
  show ?case unfolding hub_ok_def
  proof (intro conjI allI)
    show "(k \<in> set (room_clients j (addCurrentRoomClient c h1))) = serves (addCurrentRoomClient c h1) (Some j) k" for j k
      using join_current.prems a by (auto simp: hub_ok_def rc serves_def less_Suc_eq)
    show "(k \<in> set (currentRoomClients (addCurrentRoomClient c h1))) = serves (addCurrentRoomClient c h1) None k" for k
      using join_current.prems a by (auto simp: hub_ok_def serves_def less_Suc_eq addCurrentRoomClient_def)
    show "distinct (currentRoomClients (addCurrentRoomClient c h1))"
      using join_current.prems a by (simp add: hub_ok_def addCurrentRoomClient_def)
  qed (use join_current.prems a in \<open>simp_all add: hub_ok_def\<close>)
next
  case (message c h m h' res)
  note w = write_frame [OF message.hyps(2)]
  then have "room_clients k h' = room_clients k h" for k by (intro room_clients_cong) simp
  moreover have "serves h' ro k = serves h ro k" for ro k using w by (simp add: serves_def)
  ultimately show ?case using message.prems w by (simp add: hub_ok_def)
next
  case (leave c h i)
  show ?case unfolding hub_ok_def
  proof (intro conjI allI)
    show "distinct (map fst (clients (removeClient i c h)))"
      using leave.prems by (intro distinct_remove) (simp add: hub_ok_def)
    have d: "distinct (room_clients i h)"
      using leave.prems by (auto simp: hub_ok_def room_clients_def split: option.split)
    show "map_of (clients (removeClient i c h)) k = Some cs \<longrightarrow> cs \<noteq> [] \<and> distinct cs" for k cs
      using leave.prems d by (auto simp: hub_ok_def clients_remove Let_def distinct_removeAll split: if_splits)
    show "(k \<in> set (room_clients j (removeClient i c h))) = serves (removeClient i c h) (Some j) k" for j k
      using leave by (auto simp: hub_ok_def room_clients_remove serves_def)
    show "(k \<in> set (currentRoomClients (removeClient i c h))) = serves (removeClient i c h) None k" for k
      using leave by (auto simp: hub_ok_def serves_def)
  qed (use leave.prems in \<open>simp_all add: hub_ok_def\<close>)
next
  case (leave_current c h)
  have rc: "room_clients k (removeCurrentRoomClient d h) = room_clients k h" for k d
    by (rule room_clients_cong) simp
  show ?case unfolding hub_ok_def
  proof (intro conjI allI)
    show "(k \<in> set (room_clients j (removeCurrentRoomClient c h))) = serves (removeCurrentRoomClient c h) (Some j) k" for j k
      using leave_current by (auto simp: hub_ok_def rc serves_def)
    show "(k \<in> set (currentRoomClients (removeCurrentRoomClient c h))) = serves (removeCurrentRoomClient c h) None k" for k
      using leave_current by (auto simp: hub_ok_def serves_def removeCurrentRoomClient_def close_client_def)
    show "distinct (currentRoomClients (removeCurrentRoomClient c h))"
      using leave_current.prems by (simp add: hub_ok_def removeCurrentRoomClient_def close_client_def distinct_removeAll)
  qed (use leave_current.prems in \<open>simp_all add: hub_ok_def\<close>)
qed

lemma hub_steps_ok: "hub_step\<^sup>*\<^sup>* h h' \<Longrightarrow> hub_ok h \<Longrightarrow> hub_ok h'"
  by (induction rule: rtranclp_induct) (auto intro: hub_step_ok)

lemma hub_ok_new: "(\<And>xs. mset (order xs) = mset xs) \<Longrightarrow> hub_ok (NewHub order)"
  by (simp add: hub_ok_def NewHub_def room_clients_def serves_def)

section \<open>Broadcasts\<close>

definition remove_from :: "string option \<Rightarrow> nat \<Rightarrow> hub \<Rightarrow> hub" where
  "remove_from ro c h = (case ro of None \<Rightarrow> removeCurrentRoomClient c h | Some i \<Rightarrow> removeClient i c h)"

lemma remove_from_frame [simp]:
  "sockets (remove_from ro c h) = (sockets h)(c := (sockets h c)\<lparr>ws_open := False\<rparr>)"
  "next_socket (remove_from ro c h) = next_socket h"
  by (simp_all add: remove_from_def split: option.split)

lemma remove_from_step:
  "c < next_socket h \<Longrightarrow> ws_room (sockets h c) = ro \<Longrightarrow> hub_step h (remove_from ro c h)"
  by (cases ro) (auto simp: remove_from_def intro: hub_step.intros)

text \<open>What a broadcast of one message does to a connection that was open.\<close>

definition told :: "ws_message \<Rightarrow> ws_client \<Rightarrow> ws_client \<Rightarrow> bool" where
  "told m s s' \<longleftrightarrow> ws_room s' = ws_room s \<and>
     (ws_open s' \<and> ws_messages s' = ws_messages s @ [m] \<or>
      \<not> ws_open s' \<and> (ws_messages s' = ws_messages s \<or> ws_messages s' = ws_messages s @ [m]))"

lemma send_all_effect:
  fixes m :: ws_message
  assumes "distinct cs" "\<forall>c \<in> set cs. serves h ro c"
  defines "h' \<equiv> send_all (\<lambda>c. WriteMessage c m) (remove_from ro) cs h"
  shows "hub_step\<^sup>*\<^sup>* h h' \<and> next_socket h' = next_socket h \<and>
    (\<forall>c. if c \<in> set cs then told m (sockets h c) (sockets h' c) else sockets h' c = sockets h c)"
  using assms(1,2) unfolding h'_def
proof (induction cs arbitrary: h)
  case (Cons c cs)
  obtain h1 res where w: "WriteMessage c m h = (h1, res)" by (meson surj_pair)
  note f = write_frame [OF w]
  have c: "c < next_socket h" "ws_open (sockets h c)" "ws_room (sockets h c) = ro"
    using Cons.prems(2) by (auto simp: serves_def)
  define h2 where "h2 = (case res of Inl e \<Rightarrow> remove_from ro c h1 | Inr u \<Rightarrow> h1)"
  have s1: "hub_step h h1" by (rule hub_step.message [OF c(1) w])
  have "hub_step\<^sup>*\<^sup>* h1 h2"
    using f c by (cases res) (auto simp: h2_def intro!: r_into_rtranclp remove_from_step)
  with s1 have steps: "hub_step\<^sup>*\<^sup>* h h2" by (meson converse_rtranclp_into_rtranclp)
  have n: "next_socket h2 = next_socket h" and o: "\<And>k. k \<noteq> c \<Longrightarrow> sockets h2 k = sockets h k"
    using f by (auto simp: h2_def split: sum.split)
  have t: "told m (sockets h c) (sockets h2 c)"
    using f write_messages [OF w] c by (cases res) (auto simp: h2_def told_def)
  have "sockets h2 k = sockets h k" if "k \<in> set cs" for k
    using that o Cons.prems(1) by (metis distinct.simps(2))
  then have "\<forall>k \<in> set cs. serves h2 ro k" using Cons.prems(2) n by (simp add: serves_def)
  with Cons.IH [of h2] Cons.prems(1) have ih: "hub_step\<^sup>*\<^sup>* h2 (send_all (\<lambda>c. WriteMessage c m) (remove_from ro) cs h2)"
    "next_socket (send_all (\<lambda>c. WriteMessage c m) (remove_from ro) cs h2) = next_socket h2"
    "\<And>k. if k \<in> set cs then told m (sockets h2 k) (sockets (send_all (\<lambda>c. WriteMessage c m) (remove_from ro) cs h2) k)
      else sockets (send_all (\<lambda>c. WriteMessage c m) (remove_from ro) cs h2) k = sockets h2 k"
    by simp_all
  have eq: "send_all (\<lambda>c. WriteMessage c m) (remove_from ro) (c # cs) h =
      send_all (\<lambda>c. WriteMessage c m) (remove_from ro) cs h2"
    by (simp add: w h2_def split: sum.split)
  have "c \<notin> set cs" using Cons.prems(1) by simp
  then have "\<forall>k. if k \<in> set (c # cs) then told m (sockets h k) (sockets (send_all (\<lambda>c. WriteMessage c m) (remove_from ro) cs h2) k)
      else sockets (send_all (\<lambda>c. WriteMessage c m) (remove_from ro) cs h2) k = sockets h k"
    using ih(3) o t by (metis (no_types, lifting) set_ConsD list.set_intros)
  with rtranclp_trans [OF steps ih(1)] ih(2) n show ?case unfolding eq by simp
qed simp

lemma writeCurrentRoom_eq: "(\<lambda>c. writeCurrentRoom c i) = (\<lambda>c. WriteMessage c (CurrentRoomMessage i))"
  by (intro ext) (simp add: writeCurrentRoom_def)

lemma writeRoomUpdate_Some: "writeRoomUpdate c (Some x) = WriteMessage c (RoomUpdateMessage x)"
  by (rule ext) (simp add: writeRoomUpdate_def)

lemma order_same:
  assumes "hub_ok h" "distinct cs"
  shows "set (hub_order h cs) = set cs" "distinct (hub_order h cs)"
proof -
  have m: "mset (hub_order h cs) = mset cs" using assms(1) by (simp add: hub_ok_def)
  then show "set (hub_order h cs) = set cs" by (rule mset_eq_setD)
  show "distinct (hub_order h cs)" using mset_eq_imp_distinct_iff [OF m] assms(2) by simp
qed

lemma room_clients_distinct: "hub_ok h \<Longrightarrow> distinct (room_clients i h)"
  by (auto simp: hub_ok_def room_clients_def split: option.split)

text \<open>The common form of the three broadcasts.\<close>

definition broadcast_done :: "string option \<Rightarrow> ws_message \<Rightarrow> hub \<Rightarrow> hub \<Rightarrow> bool" where
  "broadcast_done ro m h h' \<longleftrightarrow> hub_step\<^sup>*\<^sup>* h h' \<and> next_socket h' = next_socket h \<and>
     (\<forall>c. if serves h ro c then told m (sockets h c) (sockets h' c) else sockets h' c = sockets h c)"

lemma broadcast_send_all:
  assumes "hub_ok h" "set cs = Collect (serves h ro)" "distinct cs"
  shows "broadcast_done ro m h (send_all (\<lambda>c. WriteMessage c m) (remove_from ro) (hub_order h cs) h)"
  using send_all_effect [of "hub_order h cs" h ro m] order_same [OF assms(1,3)] assms(2)
  by (auto simp: broadcast_done_def)

lemma broadcasts:
  assumes "hub_ok h"
  shows "broadcast_done (Some i) (RawMessage t) h (BroadcastToRoom i t h)"
    and "broadcast_done (Some (Id x)) (RoomUpdateMessage x) h (BroadcastRoomUpdate (Some x) h)"
    and "broadcast_done None (CurrentRoomMessage i) h (BroadcastCurrentRoom i h)"
proof -
  have r: "set (room_clients k h) = Collect (serves h (Some k))" for k
    using assms by (auto simp: hub_ok_def)
  have "getRoomClients k h = hub_order h (room_clients k h)" for k
    using order_same(1) [OF assms, of "[]"] by (simp add: getRoomClients_def)
  then show "broadcast_done (Some i) (RawMessage t) h (BroadcastToRoom i t h)"
    "broadcast_done (Some (Id x)) (RoomUpdateMessage x) h (BroadcastRoomUpdate (Some x) h)"
    using broadcast_send_all [OF assms r room_clients_distinct [OF assms]]
    by (simp_all add: BroadcastToRoom_def BroadcastRoomUpdate_def writeRoomUpdate_Some remove_from_def [abs_def])
  have "set (currentRoomClients h) = Collect (serves h None)" "distinct (currentRoomClients h)"
    using assms by (auto simp: hub_ok_def)
  from broadcast_send_all [OF assms this]
  show "broadcast_done None (CurrentRoomMessage i) h (BroadcastCurrentRoom i h)"
    by (simp add: BroadcastCurrentRoom_def getCurrentRoomClients_def writeCurrentRoom_eq remove_from_def [abs_def])
qed

lemma removeClient_hub_ok:
  "hub_ok h \<Longrightarrow> c < next_socket h \<Longrightarrow> ws_room (sockets h c) = Some i \<Longrightarrow> hub_ok (removeClient i c h)"
  by (rule hub_step_ok [OF hub_step.leave])

section \<open>Properties\<close>




definition ex_hub :: hub where
  "ex_hub = addClient ''7-1'' 0 (snd (accept (Some ''7-1'') [] (NewHub (\<lambda>xs. xs))))"

lemma ex_hub_ok: "hub_ok ex_hub"
proof -
  have "accept (Some ''7-1'') [] (NewHub (\<lambda>xs. xs)) = (0, snd (accept (Some ''7-1'') [] (NewHub (\<lambda>xs. xs))))"
    by (simp add: accept_def NewHub_def)
  from hub_step.join [OF this] hub_ok_new show ?thesis
    by (auto simp: ex_hub_def intro: hub_step_ok)
qed


text \<open>The first write to a registered client: its only message, or the end of the connection.\<close>

lemma first_write:
  assumes "hub_ok h" "c < next_socket h" "ws_open (sockets h c)" "ws_room (sockets h c) = Some i"
    and "ws_messages (sockets h c) = []" "WriteMessage c m h = (h', res)"
  shows "hub_ok h'" "hub_ok (removeClient i c h')" "c < next_socket (removeClient i c h')"
    "\<not> ws_open (sockets (removeClient i c h') c)"
    "\<not> isl res \<Longrightarrow> serves h' (Some i) c \<and> ws_messages (sockets h' c) = [m]"
    "k \<noteq> c \<Longrightarrow> sockets h' k = sockets h k" "k \<noteq> c \<Longrightarrow> sockets (removeClient i c h') k = sockets h k"
proof -
  note f = write_frame [OF assms(6)]
  show ok: "hub_ok h'" by (rule hub_step_ok [OF hub_step.message [OF assms(2,6)] assms(1)])
  show "hub_ok (removeClient i c h')" by (rule removeClient_hub_ok) (use ok f assms in simp_all)
  show "c < next_socket (removeClient i c h')" "\<not> ws_open (sockets (removeClient i c h') c)"
    "k \<noteq> c \<Longrightarrow> sockets h' k = sockets h k" "k \<noteq> c \<Longrightarrow> sockets (removeClient i c h') k = sockets h k"
    using f assms(2) by simp_all
  show "serves h' (Some i) c \<and> ws_messages (sockets h' c) = [m]" if "\<not> isl res"
    using write_messages [OF assms(6)] assms(2-5) f ok that by (auto simp: serves_def)
qed

text \<open>
  C38: a WebSocket session starts with the stored room: when the handler enters its read loop,
  the new client is registered for its room and has been sent the stored room as its only
  message; in every other case of an upgraded connection the connection is closed again. The
  store and all other connections are left alone.
\<close>

theorem session_starts_with_the_stored_room:
  assumes "room_service r view I f g" "service_inv view I st" "hub_ok h"
    and "HandleWebSocket r i upgrade fs deadline (st, h) = ((st', h'), out)"
  shows "hub_ok h' \<and> service_view view st' = service_view view st \<and>
    (\<forall>c. c \<noteq> next_socket h \<longrightarrow> sockets h' c = sockets h c) \<and>
    (case out of
       WsServing c \<Rightarrow> c = next_socket h \<and> serves h' (Some i) c \<and>
         (\<exists>x v. ws_messages (sockets h' c) = [RoomUpdateMessage x] \<and>
            service_view view st i = Some v \<and> agree f g x v)
     | WsClosed c \<Rightarrow> c = next_socket h \<and> c < next_socket h' \<and> \<not> ws_open (sockets h' c)
     | _ \<Rightarrow> h' = h \<and> st' = st)"
proof (cases "i = [] \<or> upgrade \<noteq> None")
  case True
  with assms(3,4) show ?thesis by (auto simp: HandleWebSocket_def split: if_splits)
next
  case False
  obtain c h1 where a: "accept (Some i) fs h = (c, h1)" by (meson surj_pair)
  define h2 where "h2 = addClient i c h1"
  have ok2: "hub_ok h2" unfolding h2_def by (rule hub_step_ok [OF hub_step.join [OF a] assms(3)])
  have new: "c = next_socket h" "c < next_socket h2" "ws_open (sockets h2 c)" "ws_room (sockets h2 c) = Some i"
    "ws_messages (sockets h2 c) = []" "\<And>k. k \<noteq> c \<Longrightarrow> sockets h2 k = sockets h k"
    using accept_frame [OF a] by (auto simp: h2_def)
  obtain s q where g: "repo_get r i (repo_state st) = (s, q)" by (meson surj_pair)
  note gs = room_service.get_step [OF assms(1,2) g]
  show ?thesis
  proof (cases "\<exists>x. q = Inr (Some x)")
    case False
    with \<open>\<not> (i = [] \<or> upgrade \<noteq> None)\<close> assms(4) a g
    have e: "st' = st\<lparr>repo_state := s\<rparr>" "h' = removeClient i c h2" "out = WsClosed c"
      by (auto simp: HandleWebSocket_def GetRoomSnapshot_def h2_def split: sum.splits option.splits)
    with removeClient_hub_ok [OF ok2 new(2,4)] new gs(2) show ?thesis by simp
  next
    case True
    then obtain x where x: "q = Inr (Some x)" by blast
    obtain h3 res where w: "WriteMessage c (RoomUpdateMessage x) h2 = (h3, res)" by (meson surj_pair)
    have e: "st' = st\<lparr>repo_state := s\<rparr>"
      "h' = (if isl res \<or> deadline \<noteq> None then removeClient i c h3 else h3)"
      "out = (if isl res \<or> deadline \<noteq> None then WsClosed c else WsServing c)"
      using \<open>\<not> (i = [] \<or> upgrade \<noteq> None)\<close> assms(4) a g x w
      by (auto simp: HandleWebSocket_def GetRoomSnapshot_def writeRoomUpdate_Some h2_def split: sum.splits if_splits)
    from first_write [OF ok2 new(2-5) w] e new(1,6) gs(2) gs(4) [OF x] show ?thesis by auto
  qed
qed

theorem session_starts_with_the_stored_room_witness:
  "\<exists>h' st' c. HandleWebSocket in_memory_repo ''7-1'' None [] None (ex_service, ex_hub) = ((st', h'), WsServing c) \<and>
     serves h' (Some ''7-1'') c"
proof -
  obtain st' h' c where u:
    "HandleWebSocket in_memory_repo ''7-1'' None [] None (ex_service, ex_hub) = ((st', h'), WsServing c)"
    using Clone_ex_room ex_repo_lookup
    by (simp add: HandleWebSocket_def GetRoomSnapshot_def mem_defs ex_service_def NewRoomService_def
        accept_def writeRoomUpdate_def WriteMessage_def client_write_def)
       (simp add: ex_repo_def)
  with session_starts_with_the_stored_room [OF mem_service.room_service_axioms ex_service_inv ex_hub_ok u]
  show ?thesis by auto
qed

text \<open>
  Reading the room and sending it are two critical sections. When the room changes between
  them and the change is broadcast first, the last message the client gets is the old room.
\<close>

lemma first_message_can_be_stale:
  assumes "Id new = ''7-1''"
  shows "ws_messages (sockets (fst (writeRoomUpdate 0 (Some old) (BroadcastRoomUpdate (Some new) ex_hub))) 0) =
    [RoomUpdateMessage new, RoomUpdateMessage old]"
  using assms
  by (simp add: BroadcastRoomUpdate_def getRoomClients_def room_clients_def ex_hub_def addClient_def accept_def
      NewHub_def writeRoomUpdate_def WriteMessage_def client_write_def Let_def)

end
