(* ===== verification/GoText.thy ===== *)
theory GoText
  imports Prelude
begin

text \<open>
  What the program uses of Go's \<open>strings\<close>, \<open>strconv\<close> and \<open>encoding/base64\<close> packages: splitting
  at a character, trimming a prefix, \<open>Atoi\<close> and the standard base64 encoding.
\<close>

section \<open>Splitting and joining\<close>

text \<open>\<open>strings.Split\<close> with a one-character separator.\<close>

fun split_at :: "char \<Rightarrow> string \<Rightarrow> string list" where
  "split_at sep [] = [[]]"
| "split_at sep (c # cs) =
     (if c = sep then [] # split_at sep cs
      else case split_at sep cs of [] \<Rightarrow> [[c]] | w # ws \<Rightarrow> (c # w) # ws)"

definition TrimPrefix :: "string \<Rightarrow> string \<Rightarrow> string" where
  "TrimPrefix p s = (if take (length p) s = p then drop (length p) s else s)"

definition HasPrefix :: "string \<Rightarrow> string \<Rightarrow> bool" where
  "HasPrefix p s \<longleftrightarrow> take (length p) s = p"

lemma split_at_not_Nil [simp]: "split_at sep s \<noteq> []"
  by (induction s) (auto split: list.split)

lemma split_at_word: "sep \<notin> set w \<Longrightarrow> split_at sep w = [w]"
  by (induction w) auto

lemma split_at_cons: "sep \<notin> set w \<Longrightarrow> split_at sep (w @ sep # s) = w # split_at sep s"
  by (induction w) auto

lemma split_at_join: "join_with [sep] (split_at sep s) = s"
proof (induction s)
  case (Cons c cs)
  obtain w ws where e: "split_at sep cs = w # ws" by (cases "split_at sep cs") simp_all
  with Cons show ?case by (cases ws) auto
qed simp

lemma split_at_words: "w \<in> set (split_at sep s) \<Longrightarrow> sep \<notin> set w"
proof (induction s arbitrary: w)
  case (Cons c cs)
  then show ?case by (cases "split_at sep cs") (auto split: if_splits)
qed simp

lemma TrimPrefix_append [simp]: "TrimPrefix p (p @ s) = s"
  by (simp add: TrimPrefix_def)

section \<open>Paths\<close>

text \<open>\<open>path.Clean\<close> of a rooted path, and the \<open>cleanPath\<close> of \<open>net/http\<close>, which keeps a final slash.\<close>

fun clean_parts :: "string list \<Rightarrow> string list \<Rightarrow> string list" where
  "clean_parts acc [] = rev acc"
| "clean_parts acc (p # ps) =
     (if p = [] \<or> p = ''.'' then clean_parts acc ps
      else if p = ''..'' then clean_parts (case acc of [] \<Rightarrow> [] | _ # rest \<Rightarrow> rest) ps
      else clean_parts (p # acc) ps)"

definition path_Clean :: "string \<Rightarrow> string" where
  "path_Clean p = ''/'' @ join_with ''/'' (clean_parts [] (split_at (CHR ''/'') p))"

definition cleanPath :: "string \<Rightarrow> string" where
  "cleanPath p =
     (if p = [] then ''/''
      else
        (let q = (if hd p = CHR ''/'' then p else CHR ''/'' # p); np = path_Clean q
         in if last q = CHR ''/'' \<and> np \<noteq> ''/'' then np @ ''/'' else np))"

lemma cleanPath_example:
  "cleanPath ''/rooms/7-1/players'' = ''/rooms/7-1/players''" "cleanPath ''/rooms//7-1/'' = ''/rooms/7-1/''"
  "cleanPath ''/rooms/../health'' = ''/health''" "cleanPath ''/../..'' = ''/''"
  by (simp_all add: cleanPath_def path_Clean_def)

section \<open>Integers\<close>

definition digit_value :: "char \<Rightarrow> nat option" where
  "digit_value c = (let n = of_char c :: nat in if 48 \<le> n \<and> n < 58 then Some (n - 48) else None)"

fun digits_value :: "nat \<Rightarrow> string \<Rightarrow> nat option" where
  "digits_value acc [] = Some acc"
| "digits_value acc (c # cs) =
     (case digit_value c of None \<Rightarrow> None | Some d \<Rightarrow> digits_value (10 * acc + d) cs)"

text \<open>\<open>strconv.Atoi\<close>: an optional sign, at least one digit, and the range of an \<open>int\<close>.\<close>

definition Atoi :: "string \<Rightarrow> int option" where
  "Atoi s =
     (let neg = (s \<noteq> [] \<and> hd s = CHR ''-'');
          ds = (if s \<noteq> [] \<and> (hd s = CHR ''-'' \<or> hd s = CHR ''+'') then tl s else s)
      in if ds = [] then None
         else case digits_value 0 ds of
                None \<Rightarrow> None
              | Some n \<Rightarrow> (let i = (if neg then - int n else int n) in if int64 i then Some i else None))"

text \<open>The error of \<open>Atoi\<close> names the function, the text, and whether its syntax or its size is wrong.\<close>

definition atoi_error :: "string \<Rightarrow> go_error" where
  "atoi_error s =
     (let ds = (if s \<noteq> [] \<and> (hd s = CHR ''-'' \<or> hd s = CHR ''+'') then tl s else s)
      in Errorf [Txt ''strconv.Atoi: parsing '', Quoted s,
                 Txt (if ds = [] \<or> digits_value 0 ds = None then '': invalid syntax'' else '': value out of range'')])"

lemma Atoi_int64: "Atoi s = Some i \<Longrightarrow> int64 i"
  by (auto simp: Atoi_def Let_def split: if_splits option.splits)

section \<open>Base64\<close>

definition base64_char :: "nat \<Rightarrow> char" where
  "base64_char n =
     (if n < 26 then char_of (65 + n) else if n < 52 then char_of (71 + n)
      else if n < 62 then char_of (n - 4) else if n = 62 then CHR ''+'' else CHR ''/'')"

fun base64 :: "string \<Rightarrow> string" where
  "base64 (a # b # c # cs) =
     (let n = (of_char a * 256 + of_char b) * 256 + of_char c :: nat
      in [base64_char (n div 262144), base64_char (n div 4096 mod 64), base64_char (n div 64 mod 64),
          base64_char (n mod 64)] @ base64 cs)"
| "base64 [a, b] =
     (let n = (of_char a * 256 + of_char b) * 4 :: nat
      in [base64_char (n div 4096), base64_char (n div 64 mod 64), base64_char (n mod 64), CHR ''=''])"
| "base64 [a] = (let n = of_char a * 16 :: nat in [base64_char (n div 64), base64_char (n mod 64), CHR ''='', CHR ''=''])"
| "base64 [] = []"

lemma base64_example: "base64 ''riot:pass'' = ''cmlvdDpwYXNz''" "base64 ''riot:p'' = ''cmlvdDpw''"
  by (simp_all add: base64_char_def char_of_def bit_iff_odd)

lemma length_base64: "length (base64 s) = 4 * ((length s + 2) div 3)"
proof (induction s rule: base64.induct)
  case (1 a b c cs)
  have "(5 + n) div 3 = Suc ((n + 2) div 3)" for n :: nat by presburger
  with 1 show ?case by (simp add: Let_def)
qed (simp_all add: Let_def)

lemma Atoi_example: "Atoi ''103'' = Some 103" "Atoi ''-7'' = Some (-7)" "Atoi ''1x'' = None" "Atoi [] = None"
  by (simp_all add: Atoi_def digit_value_def int64_def)

end
