(* ===== verification/Http.thy ===== *)
theory Http
  imports RoomProps GoText
begin

text \<open>
  The HTTP side of the server: the room and health handlers (\<open>internal/handlers\<close>), their
  requests (\<open>internal/dto\<close>) and the middleware around them (\<open>internal/middleware\<close>).
\<close>

section \<open>Requests and responses\<close>

text \<open>
  The body is what a JSON decoder sees of it: the fields of the two request structs. An absent
  header or query parameter is the empty string; the only parameter that is read is \<open>roomId\<close>.
\<close>

record body_wire =
  w_champion :: "string jfield"
  w_reqGameName :: "string jfield"
  w_reqTagLine :: "string jfield"
  w_spell :: "string jfield"

record http_request =
  Method :: string
  URLPath :: string
  QueryRoomId :: string
  OriginHeader :: string
  Body :: "body_wire payload"

record create_player_request = ReqChampion :: string

record toggle_spell_request =
  ReqGameName :: string
  ReqTagLine :: string
  ReqSpell :: string

definition decode_create_player :: "body_wire payload \<Rightarrow> go_error + create_player_request" where
  "decode_create_player = unmarshal
     (\<lambda>w. map_option (\<lambda>c. \<lparr>ReqChampion = c\<rparr>) (field_or [] (w_champion w))) \<lparr>ReqChampion = []\<rparr>"

definition decode_toggle_spell :: "body_wire payload \<Rightarrow> go_error + toggle_spell_request" where
  "decode_toggle_spell = unmarshal
     (\<lambda>w. case (field_or [] (w_reqGameName w), field_or [] (w_reqTagLine w), field_or [] (w_spell w)) of
            (Some g, Some t, Some s) \<Rightarrow> Some \<lparr>ReqGameName = g, ReqTagLine = t, ReqSpell = s\<rparr>
          | _ \<Rightarrow> None)
     \<lparr>ReqGameName = [], ReqTagLine = [], ReqSpell = []\<rparr>"

text \<open>
  A handler only sends to its \<open>http.ResponseWriter\<close>: its output is the sequence of its calls,
  and whether it panicked after them.
\<close>

datatype http_body =
    TextBody string
  | RoomBody room
  | CurrentRoomBody string
  | HealthBody string
  | ReadinessBody string string string

datatype rw_action =
    SetHeader string string
  | DelHeader string
  | WriteHeader int
  | WriteBody http_body
  | Flush

type_synonym 'st handler = "http_request \<Rightarrow> 'st \<Rightarrow> 'st \<times> rw_action list \<times> bool"

text \<open>
  The writer of \<open>net/http\<close>: the first status counts and fixes the headers, a body without a
  status is sent with 200, and so is a response without a body.
\<close>

record http_response =
  resp_status :: "int option"
  resp_header :: "(string \<times> string) list"
  resp_sent :: "(string \<times> string) list"
  resp_body :: "http_body list"

definition empty_response :: http_response where
  "empty_response = \<lparr>resp_status = None, resp_header = [], resp_sent = [], resp_body = []\<rparr>"

definition start_response :: "int \<Rightarrow> http_response \<Rightarrow> http_response" where
  "start_response code w =
     (if resp_status w = None then w\<lparr>resp_status := Some code, resp_sent := resp_header w\<rparr> else w)"

fun raw_action :: "http_response \<Rightarrow> rw_action \<Rightarrow> http_response" where
  "raw_action w (SetHeader k v) = w\<lparr>resp_header := AList.update k v (resp_header w)\<rparr>"
| "raw_action w (DelHeader k) = w\<lparr>resp_header := AList.delete k (resp_header w)\<rparr>"
| "raw_action w (WriteHeader code) = start_response code w"
| "raw_action w (WriteBody b) = (start_response 200 w)\<lparr>resp_body := resp_body w @ [b]\<rparr>"
| "raw_action w Flush = start_response 200 w"

definition respond :: "rw_action list \<Rightarrow> http_response" where
  "respond acts = start_response 200 (foldl raw_action empty_response acts)"

text \<open>\<open>http.Error\<close>, which ends the text with a newline, and \<open>http.NotFound\<close>.\<close>

definition http_Error :: "string \<Rightarrow> int \<Rightarrow> rw_action list" where
  "http_Error msg code =
     [DelHeader ''Content-Length'', SetHeader ''Content-Type'' ''text/plain; charset=utf-8'',
      SetHeader ''X-Content-Type-Options'' ''nosniff'', WriteHeader code, WriteBody (TextBody (msg @ [CHR 0x0A]))]"

definition http_NotFound :: "rw_action list" where
  "http_NotFound = http_Error ''404 page not found'' 404"

text \<open>
  \<open>json.NewEncoder(w).Encode\<close> with its outcome: written, not encodable, or lost while writing.
\<close>

definition encode_json :: "http_body \<Rightarrow> fault \<Rightarrow> rw_action list \<times> go_error option" where
  "encode_json b enc =
     (case enc of
        NoFault \<Rightarrow> ([WriteBody b], None)
      | FailBefore e \<Rightarrow> ([], Some e)
      | FailAfter e \<Rightarrow> ([WriteBody b], Some e))"

section \<open>The room handler\<close>

definition getRoomIdFromPath :: "http_request \<Rightarrow> string" where
  "getRoomIdFromPath req =
     (let parts = split_at (CHR ''/'') (TrimPrefix ''/rooms/'' (URLPath req))
      in if parts = [] then [] else hd parts)"

definition http_GetRoom :: "'s room_repo \<Rightarrow> fault \<Rightarrow> 's room_service handler" where
  "http_GetRoom r enc req st =
     (case GetRoomSnapshot r (getRoomIdFromPath req) st of
        (st', Inl e) \<Rightarrow> (st', http_Error ''Failed to get room'' 500, False)
      | (st', Inr None) \<Rightarrow> (st', http_Error ''Room not found'' 404, False)
      | (st', Inr (Some x)) \<Rightarrow>
          (let (acts, err) = encode_json (RoomBody x) enc
           in (st', SetHeader ''Content-Type'' ''application/json'' # acts @
                 (if err = None then [] else http_Error ''Failed to encode room'' 500), False)))"

definition http_AddPlayer :: "'s room_repo \<Rightarrow> time \<Rightarrow> 's room_service handler" where
  "http_AddPlayer r saved req st =
     (if Method req \<noteq> ''POST'' then (st, http_Error ''Method not allowed'' 405, False)
      else
        (case decode_create_player (Body req) of
           Inl e \<Rightarrow> (st, http_Error (error_text e) 400, False)
         | Inr request \<Rightarrow>
             (let p = \<lparr>Champion = ReqChampion request, ChampionImage = [], GameName = [], TagLine = [],
                       ChampionId = 0, SummonerSpellHaste = 0, Spells = None\<rparr>
              in case AddPlayer r saved (getRoomIdFromPath req) p st of
                   (st', Inl e) \<Rightarrow> (st', http_Error ''Failed to add player'' 500, False)
                 | (st', Inr ok) \<Rightarrow>
                     if \<not> ok then (st', http_Error ''Room not found'' 404, False)
                     else (st', [WriteHeader 201], False))))"

definition http_ToggleSpell :: "'s room_repo \<Rightarrow> time \<Rightarrow> time \<Rightarrow> 's room_service handler" where
  "http_ToggleSpell r now saved req st =
     (if Method req \<noteq> ''POST'' then (st, http_Error ''Method not allowed'' 405, False)
      else
        (case decode_toggle_spell (Body req) of
           Inl e \<Rightarrow> (st, http_Error (error_text e) 400, False)
         | Inr request \<Rightarrow>
             (case ToggleSpellByRiotId r now saved (getRoomIdFromPath req) (ReqGameName request)
                     (ReqTagLine request) (ReqSpell request) st of
                None \<Rightarrow> (st, [], True)
              | Some (st', Inl e) \<Rightarrow> (st', http_Error ''Failed to toggle spell'' 500, False)
              | Some (st', Inr ok) \<Rightarrow>
                  if \<not> ok then (st', http_Error ''Player or spell not found'' 404, False)
                  else (st', [WriteHeader 200], False))))"

definition HandleRooms :: "'s room_repo \<Rightarrow> time \<Rightarrow> time \<Rightarrow> fault \<Rightarrow> 's room_service handler" where
  "HandleRooms r now saved enc req st =
     (let parts = split_at (CHR ''/'') (TrimPrefix ''/rooms/'' (URLPath req))
      in if length parts = 1 \<and> Method req = ''GET'' then http_GetRoom r enc req st
         else if length parts = 2 \<and> parts ! 1 = ''players'' then http_AddPlayer r saved req st
         else if length parts = 3 \<and> parts ! 1 = ''spells'' \<and> parts ! 2 = ''toggle''
         then http_ToggleSpell r now saved req st
         else (st, http_NotFound, False))"

definition http_GetCurrentRoom :: "fault \<Rightarrow> 's room_service handler" where
  "http_GetCurrentRoom enc req st =
     (if Method req \<noteq> ''GET'' then (st, http_Error ''Method not allowed'' 405, False)
      else if GetCurrentRoomID st = [] then (st, http_Error ''Current room not found'' 404, False)
      else
        (let (acts, err) = encode_json (CurrentRoomBody (GetCurrentRoomID st)) enc
         in (st, SetHeader ''Content-Type'' ''application/json'' # acts @
               (if err = None then [] else http_Error ''Failed to encode current room'' 500), False)))"

section \<open>The health handler\<close>

definition writeJSON :: "int \<Rightarrow> http_body \<Rightarrow> fault \<Rightarrow> rw_action list" where
  "writeJSON statusCode b enc =
     [SetHeader ''Content-Type'' ''application/json'', WriteHeader statusCode] @ fst (encode_json b enc)"

definition Health :: "fault \<Rightarrow> 'st handler" where
  "Health enc req st =
     (if Method req \<noteq> ''GET'' then (st, http_Error ''Method not allowed'' 405, False)
      else (st, writeJSON 200 (HealthBody ''ok'') enc, False))"

text \<open>A dependency that is not configured, or the outcome of its ping.\<close>

definition Ready :: "go_error option option \<Rightarrow> go_error option option \<Rightarrow> fault \<Rightarrow> 'st handler" where
  "Ready pg redis enc req st =
     (if Method req \<noteq> ''GET'' then (st, http_Error ''Method not allowed'' 405, False)
      else
        (let (status1, pg1, code1) =
               (if pg \<noteq> Some None then (''not_ready'', ''unavailable'', 503) else (''ok'', ''ok'', 200));
             (status2, redis2, code2) =
               (if redis \<noteq> Some None then (''not_ready'', ''unavailable'', 503) else (status1, ''ok'', code1))
         in (st, writeJSON code2 (ReadinessBody status2 pg1 redis2) enc, False)))"

section \<open>Middleware\<close>

text \<open>
  \<open>responseWriter\<close> passes the calls on to the writer it wraps: its methods take its status and
  return the new status with the calls they make.
\<close>

definition rw_WriteHeader :: "int \<Rightarrow> int \<Rightarrow> int \<times> rw_action list" where
  "rw_WriteHeader code status = (if status \<noteq> 0 then (status, []) else (code, [WriteHeader code]))"

definition rw_Write :: "http_body \<Rightarrow> int \<Rightarrow> int \<times> rw_action list" where
  "rw_Write b status =
     (let (status', acts) = (if status = 0 then rw_WriteHeader 200 status else (status, []))
      in (status', acts @ [WriteBody b]))"

definition rw_Flush :: "int \<Rightarrow> int \<times> rw_action list" where
  "rw_Flush status =
     (let (status', acts) = (if status = 0 then rw_WriteHeader 200 status else (status, []))
      in (status', acts @ [Flush]))"

fun through_writer :: "int \<Rightarrow> rw_action list \<Rightarrow> int \<times> rw_action list" where
  "through_writer status [] = (status, [])"
| "through_writer status (a # as) =
     (let (status1, out1) =
        (case a of
           WriteHeader code \<Rightarrow> rw_WriteHeader code status
         | WriteBody b \<Rightarrow> rw_Write b status
         | Flush \<Rightarrow> rw_Flush status
         | _ \<Rightarrow> (status, [a]));
          (status2, out2) = through_writer status1 as
      in (status2, out1 @ out2))"

definition normalizedPath :: "string \<Rightarrow> string" where
  "normalizedPath path = (if HasPrefix ''/rooms/'' path then ''/rooms/{roomId}'' else path)"

text \<open>The requests that are counted and logged, with their status, are part of the state.\<close>

definition Logging :: "'st handler \<Rightarrow> ('st \<times> (string \<times> string \<times> int) list) handler" where
  "Logging nxt req = (\<lambda>(st, log).
     (let (st', acts, panicked) = nxt req st; (status, out) = through_writer 200 acts
      in if panicked then ((st', log), out, True)
         else ((st', log @ [(Method req, normalizedPath (URLPath req), status)]), out, False)))"

definition Recovery :: "'st handler \<Rightarrow> 'st handler" where
  "Recovery nxt req st =
     (let (st', acts, panicked) = nxt req st
      in if panicked then (st', acts @ http_Error ''Internal Server Error'' 500, False) else (st', acts, False))"

definition allowedOrigins :: "string list" where
  "allowedOrigins = [''http://localhost:5173'', ''http://127.0.0.1:5173'', ''http://localhost:4173'', ''http://127.0.0.1:4173'']"

definition CORS :: "'st handler \<Rightarrow> 'st handler" where
  "CORS nxt req st =
     (let acts =
        [SetHeader ''Access-Control-Allow-Origin'' ''http://localhost:5173'',
         SetHeader ''Access-Control-Allow-Methods'' ''GET, POST, OPTIONS'',
         SetHeader ''Access-Control-Allow-Headers'' ''Content-Type, Authorization'']
      in if Method req = ''OPTIONS'' then (st, acts @ [WriteHeader 204], False)
         else
           (let (st', out, panicked) = nxt req st
            in (st', acts @ (if OriginHeader req \<in> set allowedOrigins
                             then [SetHeader ''Access-Control-Allow-Origin'' (OriginHeader req)] else []) @ out,
                panicked)))"

text \<open>The handler of the server around its multiplexer.\<close>

definition server_handler :: "'st handler \<Rightarrow> ('st \<times> (string \<times> string \<times> int) list) handler" where
  "server_handler mux = Recovery (Logging (CORS mux))"

section \<open>What the writers send\<close>

lemma http_Error_status:
  "resp_status (respond (http_Error msg code)) = Some code"
  "resp_body (respond (http_Error msg code)) = [TextBody (msg @ [CHR 0x0A])]"
  by (simp_all add: respond_def http_Error_def start_response_def empty_response_def)

fun sets_status :: "rw_action \<Rightarrow> bool" where
  "sets_status (WriteHeader c) = True"
| "sets_status _ = False"

text \<open>A wrapper that starts with a status drops every status its handler sets.\<close>

lemma through_started:
  "status \<noteq> 0 \<Longrightarrow> through_writer status acts = (status, filter (\<lambda>a. \<not> sets_status a) acts)"
proof (induction acts)
  case (Cons a as)
  then show ?case by (cases a) (simp_all add: rw_WriteHeader_def rw_Write_def rw_Flush_def)
qed simp

lemma raw_no_status:
  "\<forall>a \<in> set acts. \<not> sets_status a \<Longrightarrow> resp_status w \<in> {None, Some 200} \<Longrightarrow>
   resp_status (foldl raw_action w acts) \<in> {None, Some 200}"
proof (induction acts arbitrary: w)
  case (Cons a as)
  have "resp_status (raw_action w a) \<in> {None, Some 200}"
    using Cons.prems by (cases a) (auto simp: start_response_def)
  with Cons show ?case by simp
qed simp

text \<open>Started with no status, as a zero \<open>responseWriter\<close> is, it is transparent.\<close>

lemma through_zero:
  assumes "\<forall>c. WriteHeader c \<in> set acts \<longrightarrow> c \<noteq> 0" "status = 0 \<longleftrightarrow> resp_status w = None"
  shows "foldl raw_action w (snd (through_writer status acts)) = foldl raw_action w acts"
  using assms
proof (induction acts arbitrary: status w)
  case (Cons a as)
  obtain status1 out1 where o: "(case a of WriteHeader code \<Rightarrow> rw_WriteHeader code status
      | WriteBody b \<Rightarrow> rw_Write b status | Flush \<Rightarrow> rw_Flush status | _ \<Rightarrow> (status, [a])) = (status1, out1)"
    by (meson surj_pair)
  have "foldl raw_action w out1 = raw_action w a \<and> (status1 = 0 \<longleftrightarrow> resp_status (raw_action w a) = None)"
    using o Cons.prems
    by (cases a) (auto simp: rw_WriteHeader_def rw_Write_def rw_Flush_def start_response_def split: if_splits)
  with Cons.IH [of status1 "raw_action w a"] Cons.prems(1) show ?case
    by (simp only: through_writer.simps o Let_def prod.case split_beta foldl_append foldl_Cons snd_conv fst_conv) auto
qed simp

lemma wrapped_response_unchanged:
  "\<forall>c. WriteHeader c \<in> set acts \<longrightarrow> c \<noteq> 0 \<Longrightarrow> respond (snd (through_writer 0 acts)) = respond acts"
  by (simp add: respond_def through_zero empty_response_def)

lemma start_response_200: "resp_status w \<in> {None, Some 200} \<Longrightarrow> resp_status (start_response 200 w) = Some 200"
  by (auto simp: start_response_def)

text \<open>
  C39: the logging middleware flattens statuses. Its writer starts with 200 and takes that for
  a status already sent, so whatever the multiplexer answers, as long as no handler panics,
  the client and the log get status 200: the statuses of the handlers, among them every 404,
  405, 500 and 503, are dropped.
\<close>

theorem every_answered_request_has_status_200:
  assumes "snd (snd (mux req st)) = False"
    and "server_handler mux req (st, log) = ((st', log'), acts, panicked)"
  shows "resp_status (respond acts) = Some 200 \<and>
    log' = log @ [(Method req, normalizedPath (URLPath req), 200)]"
proof -
  obtain st1 out1 p1 where c: "CORS mux req st = (st1, out1, p1)" by (metis prod.exhaust_sel)
  have "\<not> p1" using c assms(1) by (auto simp: CORS_def Let_def split: if_splits prod.splits)
  with c assms(2) have acts: "acts = filter (\<lambda>a. \<not> sets_status a) out1"
    and log': "log' = log @ [(Method req, normalizedPath (URLPath req), 200)]"
    by (auto simp: server_handler_def Recovery_def Logging_def through_started split_beta Let_def split: if_splits prod.splits)
  from raw_no_status [of acts empty_response] acts
  have "resp_status (foldl raw_action empty_response acts) \<in> {None, Some 200}"
    by (auto simp: empty_response_def)
  with log' start_response_200 show ?thesis by (simp add: respond_def)
qed

theorem every_answered_request_has_status_200_witness:
  "resp_status (respond (fst (snd (server_handler (Ready (Some (Some CtxDeadline)) (Some None) NoFault)
     \<lparr>Method = ''GET'', URLPath = ''/ready'', QueryRoomId = [], OriginHeader = [], Body = EmptyBytes\<rparr> ((), []))))) = Some 200"
proof -
  let ?q = "\<lparr>Method = ''GET'', URLPath = ''/ready'', QueryRoomId = [], OriginHeader = [], Body = EmptyBytes\<rparr> :: http_request"
  let ?mux = "Ready (Some (Some CtxDeadline)) (Some None) NoFault"
  obtain st' log' acts p where s: "server_handler ?mux ?q ((), []) = ((st', log'), acts, p)"
    by (metis prod.exhaust_sel)
  have "snd (snd (?mux ?q ())) = False" by (simp add: Ready_def)
  from every_answered_request_has_status_200 [OF this s] s show ?thesis by simp
qed

section \<open>Room requests\<close>

lemma path_parts:
  assumes "CHR ''/'' \<notin> set i" "URLPath req = ''/rooms/'' @ i @ rest"
  shows "rest = [] \<Longrightarrow> split_at (CHR ''/'') (TrimPrefix ''/rooms/'' (URLPath req)) = [i]"
    and "rest = CHR ''/'' # s \<Longrightarrow> split_at (CHR ''/'') (TrimPrefix ''/rooms/'' (URLPath req)) = i # split_at (CHR ''/'') s"
    and "rest = [] \<or> rest = CHR ''/'' # s \<Longrightarrow> getRoomIdFromPath req = i"
proof -
  have t: "TrimPrefix ''/rooms/'' (URLPath req) = i @ rest" using assms(2) by (simp only: TrimPrefix_append)
  then show "rest = [] \<Longrightarrow> split_at (CHR ''/'') (TrimPrefix ''/rooms/'' (URLPath req)) = [i]"
    "rest = CHR ''/'' # s \<Longrightarrow> split_at (CHR ''/'') (TrimPrefix ''/rooms/'' (URLPath req)) = i # split_at (CHR ''/'') s"
    using split_at_word [OF assms(1)] split_at_cons [OF assms(1)] by simp_all
  then show "rest = [] \<or> rest = CHR ''/'' # s \<Longrightarrow> getRoomIdFromPath req = i"
    by (auto simp: getRoomIdFromPath_def)
qed

lemma rest_parts:
  "split_at (CHR ''/'') ''players'' = [''players'']"
  "split_at (CHR ''/'') ''spells/toggle'' = [''spells'', ''toggle'']"
  by simp_all

context room_service
begin

lemma toggle_defined: "sinv st \<Longrightarrow> 0 \<le> now \<Longrightarrow> \<exists>st' res. ToggleSpellByRiotId r now saved i gn tg sp st = Some (st', res)"
  by (rule ToggleSpell_updates) auto

lemma HandleRooms_use:
  assumes "sinv st" "0 \<le> now" "HandleRooms r now saved enc req st = (st', acts, p)"
  shows "\<not> p \<and> room_use cat st st'"
proof -
  let ?i = "getRoomIdFromPath req"
  have get: "\<not> p \<and> room_use cat st st'" if "http_GetRoom r enc req st = (st', acts, p)"
    using that room_uses(2) [OF assms(1), of ?i]
    by (auto simp: http_GetRoom_def Let_def split: prod.splits sum.splits option.splits)
  have add: "\<not> p \<and> room_use cat st st'" if "http_AddPlayer r saved req st = (st', acts, p)"
    using that room_uses(1) [OF assms(1), of saved ?i]
    by (fastforce simp: http_AddPlayer_def Let_def split: prod.splits sum.splits if_splits)
  have tog: "\<not> p \<and> room_use cat st st'" if t: "http_ToggleSpell r now saved req st = (st', acts, p)"
  proof (cases "Method req = ''POST''")
    case True
    show ?thesis
    proof (cases "decode_toggle_spell (Body req)")
      case (Inr q)
      obtain st1 res where d: "ToggleSpellByRiotId r now saved ?i (ReqGameName q) (ReqTagLine q) (ReqSpell q) st = Some (st1, res)"
        using toggle_defined [OF assms(1,2)] by blast
      from toggle_use [OF assms(1) d assms(2)] t d True Inr show ?thesis
        by (auto simp: http_ToggleSpell_def split: sum.splits if_splits)
    qed (use t True in \<open>simp add: http_ToggleSpell_def\<close>)
  qed (use t in \<open>simp add: http_ToggleSpell_def\<close>)
  from assms(3) get add tog show ?thesis by (auto simp: HandleRooms_def Let_def split: if_splits)
qed

lemma HandleRooms_inv:
  assumes "sinv st" "0 \<le> now" "HandleRooms r now saved enc req st = (st', acts, p)"
  shows "sinv st'"
proof -
  define cat :: "int \<Rightarrow> unit \<Rightarrow> unit \<times> (go_error + champion_info)" where "cat = (\<lambda>i c. (c, Inl CtxCanceled))"
  from HandleRooms_use [OF assms, of cat] room_steps_inv [of cat st st'] assms(1) show ?thesis by (auto simp: room_use_def)
qed

end

text \<open>A client of the API: each request with the clock readings and the outcome of its encoding.\<close>

fun serve_all ::
  "'s room_repo \<Rightarrow> (time \<times> time \<times> fault \<times> http_request) list \<Rightarrow>
   's room_service \<times> (string \<times> string \<times> int) list \<Rightarrow> 's room_service \<times> (string \<times> string \<times> int) list" where
  "serve_all r [] s = s"
| "serve_all r ((now, saved, enc, req) # qs) s =
     serve_all r qs (fst (server_handler (HandleRooms r now saved enc) req s))"

lemma server_handler_state:
  assumes "\<And>st'. fst (mux req st) = st' \<Longrightarrow> P st'" "P st"
  shows "P (fst (fst (server_handler mux req (st, log))))"
  using assms by (auto simp: server_handler_def Recovery_def Logging_def CORS_def Let_def split: prod.splits)

text \<open>
  No traffic breaks a room: over any repository that meets the contract, after any
  sequence of requests to the room handler, with any methods, paths, bodies and failures,
  every stored room is well-formed.
\<close>

theorem http_traffic_keeps_rooms_well_formed:
  assumes "room_service r view I f g" "service_inv view I st" "\<forall>(now, q) \<in> set qs. 0 \<le> now"
    and "service_view view (fst (serve_all r qs (st, log))) i = Some x"
  shows "distinct (riot_ids x) \<and> (\<forall>p \<in> set (elems (Players x)). \<forall>s \<in> set (elems (Spells p)). wf_spell s)"
proof -
  have "service_inv view I (fst (serve_all r qs (st, log)))" using assms(2,3)
  proof (induction qs arbitrary: st log)
    case (Cons q qs)
    obtain now saved enc req where q: "q = (now, saved, enc, req)" by (metis prod_cases4)
    have h: "service_inv view I st'" if "fst (HandleRooms r now saved enc req st) = st'" for st'
      using room_service.HandleRooms_inv [OF assms(1) Cons.prems(1)] Cons.prems(2) q that
      by (metis (no_types, lifting) case_prodD list.set_intros(1) prod.collapse)
    obtain st1 log1 where s: "fst (server_handler (HandleRooms r now saved enc) req (st, log)) = (st1, log1)"
      by (metis prod.exhaust_sel)
    from server_handler_state [of "HandleRooms r now saved enc" req st "service_inv view I" log] h Cons.prems(1) s
    have "service_inv view I st1" by simp
    from Cons.IH [OF this] Cons.prems(2) q s show ?case by simp
  qed simp
  with assms(4) show ?thesis
    by (auto simp: service_inv_def service_view_def rooms_ok_def room_ok_def wf_player_def)
qed

definition ex_toggle :: http_request where
  "ex_toggle = \<lparr>Method = ''POST'', URLPath = ''/rooms/7-1/spells/toggle'', QueryRoomId = [], OriginHeader = [],
     Body = Object \<lparr>w_champion = Absent, w_reqGameName = JVal ''me'', w_reqTagLine = JVal ''EUW'', w_spell = JVal ''Flash''\<rparr>\<rparr>"

theorem http_traffic_keeps_rooms_well_formed_witness:
  "\<exists>x. service_view mem_view (fst (serve_all in_memory_repo [(7, 8, NoFault, ex_toggle)] (ex_service, []))) ''7-1'' = Some x \<and>
     distinct (riot_ids x)"
proof -
  have "service_view mem_view (fst (serve_all in_memory_repo [(7, 8, NoFault, ex_toggle)] (ex_service, []))) ''7-1'' \<noteq> None"
    by code_simp
  then obtain x where
    "service_view mem_view (fst (serve_all in_memory_repo [(7, 8, NoFault, ex_toggle)] (ex_service, []))) ''7-1'' = Some x"
    by blast
  with http_traffic_keeps_rooms_well_formed [OF mem_service.room_service_axioms ex_service_inv,
      of "[(7, 8, NoFault, ex_toggle)]" "[]" "''7-1''" x]
  show ?thesis by auto
qed

lemma get_room_answers:
  assumes "Method req = ''GET''" "URLPath req = ''/rooms/'' @ i" "CHR ''/'' \<notin> set i"
    and "HandleRooms r now saved NoFault req st = (st', acts, panicked)"
  shows "case snd (GetRoomSnapshot r i st) of
         Inl e \<Rightarrow> resp_status (respond acts) = Some 500
       | Inr None \<Rightarrow> resp_status (respond acts) = Some 404
       | Inr (Some x) \<Rightarrow> resp_status (respond acts) = Some 200 \<and> resp_body (respond acts) = [RoomBody x]"
proof -
  have "split_at (CHR ''/'') (TrimPrefix ''/rooms/'' (URLPath req)) = [i]" "getRoomIdFromPath req = i"
    using path_parts [OF assms(3), of req "[]"] assms(2) by simp_all
  with assms(1,4) have "http_GetRoom r NoFault req st = (st', acts, panicked)" "getRoomIdFromPath req = i"
    by (simp_all add: HandleRooms_def)
  then show ?thesis
    by (auto simp: http_GetRoom_def encode_json_def http_Error_status split: prod.splits sum.splits option.splits)
       (simp_all add: respond_def start_response_def empty_response_def)
qed

lemma toggle_answers:
  assumes "URLPath req = ''/rooms/'' @ i @ ''/spells/toggle''" "CHR ''/'' \<notin> set i"
    and "HandleRooms r now saved NoFault req st = (st', acts, False)"
  shows "if Method req \<noteq> ''POST'' then st' = st \<and> resp_status (respond acts) = Some 405
     else case decode_toggle_spell (Body req) of
       Inl e \<Rightarrow> st' = st \<and> resp_status (respond acts) = Some 400
     | Inr q \<Rightarrow> \<exists>res. ToggleSpellByRiotId r now saved i (ReqGameName q) (ReqTagLine q) (ReqSpell q) st = Some (st', res) \<and>
         resp_status (respond acts) = Some (case res of Inl e \<Rightarrow> 500 | Inr ok \<Rightarrow> if ok then 200 else 404)"
proof -
  have "split_at (CHR ''/'') (TrimPrefix ''/rooms/'' (URLPath req)) = [i, ''spells'', ''toggle'']" "getRoomIdFromPath req = i"
    using path_parts(2,3) [OF assms(2), of req "''/spells/toggle''" "''spells/toggle''"] assms(1) rest_parts
    by simp_all
  with assms(3) have h: "http_ToggleSpell r now saved req st = (st', acts, False)" "getRoomIdFromPath req = i"
    by (simp_all add: HandleRooms_def)
  have ok: "resp_status (respond [WriteHeader 200]) = Some 200"
    by (simp add: respond_def start_response_def empty_response_def)
  show ?thesis
  proof (cases "Method req = ''POST''")
    case True
    show ?thesis
    proof (cases "decode_toggle_spell (Body req)")
      case (Inl e)
      with True h show ?thesis by (auto simp: http_ToggleSpell_def http_Error_status)
    next
      case (Inr q)
      let ?t = "ToggleSpellByRiotId r now saved i (ReqGameName q) (ReqTagLine q) (ReqSpell q) st"
      from True Inr h obtain st1 res where t: "?t = Some (st1, res)"
        by (cases ?t) (auto simp: http_ToggleSpell_def)
      have "st1 = st' \<and> resp_status (respond acts) = Some (case res of Inl e \<Rightarrow> 500 | Inr ok \<Rightarrow> if ok then 200 else 404)"
      proof (cases res)
        case (Inl e)
        with True \<open>decode_toggle_spell (Body req) = Inr q\<close> h t show ?thesis
          by (auto simp: http_ToggleSpell_def http_Error_status)
      next
        case (Inr k)
        with True \<open>decode_toggle_spell (Body req) = Inr q\<close> h t ok show ?thesis
          by (cases k) (auto simp: http_ToggleSpell_def http_Error_status)
      qed
      with True Inr t show ?thesis by simp
    qed
  next
    case False
    with h show ?thesis by (auto simp: http_ToggleSpell_def http_Error_status)
  qed
qed

text \<open>
  The room endpoints answer as their documentation says (before the middleware): reading a
  room gives 200 with the stored room, 404 when it is unknown and 500 when the store fails;
  toggling a spell gives 200, 404 or 500 as the service finds it; a body that does not decode
  gives 400 and another method 405, without an effect.
\<close>

theorem room_endpoints_answer_as_documented:
  assumes "room_service r view I f g" "service_inv view I st" "0 \<le> now" "CHR ''/'' \<notin> set i"
    and "HandleRooms r now saved NoFault req st = (st', acts, panicked)"
  shows "\<not> panicked \<and>
    (Method req = ''GET'' \<and> URLPath req = ''/rooms/'' @ i \<longrightarrow>
      (case snd (GetRoomSnapshot r i st) of
         Inl e \<Rightarrow> resp_status (respond acts) = Some 500
       | Inr None \<Rightarrow> resp_status (respond acts) = Some 404
       | Inr (Some x) \<Rightarrow> resp_status (respond acts) = Some 200 \<and> resp_body (respond acts) = [RoomBody x])) \<and>
    (URLPath req = ''/rooms/'' @ i @ ''/spells/toggle'' \<longrightarrow>
      (if Method req \<noteq> ''POST'' then st' = st \<and> resp_status (respond acts) = Some 405
       else case decode_toggle_spell (Body req) of
         Inl e \<Rightarrow> st' = st \<and> resp_status (respond acts) = Some 400
       | Inr q \<Rightarrow> \<exists>res. ToggleSpellByRiotId r now saved i (ReqGameName q) (ReqTagLine q) (ReqSpell q) st = Some (st', res) \<and>
           resp_status (respond acts) = Some (case res of Inl e \<Rightarrow> 500 | Inr ok \<Rightarrow> if ok then 200 else 404)))"
proof -
  have p: "\<not> panicked"
    using room_service.HandleRooms_use [OF assms(1-3,5), of "\<lambda>i (c :: unit). (c, Inl CtxCanceled)"] by blast
  with assms(5) have h: "HandleRooms r now saved NoFault req st = (st', acts, False)" by simp
  note get = get_room_answers [OF _ _ assms(4) h] and toggle = toggle_answers [OF _ assms(4) h]
  show ?thesis
    apply (intro conjI impI)
      apply (rule p)
     apply (erule conjE, erule (1) get)
    apply (erule toggle)
    done
qed

theorem room_endpoints_answer_as_documented_witness:
  "\<exists>st' acts res. HandleRooms in_memory_repo 7 8 NoFault ex_toggle ex_service = (st', acts, False) \<and>
     ToggleSpellByRiotId in_memory_repo 7 8 ''7-1'' ''me'' ''EUW'' ''Flash'' ex_service = Some (st', res)"
proof -
  obtain st' acts p where h: "HandleRooms in_memory_repo 7 8 NoFault ex_toggle ex_service = (st', acts, p)"
    by (metis prod.exhaust_sel)
  have "decode_toggle_spell (Body ex_toggle) = Inr \<lparr>ReqGameName = ''me'', ReqTagLine = ''EUW'', ReqSpell = ''Flash''\<rparr>"
    by (simp add: decode_toggle_spell_def ex_toggle_def)
  moreover have "URLPath ex_toggle = ''/rooms/'' @ ''7-1'' @ ''/spells/toggle''" "Method ex_toggle = ''POST''"
    by (simp_all add: ex_toggle_def)
  moreover have "CHR ''/'' \<notin> set ''7-1''" by simp
  ultimately show ?thesis
    using room_endpoints_answer_as_documented [OF mem_service.room_service_axioms ex_service_inv _ _ h, of "''7-1''"] h
    by auto
qed

end
