(* ===== verification/Champions.thy ===== *)
theory Champions
  imports RoomServ GoText
begin

text \<open>
  The champion catalog: loading it from Data Dragon (\<open>internal/services/champion_service.go\<close>),
  the gRPC server over it and the client of the room service (\<open>internal/championgrpc\<close>).
\<close>

section \<open>Data Dragon\<close>

text \<open>
  The replies of the two HTTP requests: an error of the request, or a status with what the
  body decodes to. A decoded JSON object is the list of its entries in the order in which Go
  iterates over the map.
\<close>

record 'a http_reply =
  StatusCode :: int
  StatusText :: string
  Decoded :: "go_error + 'a"

record dd_champion =
  DDKey :: string
  DDName :: string
  DDImageFull :: string

record data_dragon =
  versions_reply :: "go_error + string list http_reply"
  champions_reply :: "string \<Rightarrow> go_error + (string \<times> dd_champion) list http_reply"

definition dataDragonCDNURL :: string where
  "dataDragonCDNURL = ''https://ddragon.leagueoflegends.com/cdn''"

section \<open>The catalog\<close>

text \<open>\<open>cat_order\<close> is the order in which Go iterates over the map of champions.\<close>

record champion_service =
  champions :: "(int \<times> champion_info) list"
  catalog_version :: string
  cat_order :: "champion_info list \<Rightarrow> champion_info list"

definition NewChampionService :: "(champion_info list \<Rightarrow> champion_info list) \<Rightarrow> champion_service" where
  "NewChampionService order = \<lparr>champions = [], catalog_version = [], cat_order = order\<rparr>"

definition loadLatestVersion :: "data_dragon \<Rightarrow> go_error + string" where
  "loadLatestVersion d =
     (case versions_reply d of
        Inl e \<Rightarrow> Inl e
      | Inr reply \<Rightarrow>
          if StatusCode reply \<noteq> 200 then Inl (Errorf [Txt ''unexpected status: '', Txt (StatusText reply)])
          else (case Decoded reply of
                  Inl e \<Rightarrow> Inl e
                | Inr [] \<Rightarrow> Inl (Errorf [Txt ''Data Dragon returned no versions''])
                | Inr (v # vs) \<Rightarrow> Inr v))"

definition dd_info :: "string \<Rightarrow> int \<Rightarrow> dd_champion \<Rightarrow> champion_info" where
  "dd_info version championID c = \<lparr>ChampID = championID, ChampName = DDName c,
     ImageURL = dataDragonCDNURL @ ''/'' @ version @ ''/img/champion/'' @ DDImageFull c\<rparr>"

fun collect_champions :: "string \<Rightarrow> (string \<times> dd_champion) list \<Rightarrow> (int \<times> champion_info) list \<Rightarrow> (int \<times> champion_info) list" where
  "collect_champions version [] m = m"
| "collect_champions version ((k, c) # cs) m =
     (case Atoi (DDKey c) of
        None \<Rightarrow> collect_champions version cs m
      | Some championID \<Rightarrow>
          collect_champions version cs
            (AList.update championID (dd_info version championID c) m))"

definition loadChampions :: "data_dragon \<Rightarrow> string \<Rightarrow> go_error + (int \<times> champion_info) list" where
  "loadChampions d version =
     (case champions_reply d (dataDragonCDNURL @ ''/'' @ version @ ''/data/en_US/champion.json'') of
        Inl e \<Rightarrow> Inl e
      | Inr reply \<Rightarrow>
          if StatusCode reply \<noteq> 200 then Inl (Errorf [Txt ''unexpected status: '', Txt (StatusText reply)])
          else (case Decoded reply of Inl e \<Rightarrow> Inl e | Inr entries \<Rightarrow> Inr (collect_champions version entries [])))"

definition Load :: "data_dragon \<Rightarrow> champion_service \<Rightarrow> champion_service \<times> (go_error + unit)" where
  "Load d s =
     (case loadLatestVersion d of
        Inl e \<Rightarrow> (s, Inl (Errorf [Txt ''load Data Dragon version: '', Wrapped e]))
      | Inr version \<Rightarrow>
          (case loadChampions d version of
             Inl e \<Rightarrow> (s, Inl (Errorf [Txt ''load Data Dragon champions: '', Wrapped e]))
           | Inr m \<Rightarrow> (s\<lparr>champions := m, catalog_version := version\<rparr>, Inr ())))"

definition Find :: "int \<Rightarrow> champion_service \<Rightarrow> champion_info option" where
  "Find championID s = map_of (champions s) championID"

definition champion_Get :: "int \<Rightarrow> champion_service \<Rightarrow> go_error + champion_info" where
  "champion_Get championID s =
     (case Find championID s of
        Some c \<Rightarrow> Inr c
      | None \<Rightarrow> Inr \<lparr>ChampID = championID, ChampName = ''Unknown'', ImageURL = []\<rparr>)"

definition champion_List :: "champion_service \<Rightarrow> champion_info list" where
  "champion_List s = sort_key ChampID (cat_order s (map snd (champions s)))"

section \<open>The gRPC server\<close>

text \<open>
  The interface of the catalog and the messages of the protocol; a nil pointer is \<open>None\<close>. The
  identifier of a message is an \<open>int32\<close>.
\<close>

record champion_catalog =
  cat_Find :: "int \<Rightarrow> champion_info option"
  cat_List :: "champion_info list"
  cat_Version :: string

definition service_catalog :: "champion_service \<Rightarrow> champion_catalog" where
  "service_catalog s = \<lparr>cat_Find = (\<lambda>i. Find i s), cat_List = champion_List s, cat_Version = catalog_version s\<rparr>"

record proto_champion =
  PbId :: int
  PbName :: string
  PbImageUrl :: string

record get_champion_response =
  RespChampion :: "proto_champion option"
  RespVersion :: string

record list_champions_response =
  RespChampions :: "proto_champion option list"
  RespListVersion :: string

text \<open>\<open>status.FromContextError\<close>.\<close>

definition contextStatusError :: "go_error option \<Rightarrow> go_error option" where
  "contextStatusError ctx =
     (case ctx of
        None \<Rightarrow> None
      | Some CtxDeadline \<Rightarrow> Some (Status ''DeadlineExceeded'' (error_text CtxDeadline))
      | Some CtxCanceled \<Rightarrow> Some (Status ''Canceled'' (error_text CtxCanceled))
      | Some e \<Rightarrow> Some (Status ''Unknown'' (error_text e)))"

definition toProtoChampion :: "champion_info \<Rightarrow> proto_champion" where
  "toProtoChampion c = \<lparr>PbId = wrap32 (ChampID c), PbName = ChampName c, PbImageUrl = ImageURL c\<rparr>"

definition GetChampion :: "champion_catalog \<Rightarrow> go_error option \<Rightarrow> int option \<Rightarrow> go_error + get_champion_response" where
  "GetChampion catalog ctx request =
     (case contextStatusError ctx of
        Some e \<Rightarrow> Inl e
      | None \<Rightarrow>
          (case request of
             None \<Rightarrow> Inl (Status ''InvalidArgument'' ''request is required'')
           | Some championID \<Rightarrow>
               if championID \<le> 0 then Inl (Status ''InvalidArgument'' ''champion ID must be positive'')
               else (case cat_Find catalog championID of
                       None \<Rightarrow> Inl (Status ''NotFound'' (''champion '' @ show_int championID @ '' not found''))
                     | Some c \<Rightarrow> Inr \<lparr>RespChampion = Some (toProtoChampion c), RespVersion = cat_Version catalog\<rparr>)))"

definition ListChampions :: "champion_catalog \<Rightarrow> go_error option \<Rightarrow> unit option \<Rightarrow> go_error + list_champions_response" where
  "ListChampions catalog ctx request =
     (case contextStatusError ctx of
        Some e \<Rightarrow> Inl e
      | None \<Rightarrow>
          (case request of
             None \<Rightarrow> Inl (Status ''InvalidArgument'' ''request is required'')
           | Some u \<Rightarrow> Inr \<lparr>RespChampions = map (\<lambda>c. Some (toProtoChampion c)) (cat_List catalog),
                            RespListVersion = cat_Version catalog\<rparr>))"

section \<open>The gRPC client\<close>

text \<open>
  The connection: what the server answers to a call, and the outcomes of the calls on the way.
\<close>

record grpc_conn =
  grpc_catalog :: champion_catalog
  grpc_faults :: "fault list"

definition newClient :: "string \<Rightarrow> duration \<Rightarrow> (go_error + grpc_conn) \<Rightarrow> go_error + grpc_conn" where
  "newClient address timeout dial =
     (if address = [] then Inl (Errorf [Txt ''champion gRPC address is required''])
      else if timeout \<le> 0 then Inl (Errorf [Txt ''champion gRPC timeout must be positive''])
      else case dial of
             Inl e \<Rightarrow> Inl (Errorf [Txt ''create champion gRPC connection: '', Wrapped e])
           | Inr c \<Rightarrow> Inr c)"

text \<open>\<open>Client.Close\<close>: a client that is nil or not connected, or how closing its connection ended.\<close>

definition client_Close :: "go_error option option \<Rightarrow> go_error + unit" where
  "client_Close connection =
     (case connection of
        Some (Some e) \<Rightarrow> Inl (Errorf [Txt ''close champion gRPC connection: '', Wrapped e])
      | _ \<Rightarrow> Inr ())"

definition grpc_call :: "(champion_catalog \<Rightarrow> go_error + 'a) \<Rightarrow> grpc_conn \<Rightarrow> grpc_conn \<times> (go_error + 'a)" where
  "grpc_call handler c =
     (c\<lparr>grpc_faults := rest_faults (grpc_faults c)\<rparr>,
      case fault_error (next_fault (grpc_faults c)) of Some e \<Rightarrow> Inl e | None \<Rightarrow> handler (grpc_catalog c))"

definition from_proto :: "proto_champion \<Rightarrow> champion_info" where
  "from_proto p = \<lparr>ChampID = PbId p, ChampName = PbName p, ImageURL = PbImageUrl p\<rparr>"

definition client_Get :: "int \<Rightarrow> grpc_conn \<Rightarrow> grpc_conn \<times> (go_error + champion_info)" where
  "client_Get championID c =
     (if championID \<le> 0 then (c, Inl (Status ''InvalidArgument'' ''champion ID must be positive''))
      else
        (case grpc_call (\<lambda>catalog. GetChampion catalog None (Some (wrap32 championID))) c of
           (c', Inl e) \<Rightarrow> (c', Inl (Errorf [Txt ''get champion '', Num championID, Txt '': '', Wrapped e]))
         | (c', Inr response) \<Rightarrow>
             (case RespChampion response of
                None \<Rightarrow> (c', Inl (Status ''Internal'' ''champion response is empty''))
              | Some p \<Rightarrow> (c', Inr (from_proto p)))))"

definition client_List :: "grpc_conn \<Rightarrow> grpc_conn \<times> (go_error + champion_info list \<times> string)" where
  "client_List c =
     (case grpc_call (\<lambda>catalog. ListChampions catalog None (Some ())) c of
        (c', Inl e) \<Rightarrow> (c', Inl (Errorf [Txt ''list champions: '', Wrapped e]))
      | (c', Inr response) \<Rightarrow>
          (c', Inr (map from_proto (concat (map (\<lambda>p. case p of None \<Rightarrow> [] | Some q \<Rightarrow> [q]) (RespChampions response))),
                    RespListVersion response)))"

section \<open>The contract of a catalog\<close>

text \<open>What the server relies on: the list is the content in ascending order, and a lookup finds it.\<close>

locale catalog_contract =
  fixes cat :: "'c \<Rightarrow> champion_catalog" and inv :: "'c \<Rightarrow> bool"
  assumes list_ascending: "inv c \<Longrightarrow> sorted_wrt (\<lambda>a b. ChampID a < ChampID b) (cat_List (cat c))"
    and find_list: "inv c \<Longrightarrow> cat_Find (cat c) i = Some x \<longleftrightarrow> x \<in> set (cat_List (cat c)) \<and> ChampID x = i"
begin

lemma find_None: "inv c \<Longrightarrow> cat_Find (cat c) i = None \<longleftrightarrow> (\<forall>x \<in> set (cat_List (cat c)). ChampID x \<noteq> i)"
  using find_list by (metis not_None_eq)

lemma from_to_proto: "int32 (ChampID x) \<Longrightarrow> from_proto (toProtoChampion x) = x"
  by (simp add: from_proto_def toProtoChampion_def)

lemma client_Get_catalog:
  assumes "inv s" "grpc_catalog c = cat s" "next_fault (grpc_faults c) = NoFault" "0 < i" "int32 i"
  shows "snd (client_Get i c) =
     (case cat_Find (cat s) i of
        Some x \<Rightarrow> Inr x
      | None \<Rightarrow> Inl (Errorf [Txt ''get champion '', Num i, Txt '': '',
          Wrapped (Status ''NotFound'' (''champion '' @ show_int i @ '' not found''))]))"
proof -
  have "ChampID x = i" if "cat_Find (cat s) i = Some x" for x using find_list [OF assms(1)] that by blast
  with assms(2-5) show ?thesis
    by (auto simp: client_Get_def grpc_call_def GetChampion_def contextStatusError_def from_to_proto split: option.split)
qed

lemma client_List_catalog:
  assumes "grpc_catalog c = cat s" "next_fault (grpc_faults c) = NoFault" "\<forall>x \<in> set (cat_List (cat s)). int32 (ChampID x)"
  shows "snd (client_List c) = Inr (cat_List (cat s), cat_Version (cat s))"
proof -
  have "concat (map (\<lambda>p. case p of None \<Rightarrow> [] | Some q \<Rightarrow> [q]) (map (\<lambda>x. Some (toProtoChampion x)) xs)) =
      map toProtoChampion xs" for xs by (induction xs) simp_all
  moreover have "map from_proto (map toProtoChampion (cat_List (cat s))) = cat_List (cat s)"
    using assms(3) from_to_proto by (simp add: map_idI)
  ultimately show ?thesis
    using assms(1,2) by (simp add: client_List_def grpc_call_def ListChampions_def contextStatusError_def)
qed

end

definition keyed :: "(int \<times> champion_info) list \<Rightarrow> bool" where
  "keyed m \<longleftrightarrow> distinct (map fst m) \<and> (\<forall>(i, c) \<in> set m. ChampID c = i)"

definition catalog_ok :: "champion_service \<Rightarrow> bool" where
  "catalog_ok s \<longleftrightarrow> keyed (champions s) \<and> (\<forall>xs. mset (cat_order s xs) = mset xs)"

lemma catalog_ok_new: "(\<And>xs. mset (order xs) = mset xs) \<Longrightarrow> catalog_ok (NewChampionService order)"
  by (simp add: catalog_ok_def keyed_def NewChampionService_def)

lemma keyed_update: "keyed m \<Longrightarrow> ChampID c = i \<Longrightarrow> keyed (AList.update i c m)"
  by (auto simp: keyed_def distinct_update dest!: set_AList_update)

lemma ChampID_dd_info [simp]: "ChampID (dd_info v i c) = i"
  by (simp add: dd_info_def)

lemma collect_champions_keyed: "keyed m \<Longrightarrow> keyed (collect_champions v es m)"
  by (induction v es m rule: collect_champions.induct) (auto simp: keyed_update split: option.split)

lemma Load_ok: "Load d s = (s', res) \<Longrightarrow> catalog_ok s \<Longrightarrow> catalog_ok s'"
  using collect_champions_keyed [of "[]"]
  by (auto simp: Load_def loadChampions_def catalog_ok_def keyed_def [of "[]"] split: sum.splits if_splits)

lemma champion_List_set: "catalog_ok s \<Longrightarrow> set (champion_List s) = snd ` set (champions s)"
  by (simp add: champion_List_def catalog_ok_def mset_eq_setD [of "cat_order s xs" xs for xs])

lemma champion_List_ids:
  assumes "catalog_ok s"
  shows "distinct (map ChampID (champion_List s))"
proof -
  have "map ChampID (map snd (champions s)) = map fst (champions s)"
    using assms by (auto simp: catalog_ok_def keyed_def)
  moreover have "mset (map ChampID (champion_List s)) = mset (map ChampID (map snd (champions s)))"
    using assms by (simp add: champion_List_def catalog_ok_def flip: mset_map) (simp add: multiset.map_comp)
  ultimately show ?thesis
    using assms mset_eq_imp_distinct_iff by (metis catalog_ok_def keyed_def)
qed

interpretation loaded: catalog_contract service_catalog catalog_ok
proof (unfold_locales, goal_cases)
  case (1 s)
  have "sorted (map ChampID (champion_List s))" by (simp add: champion_List_def)
  with champion_List_ids [OF 1] have "sorted_wrt (<) (map ChampID (champion_List s))"
    by (simp add: strict_sorted_iff)
  then show ?case by (simp add: service_catalog_def sorted_wrt_map)
next
  case (2 s i x)
  then show ?case
    by (auto simp: service_catalog_def Find_def champion_List_set catalog_ok_def keyed_def dest: map_of_SomeD
        intro!: map_of_is_SomeI) force
qed

section \<open>Properties\<close>

fun load_all :: "data_dragon list \<Rightarrow> champion_service \<Rightarrow> champion_service" where
  "load_all [] s = s"
| "load_all (d # ds) s = load_all ds (fst (Load d s))"

lemma load_all_ok: "catalog_ok s \<Longrightarrow> catalog_ok (load_all ds s)"
  by (induction ds arbitrary: s) (auto intro: Load_ok [OF prod.collapse [symmetric]])

lemma load_all_new_ok: "(\<And>xs. mset (order xs) = mset xs) \<Longrightarrow> catalog_ok (load_all ds (NewChampionService order))"
  by (simp add: load_all_ok catalog_ok_new)

lemma collect_champions_lookup:
  "map_of (collect_champions v es m) i =
     (case find (\<lambda>(k, c). Atoi (DDKey c) = Some i) (rev es) of
        None \<Rightarrow> map_of m i
      | Some (k, c) \<Rightarrow> Some (dd_info v i c))"
proof (induction v es m rule: collect_champions.induct)
  case (2 v k c cs m)
  have f: "find P (xs @ [y]) = (case find P xs of None \<Rightarrow> (if P y then Some y else None) | Some z \<Rightarrow> Some z)" for P xs y
    by (induction xs) auto
  show ?case
  proof (cases "Atoi (DDKey c)")
    case None
    with 2(1) show ?thesis by (simp add: f split: option.split)
  next
    case (Some j)
    with 2(2) [OF Some] show ?thesis by (auto simp: f update_conv split: option.split)
  qed
qed simp

definition ex_dragon :: data_dragon where
  "ex_dragon = \<lparr>versions_reply = Inr \<lparr>StatusCode = 200, StatusText = ''200 OK'', Decoded = Inr [''15.1'']\<rparr>,
     champions_reply = (\<lambda>url. Inr \<lparr>StatusCode = 200, StatusText = ''200 OK'', Decoded = Inr
       [(''Ahri'', \<lparr>DDKey = ''103'', DDName = ''Ahri'', DDImageFull = ''Ahri.png''\<rparr>),
        (''Annie'', \<lparr>DDKey = ''1'', DDName = ''Annie'', DDImageFull = ''Annie.png''\<rparr>)]\<rparr>)\<rparr>"

text \<open>
  The catalog lists what it finds: after any loads, successful or not, the list is strictly
  ascending in the identifiers, whatever order Go iterates in, and a champion is found under
  an identifier exactly when it is listed and has it.
\<close>

theorem catalog_lists_what_it_finds:
  assumes "\<And>xs. mset (order xs) = mset xs" "s = load_all ds (NewChampionService order)"
  shows "sorted_wrt (\<lambda>a b. ChampID a < ChampID b) (champion_List s) \<and>
    (\<forall>i c. Find i s = Some c \<longleftrightarrow> c \<in> set (champion_List s) \<and> ChampID c = i)"
proof -
  have "catalog_ok s" using load_all_new_ok [OF assms(1)] assms(2) by simp
  from loaded.list_ascending [OF this] loaded.find_list [OF this] show ?thesis
    by (simp add: service_catalog_def)
qed

theorem catalog_lists_what_it_finds_witness:
  "sorted_wrt (\<lambda>a b. ChampID a < ChampID b) (champion_List (load_all [ex_dragon] (NewChampionService (\<lambda>xs. xs))))"
  using catalog_lists_what_it_finds [of "\<lambda>xs. xs" _ "[ex_dragon]"] by blast

text \<open>
  C40: loading is all or nothing: on an error, of either request, its status or its body, the
  catalog is the old one; on success it has the first listed version, and under each number
  the last entry whose key is that number; entries without a number are skipped.
\<close>

theorem load_replaces_the_catalog_or_nothing:
  assumes "Load d s = (s', res)"
  shows "case res of
      Inl e \<Rightarrow> s' = s
    | Inr u \<Rightarrow> \<exists>v vs reply reply' entries. versions_reply d = Inr reply \<and> Decoded reply = Inr (v # vs) \<and>
        champions_reply d (dataDragonCDNURL @ ''/'' @ v @ ''/data/en_US/champion.json'') = Inr reply' \<and>
        Decoded reply' = Inr entries \<and> catalog_version s' = v \<and>
        (\<forall>i. Find i s' = map_option (\<lambda>(k, c). dd_info v i c)
          (find (\<lambda>(k, c). Atoi (DDKey c) = Some i) (rev entries)))"
proof (cases res)
  case (Inl e)
  with assms show ?thesis by (auto simp: Load_def split: sum.splits)
next
  case (Inr u)
  with assms obtain v m where l: "loadLatestVersion d = Inr v" "loadChampions d v = Inr m"
    "s' = s\<lparr>champions := m, catalog_version := v\<rparr>"
    by (auto simp: Load_def split: sum.splits)
  from l(1) obtain reply vs where "versions_reply d = Inr reply" "Decoded reply = Inr (v # vs)"
    by (auto simp: loadLatestVersion_def split: sum.splits if_splits list.splits)
  moreover from l(2) obtain reply' entries where
    "champions_reply d (dataDragonCDNURL @ ''/'' @ v @ ''/data/en_US/champion.json'') = Inr reply'"
    "Decoded reply' = Inr entries" "m = collect_champions v entries []"
    by (auto simp: loadChampions_def split: sum.splits if_splits)
  moreover from this l(3) have "\<forall>i. Find i s' = map_option (\<lambda>(k, c). dd_info v i c)
          (find (\<lambda>(k, c). Atoi (DDKey c) = Some i) (rev entries))"
    by (simp add: Find_def collect_champions_lookup split: option.split)
  ultimately show ?thesis using Inr l(3) by auto
qed

theorem load_replaces_the_catalog_or_nothing_witness:
  "\<exists>s'. Load ex_dragon (NewChampionService (\<lambda>xs. xs)) = (s', Inr ()) \<and> catalog_version s' = ''15.1''"
proof -
  obtain s' where l: "Load ex_dragon (NewChampionService (\<lambda>xs. xs)) = (s', Inr ())"
    by (simp add: Load_def loadLatestVersion_def loadChampions_def ex_dragon_def)
  with load_replaces_the_catalog_or_nothing [OF l] show ?thesis by (auto simp: ex_dragon_def)
qed

text \<open>
  The room service sees the catalog through gRPC unchanged: for identifiers that fit the
  protocol, and a call that reaches the server, the client returns exactly the champion the
  catalog finds, a not-found error naming the identifier when it finds none, and the catalog's
  list in its order.
\<close>

theorem grpc_client_returns_the_catalog:
  assumes "\<And>xs. mset (order xs) = mset xs" "s = load_all ds (NewChampionService order)"
    and "grpc_catalog c = service_catalog s" "next_fault (grpc_faults c) = NoFault"
  shows "(\<forall>i. 0 < i \<and> int32 i \<longrightarrow> snd (client_Get i c) =
      (case Find i s of
         Some x \<Rightarrow> Inr x
       | None \<Rightarrow> Inl (Errorf [Txt ''get champion '', Num i, Txt '': '',
           Wrapped (Status ''NotFound'' (''champion '' @ show_int i @ '' not found''))]))) \<and>
    ((\<forall>x \<in> set (champion_List s). int32 (ChampID x)) \<longrightarrow>
      snd (client_List c) = Inr (champion_List s, catalog_version s))"
proof -
  have ok: "catalog_ok s" using load_all_new_ok [OF assms(1)] assms(2) by simp
  have f: "cat_Find (service_catalog s) i = Find i s" "cat_List (service_catalog s) = champion_List s"
    "cat_Version (service_catalog s) = catalog_version s" for i
    by (simp_all add: service_catalog_def)
  show ?thesis
    using loaded.client_Get_catalog [OF ok assms(3,4)] loaded.client_List_catalog [OF assms(3,4)]
    unfolding f by blast
qed

theorem grpc_client_returns_the_catalog_witness:
  "snd (client_Get 103 \<lparr>grpc_catalog = service_catalog (load_all [ex_dragon] (NewChampionService (\<lambda>xs. xs))), grpc_faults = []\<rparr>) =
     Inr (dd_info ''15.1'' 103 \<lparr>DDKey = ''103'', DDName = ''Ahri'', DDImageFull = ''Ahri.png''\<rparr>)"
proof -
  let ?s = "load_all [ex_dragon] (NewChampionService (\<lambda>xs. xs))"
  have "Find 103 ?s = Some (dd_info ''15.1'' 103 \<lparr>DDKey = ''103'', DDName = ''Ahri'', DDImageFull = ''Ahri.png''\<rparr>)"
    by (simp add: Load_def loadLatestVersion_def loadChampions_def ex_dragon_def Atoi_example Find_def
        NewChampionService_def Atoi_def digit_value_def int64_def)
  moreover have "int32 103" by (simp add: int32_def)
  ultimately show ?thesis
    using grpc_client_returns_the_catalog [of "\<lambda>xs. xs" ?s "[ex_dragon]"
        "\<lparr>grpc_catalog = service_catalog ?s, grpc_faults = []\<rparr>"]
    by (simp del: load_all.simps)
qed

text \<open>An identifier beyond the protocol's 32 bits is cut: the client then returns another champion.\<close>

lemma grpc_identifier_is_truncated:
  assumes "0 < i" "int32 i" "Find i s = Some x" "int32 (ChampID x)"
  shows "snd (client_Get (2 ^ 32 + i) \<lparr>grpc_catalog = service_catalog s, grpc_faults = []\<rparr>) = Inr x"
proof -
  have "wrap32 (2 ^ 32 + i) = wrap32 i" unfolding wrap32_def add.assoc mod_add_self1 by (rule refl)
  then have "wrap32 (2 ^ 32 + i) = i" using assms(2) by simp
  with assms show ?thesis
    by (simp add: client_Get_def grpc_call_def GetChampion_def contextStatusError_def service_catalog_def
        loaded.from_to_proto)
qed

end
