(* ===== verification/Lcu.thy ===== *)
theory Lcu
  imports RoomProps Lifecycle GoText
begin

text \<open>
  The service that follows the League client (\<open>internal/services/lol_client_service.go\<close>): its
  lock file and HTTP API, and the tick that feeds the room service and the game lifecycle.
\<close>

section \<open>The client's files and API\<close>

text \<open>
  What the service reads of its machine. The bytes of a reply are what each decoder makes of
  them. \<open>filepath.Join\<close> uses the separator of the platform.
\<close>

record current_summoner =
  SumGameName :: string
  SumTagLine :: string
  SumPuuid :: string
  SummonerLevel :: int

record lcu_bytes =
  as_phase :: "go_error + string"
  as_session :: "go_error + champ_select_session"
  as_summoner :: "go_error + current_summoner"

record lcu_env =
  lcu_exists :: "string \<Rightarrow> bool"
  lcu_read :: "string \<Rightarrow> go_error + string"
  lcu_separator :: char
  lcu_http :: "string \<Rightarrow> string \<Rightarrow> go_error + lcu_bytes"

record lol_client_service = leaguePath :: string

record lcu_credentials =
  ProcessName :: string
  Pid :: string
  Port :: string
  Password :: string
  Protocol :: string

definition NewLolClientService :: lol_client_service where
  "NewLolClientService = \<lparr>leaguePath = []\<rparr>"

definition possiblePaths :: "string list" where
  "possiblePaths =
     [''C:'' @ [CHR 0x5C] @ ''Riot Games'' @ [CHR 0x5C] @ ''League of Legends'',
      ''E:'' @ [CHR 0x5C] @ ''Games'' @ [CHR 0x5C] @ ''Riot Games'' @ [CHR 0x5C] @ ''League of Legends'']"

fun find_lockfile :: "lcu_env \<Rightarrow> string list \<Rightarrow> lol_client_service \<Rightarrow> lol_client_service \<times> string option" where
  "find_lockfile env [] s = (s, None)"
| "find_lockfile env (path # paths) s =
     (let lockfilePath = path @ [lcu_separator env] @ ''lockfile''
      in if lcu_exists env lockfilePath then (s\<lparr>leaguePath := path\<rparr>, Some lockfilePath)
         else find_lockfile env paths s)"

definition FindLockfile :: "lcu_env \<Rightarrow> lol_client_service \<Rightarrow> lol_client_service \<times> string option" where
  "FindLockfile env s = find_lockfile env possiblePaths s"

definition ReadCredentials :: "lcu_env \<Rightarrow> lol_client_service \<Rightarrow> lol_client_service \<times> lcu_credentials option" where
  "ReadCredentials env s =
     (case FindLockfile env s of
        (s', None) \<Rightarrow> (s', None)
      | (s', Some lockfilePath) \<Rightarrow>
          (case lcu_read env lockfilePath of
             Inl e \<Rightarrow> (s', None)
           | Inr text \<Rightarrow>
               (case split_at (CHR '':'') text of
                  [a, b, c, d, e] \<Rightarrow>
                    (s', Some \<lparr>ProcessName = a, Pid = b, Port = c, Password = d, Protocol = e\<rparr>)
                | _ \<Rightarrow> (s', None))))"

definition lcu_get :: "lcu_env \<Rightarrow> string \<Rightarrow> lol_client_service \<Rightarrow> lol_client_service \<times> (go_error + lcu_bytes)" where
  "lcu_get env path s =
     (case ReadCredentials env s of
        (s', None) \<Rightarrow> (s', Inl (Errorf [Txt ''LCU credentials not found'']))
      | (s', Some credentials) \<Rightarrow>
          (s', lcu_http env (''https://127.0.0.1:'' @ Port credentials @ path)
                 (''Basic '' @ base64 (''riot:'' @ Password credentials))))"

definition GetCurrentSummoner :: "lcu_env \<Rightarrow> lol_client_service \<Rightarrow> lol_client_service \<times> (go_error + current_summoner)" where
  "GetCurrentSummoner env s =
     (case lcu_get env ''/lol-summoner/v1/current-summoner'' s of
        (s', Inl e) \<Rightarrow> (s', Inl e)
      | (s', Inr body) \<Rightarrow> (s', as_summoner body))"

definition GetGameflowPhase :: "lcu_env \<Rightarrow> lol_client_service \<Rightarrow> lol_client_service \<times> (go_error + string)" where
  "GetGameflowPhase env s =
     (case lcu_get env ''/lol-gameflow/v1/gameflow-phase'' s of
        (s', Inl e) \<Rightarrow> (s', Inl e)
      | (s', Inr body) \<Rightarrow> (s', as_phase body))"

definition GetChampSelectSession ::
  "lcu_env \<Rightarrow> lol_client_service \<Rightarrow> lol_client_service \<times> (go_error + champ_select_session)" where
  "GetChampSelectSession env s =
     (case lcu_get env ''/lol-champ-select/v1/session'' s of
        (s', Inl e) \<Rightarrow> (s', Inl e)
      | (s', Inr body) \<Rightarrow> (s', as_session body))"

definition GetLocalPlayerTeam :: "champ_select_session \<Rightarrow> int" where
  "GetLocalPlayerTeam session = local_team (LocalPlayerCellId session) (elems (MyTeam session))"

section \<open>The tick of the synchronisation\<close>

text \<open>
  What a tick reads from outside: the client at its first and its second request, the random
  bytes and the clock of an event's metadata, the database times of the outbox, the creation
  time of a room and the time of its update.
\<close>

record tick_input =
  in_env1 :: lcu_env
  in_env2 :: lcu_env
  in_rnd :: "go_error + 8 word list"
  in_now :: time
  in_t1 :: time
  in_t2 :: time
  in_created :: time
  in_saved :: time

record ('s, 'c, 'o) sync_state =
  sync_lol :: lol_client_service
  sync_rooms :: "'s room_service"
  sync_catalog :: 'c
  sync_games :: "'o game_lifecycle_service"

definition champ_select_tick ::
  "'s room_repo \<Rightarrow> (int \<Rightarrow> 'c \<Rightarrow> 'c \<times> (go_error + champion_info)) \<Rightarrow> 'o enqueue \<Rightarrow> tick_input \<Rightarrow>
   ('s, 'c, 'o) sync_state \<Rightarrow> ('s, 'c, 'o) sync_state" where
  "champ_select_tick r cat enq i st =
     (case GetGameflowPhase (in_env1 i) (sync_lol st) of
        (l, Inl e) \<Rightarrow> st\<lparr>sync_lol := l\<rparr>
      | (l, Inr phase) \<Rightarrow>
          if phase \<noteq> ''ChampSelect'' then
            (let games = fst (Observe enq (in_rnd i) (in_now i) (in_t1 i) (in_t2 i) phase 0 [] (sync_games st));
                 roomID = GetCurrentRoomID (sync_rooms st);
                 rooms = (if roomID \<noteq> [] then ClearCurrentRoomID roomID (sync_rooms st) else sync_rooms st)
             in st\<lparr>sync_lol := l, sync_games := games, sync_rooms := rooms\<rparr>)
          else
            (case GetChampSelectSession (in_env2 i) l of
               (l', Inl e) \<Rightarrow> st\<lparr>sync_lol := l'\<rparr>
             | (l', Inr session) \<Rightarrow>
                 (let roomID = BuildRoomId (Some session)
                  in if roomID = [] then st\<lparr>sync_lol := l'\<rparr>
                     else
                       (let games = fst (Observe enq (in_rnd i) (in_now i) (in_t1 i) (in_t2 i) phase
                                           (GameId session) roomID (sync_games st))
                        in case CreateRoom r (in_created i) roomID (sync_rooms st) of
                             (rooms, Inl e) \<Rightarrow> st\<lparr>sync_lol := l', sync_games := games, sync_rooms := rooms\<rparr>
                           | (rooms, Inr x) \<Rightarrow>
                               (case SyncFromChampSelect r cat (in_saved i) roomID (Some session) (sync_catalog st) rooms of
                                  (c, rooms', res) \<Rightarrow>
                                    st\<lparr>sync_lol := l', sync_games := games, sync_rooms := rooms', sync_catalog := c\<rparr>)))))"

text \<open>What a tick observes of the client, if anything.\<close>

definition observation :: "tick_input \<Rightarrow> lol_client_service \<Rightarrow> (string \<times> int \<times> string) option" where
  "observation i l =
     (case GetGameflowPhase (in_env1 i) l of
        (l', Inl e) \<Rightarrow> None
      | (l', Inr phase) \<Rightarrow>
          if phase \<noteq> ''ChampSelect'' then Some (phase, 0, [])
          else (case snd (GetChampSelectSession (in_env2 i) l') of
                  Inl e \<Rightarrow> None
                | Inr session \<Rightarrow>
                    if BuildRoomId (Some session) = [] then None
                    else Some (phase, GameId session, BuildRoomId (Some session))))"

section \<open>What a tick does\<close>

lemma find_lockfile_snd: "snd (find_lockfile env ps s) = snd (find_lockfile env ps s')"
  by (induction ps arbitrary: s s') (auto simp: Let_def)

lemma ReadCredentials_snd: "snd (ReadCredentials env s) = snd (ReadCredentials env s')"
  using find_lockfile_snd [of env possiblePaths s s']
  by (auto simp: ReadCredentials_def FindLockfile_def split: prod.splits option.splits sum.splits list.splits)

lemma lcu_get_snd: "snd (lcu_get env p s) = snd (lcu_get env p s')"
  using ReadCredentials_snd [of env s s'] by (auto simp: lcu_get_def split: prod.splits option.splits)

text \<open>The answers of the client do not depend on the path found before.\<close>

lemma client_answers:
  "snd (GetGameflowPhase env s) = snd (GetGameflowPhase env s')"
  "snd (GetChampSelectSession env s) = snd (GetChampSelectSession env s')"
  using lcu_get_snd [of env _ s s']
  by (auto simp: GetGameflowPhase_def GetChampSelectSession_def split: prod.splits sum.splits) (metis Inl_Inr_False snd_conv sum.inject)+

lemma tick_games:
  "sync_games (champ_select_tick r cat enq i st) =
     (case observation i (sync_lol st) of
        None \<Rightarrow> sync_games st
      | Some (phase, g, k) \<Rightarrow> fst (Observe enq (in_rnd i) (in_now i) (in_t1 i) (in_t2 i) phase g k (sync_games st)))"
  by (auto simp: champ_select_tick_def observation_def Let_def split: prod.splits sum.splits)

lemma tick_outside:
  assumes "snd (GetGameflowPhase (in_env1 i) (sync_lol st)) = Inr phase" "phase \<noteq> ''ChampSelect''"
  shows "sync_rooms (champ_select_tick r cat enq i st) =
      (if currentRoomID (sync_rooms st) = [] then sync_rooms st
       else ClearCurrentRoomID (currentRoomID (sync_rooms st)) (sync_rooms st))"
    and "currentRoomID (sync_rooms (champ_select_tick r cat enq i st)) = []"
  using assms
  by (auto simp: champ_select_tick_def GetCurrentRoomID_def ClearCurrentRoomID_def publish_eqs Let_def split: prod.splits)

definition selecting :: "tick_input \<Rightarrow> lol_client_service \<Rightarrow> champ_select_session \<Rightarrow> bool" where
  "selecting i l session \<longleftrightarrow> snd (GetGameflowPhase (in_env1 i) l) = Inr ''ChampSelect'' \<and>
     snd (GetChampSelectSession (in_env2 i) l) = Inr session"

lemma tick_selecting:
  assumes "selecting i (sync_lol st) session" "BuildRoomId (Some session) \<noteq> []"
  defines "k \<equiv> BuildRoomId (Some session)"
  shows "sync_rooms (champ_select_tick r cat enq i st) =
     (case CreateRoom r (in_created i) k (sync_rooms st) of
        (rooms, Inl e) \<Rightarrow> rooms
      | (rooms, Inr x) \<Rightarrow>
          fst (snd (SyncFromChampSelect r cat (in_saved i) k (Some session) (sync_catalog st) rooms)))"
proof -
  obtain l where l: "GetGameflowPhase (in_env1 i) (sync_lol st) = (l, Inr ''ChampSelect'')"
    using assms(1) by (cases "GetGameflowPhase (in_env1 i) (sync_lol st)") (simp add: selecting_def)
  have "snd (GetChampSelectSession (in_env2 i) l) = Inr session"
    using client_answers(2) [of "in_env2 i" l "sync_lol st"] assms(1) by (simp add: selecting_def)
  then obtain l' where l': "GetChampSelectSession (in_env2 i) l = (l', Inr session)"
    by (cases "GetChampSelectSession (in_env2 i) l") simp
  obtain rooms q where c: "CreateRoom r (in_created i) k (sync_rooms st) = (rooms, q)" by (metis prod.collapse)
  obtain c' rooms' res where s: "SyncFromChampSelect r cat (in_saved i) k (Some session) (sync_catalog st) rooms = (c', rooms', res)"
    by (metis prod.collapse)
  from assms(2) c s show ?thesis
    unfolding k_def by (cases q) (simp_all add: champ_select_tick_def l l' Let_def)
qed

lemma tick_idle:
  assumes "\<forall>phase. snd (GetGameflowPhase (in_env1 i) (sync_lol st)) = Inr phase \<longrightarrow> phase = ''ChampSelect''"
    and "\<forall>session. selecting i (sync_lol st) session \<longrightarrow> BuildRoomId (Some session) = []"
  shows "sync_rooms (champ_select_tick r cat enq i st) = sync_rooms st"
proof -
  obtain l q where l: "GetGameflowPhase (in_env1 i) (sync_lol st) = (l, q)" by (metis prod.collapse)
  show ?thesis
  proof (cases q)
    case (Inl e)
    with l show ?thesis by (simp add: champ_select_tick_def)
  next
    case (Inr phase)
    with l assms(1) have p: "phase = ''ChampSelect''" by simp
    obtain l' q' where l': "GetChampSelectSession (in_env2 i) l = (l', q')" by (metis prod.collapse)
    have "BuildRoomId (Some session) = []" if "q' = Inr session" for session
    proof -
      have "snd (GetChampSelectSession (in_env2 i) (sync_lol st)) = Inr session"
        using client_answers(2) [of "in_env2 i" "sync_lol st" l] l' that by simp
      with assms(2) l Inr p show ?thesis by (simp add: selecting_def)
    qed
    with l l' Inr p show ?thesis by (cases q') (simp_all add: champ_select_tick_def)
  qed
qed

context room_service
begin

lemma tick_steps:
  assumes "\<And>session. selecting i (sync_lol st) session \<Longrightarrow> distinct (member_ids session)"
  shows "(room_step r cat)\<^sup>*\<^sup>* (sync_rooms st) (sync_rooms (champ_select_tick r cat enq i st))"
proof -
  consider (outside) phase where "snd (GetGameflowPhase (in_env1 i) (sync_lol st)) = Inr phase" "phase \<noteq> ''ChampSelect''"
    | (select) session where "selecting i (sync_lol st) session" "BuildRoomId (Some session) \<noteq> []"
    | (idle) "sync_rooms (champ_select_tick r cat enq i st) = sync_rooms st"
    using tick_idle by blast
  then show ?thesis
  proof cases
    case outside
    from tick_outside(1) [OF this] show ?thesis
      by (auto intro: room_step.clear_current)
  next
    case select
    let ?k = "BuildRoomId (Some session)"
    obtain rooms q where c: "CreateRoom r (in_created i) ?k (sync_rooms st) = (rooms, q)" by (meson surj_pair)
    have s1: "room_step r cat (sync_rooms st) rooms" by (rule room_step.create [OF c])
    show ?thesis
    proof (cases q)
      case (Inl e)
      with tick_selecting [OF select] c s1 show ?thesis by auto
    next
      case (Inr x)
      obtain c' rooms' res where s: "SyncFromChampSelect r cat (in_saved i) ?k (Some session) (sync_catalog st) rooms = (c', rooms', res)"
        by (metis prod.collapse)
      have "room_step r cat rooms rooms'"
        by (rule room_step.sync [OF s]) (use assms [OF select(1)] in simp)
      with s1 tick_selecting [OF select] c Inr s show ?thesis by (simp add: converse_rtranclp_into_rtranclp r_into_rtranclp)
    qed
  qed simp
qed

lemma sync_selects:
  assumes "SyncFromChampSelect r cat saved k (Some session) c st = (c', st', res)" "sinv st"
    and "distinct (member_ids session)" "currentRoomID st' \<noteq> currentRoomID st"
  shows "currentRoomID st' = k \<and> (\<exists>v. service_view view st' k = Some v \<and> riot_ids v = member_ids session)"
proof -
  note ss = SyncFromChampSelect_step [OF assms(1,2), simplified]
  have res: "res = Inr True"
  proof (cases res)
    case (Inl e)
    with ss(3) [OF assms(3)] assms(4) show ?thesis by simp
  next
    case (Inr b)
    with ss(2) [OF assms(3)] assms(4) show ?thesis by (cases b) simp_all
  qed
  from ss(4) [OF assms(3) res] obtain players y where
    "map (\<lambda>p. (GameName p, TagLine p)) players = member_ids session"
    "service_view view st' = (service_view view st)(k \<mapsto> store_room f g (replace_in_room saved y (Some players)))"
    by (auto simp: wrote_def)
  moreover have "riot_ids (store_room f g (replace_in_room saved y (Some players))) = map (\<lambda>p. (GameName p, TagLine p)) players" for players y
    by (simp add: riot_ids_def replace_in_room_def comp_def)
  ultimately show ?thesis using ss(4) [OF assms(3) res] by auto
qed

lemma tick_selects:
  assumes "sinv (sync_rooms st)" "selecting i (sync_lol st) session" "distinct (member_ids session)"
    and "currentRoomID (sync_rooms (champ_select_tick r cat enq i st)) \<noteq> currentRoomID (sync_rooms st)"
  shows "currentRoomID (sync_rooms (champ_select_tick r cat enq i st)) = BuildRoomId (Some session) \<and>
    (\<exists>v. service_view view (sync_rooms (champ_select_tick r cat enq i st)) (BuildRoomId (Some session)) = Some v \<and>
       riot_ids v = member_ids session)"
proof -
  let ?k = "BuildRoomId (Some session)"
  have k: "?k \<noteq> []"
  proof
    assume "?k = []"
    then have "sync_rooms (champ_select_tick r cat enq i st) = sync_rooms st"
      by (intro tick_idle) (use assms(2) in \<open>auto simp: selecting_def\<close>)
    with assms(4) show False by simp
  qed
  note sel = tick_selecting [OF assms(2) k, of r cat enq]
  obtain rooms q where c: "CreateRoom r (in_created i) ?k (sync_rooms st) = (rooms, q)" by (meson surj_pair)
  note cs = CreateRoom_step [OF assms(1) c]
  obtain x where q: "q = Inr x" using sel c cs(1) assms(4) by (cases q) auto
  obtain c' rooms' res where s: "SyncFromChampSelect r cat (in_saved i) ?k (Some session) (sync_catalog st) rooms = (c', rooms', res)"
    by (metis prod.collapse)
  have r': "sync_rooms (champ_select_tick r cat enq i st) = rooms'" using sel c q s by simp
  with sync_selects [OF s conjunct1 [OF cs(1)] assms(3)] cs(1) assms(4) show ?thesis by simp
qed

end

section \<open>Properties\<close>


definition ex_client :: lcu_env where
  "ex_client = \<lparr>lcu_exists = (\<lambda>p. True), lcu_read = (\<lambda>p. Inr ''LeagueClient:1:2999:pw:https''), lcu_separator = CHR ''/'',
     lcu_http = (\<lambda>url auth. Inr \<lparr>as_phase = Inr ''ChampSelect'', as_session = Inr ex_session, as_summoner = Inl json_error\<rparr>)\<rparr>"

definition ex_tick :: tick_input where
  "ex_tick = \<lparr>in_env1 = ex_client, in_env2 = ex_client, in_rnd = Inr (replicate 16 0), in_now = 5, in_t1 = 6, in_t2 = 6,
     in_created = 7, in_saved = 8\<rparr>"

definition ex_sync :: "(mem_repo, unit, outbox_db) sync_state" where
  "ex_sync = \<lparr>sync_lol = NewLolClientService, sync_rooms = ex_service, sync_catalog = (),
     sync_games = NewGameLifecycleService ex_db\<rparr>"

lemma ex_selecting: "selecting ex_tick l session \<longleftrightarrow> session = ex_session"
  by (auto simp: selecting_def GetGameflowPhase_def GetChampSelectSession_def lcu_get_def ReadCredentials_def
      FindLockfile_def possiblePaths_def ex_tick_def ex_client_def split: prod.splits)


end
