(* ===== verification/App.thy ===== *)
theory App
  imports GoText DeadLetter
begin

text \<open>
  Configuration and life cycle of the server: \<open>internal/config\<close>, the connections
  (\<open>internal/database\<close>, \<open>internal/cache/redis.go\<close>, \<open>internal/messaging\<close>), and how
  \<open>internal/app\<close> opens and closes them.
\<close>

section \<open>Configuration\<close>

record config =
  DatabaseURL :: string
  HTTPAddress :: string
  LogLevel :: string
  RedisAddress :: string
  RedisPassword :: string
  RedisDatabase :: int
  RoomCacheTTL :: duration
  NATSURL :: string
  ChampionGRPCAddress :: string

text \<open>An unset variable reads as the empty string.\<close>

definition getEnv :: "(string \<Rightarrow> string) \<Rightarrow> string \<Rightarrow> string \<Rightarrow> string" where
  "getEnv env key fallback = (if env key = [] then fallback else env key)"

text \<open>\<open>parse_duration\<close> is \<open>time.ParseDuration\<close>.\<close>

definition Load_config :: "(string \<Rightarrow> go_error + duration) \<Rightarrow> (string \<Rightarrow> string) \<Rightarrow> go_error + config" where
  "Load_config parse_duration env =
     (case Atoi (getEnv env ''REDIS_DATABASE'' ''0'') of
        None \<Rightarrow> Inl (Errorf [Txt ''parse REDIS_DATABASE: '', Wrapped (atoi_error (getEnv env ''REDIS_DATABASE'' ''0''))])
      | Some redisDatabase \<Rightarrow>
          (case parse_duration (getEnv env ''ROOM_CACHE_TTL'' ''5m'') of
             Inl e \<Rightarrow> Inl (Errorf [Txt ''parse ROOM_CACHE_TTL: '', Wrapped e])
           | Inr roomCacheTTL \<Rightarrow>
               (let cfg = \<lparr>DatabaseURL = env ''DATABASE_URL'', HTTPAddress = getEnv env ''HTTP_ADDRESS'' '':8080'',
                      LogLevel = getEnv env ''LOG_LEVEL'' ''info'',
                      RedisAddress = getEnv env ''REDIS_ADDRESS'' ''localhost:6379'',
                      RedisPassword = env ''REDIS_PASSWORD'', RedisDatabase = redisDatabase,
                      RoomCacheTTL = roomCacheTTL, NATSURL = getEnv env ''NATS_URL'' ''nats://localhost:4222'',
                      ChampionGRPCAddress = getEnv env ''CHAMPION_GRPC_ADDRESS'' ''localhost:50051''\<rparr>
                in if DatabaseURL cfg = [] then Inl (Errorf [Txt ''DATABASE_URL is not set'']) else Inr cfg)))"

section \<open>Connections\<close>

text \<open>
  The streams and the consumer that JetStream is asked for. Both streams keep messages in files,
  without replicas, and discard the oldest at their age; no \<open>Duplicates\<close> window is the default one.
\<close>

record stream_config =
  StreamName :: string
  StreamSubjects :: "string list"
  StreamDuplicates :: "duration option"
  StreamMaxAge :: duration

definition duplicateWindow :: duration where "duplicateWindow = 2 * minute"
definition deadLetterMaxAge :: duration where "deadLetterMaxAge = 30 * 24 * hour"

definition game_events_stream :: stream_config where
  "game_events_stream = \<lparr>StreamName = ''GAME_EVENTS'', StreamSubjects = [SubjectGameStarted, SubjectGameEnded],
     StreamDuplicates = Some duplicateWindow, StreamMaxAge = gameEventsMaxAge\<rparr>"

definition dead_letter_stream :: stream_config where
  "dead_letter_stream = \<lparr>StreamName = ''GAME_EVENTS_DLQ'', StreamSubjects = [SubjectGameDeadLetter],
     StreamDuplicates = None, StreamMaxAge = deadLetterMaxAge\<rparr>"

record consumer_options =
  DurableName :: string
  DeliverNew :: bool
  InactiveThreshold :: duration

record consumer_config =
  ConsumerStream :: string
  ConsumerOptions :: consumer_options
  AckWait :: duration
  MaxDeliver :: int
  FilterSubject :: string
  MaxAckPending :: int

definition gameEventAckWait :: duration where "gameEventAckWait = 30 * second"
definition gameEventProcessingTimeout :: duration where "gameEventProcessingTimeout = 10 * second"
definition deadLetterPublishTimeout :: duration where "deadLetterPublishTimeout = 5 * second"

definition game_events_consumer :: "consumer_options \<Rightarrow> consumer_config" where
  "game_events_consumer options = \<lparr>ConsumerStream = ''GAME_EVENTS'', ConsumerOptions = options,
     AckWait = gameEventAckWait, MaxDeliver = -1, FilterSubject = ''game.>'', MaxAckPending = 64\<rparr>"

text \<open>
  The connections that are open, the streams and consumers that JetStream has confirmed, and the
  outcomes of the library calls that may fail. Subscriptions belong to the NATS connection and
  end with it; streams and consumers stay.
\<close>

datatype resource = PostgresPool | RedisClient | NatsConn | ChampionConn | GameEventsHandle

record world =
  opened :: "resource list"
  streams :: "stream_config list"
  consumers :: "consumer_config list"
  calls :: polls

definition try_call :: "world \<Rightarrow> world \<times> go_error option" where
  "try_call w = (w\<lparr>calls := rest_polls (calls w)\<rparr>, next_poll (calls w))"

definition open_res :: "resource \<Rightarrow> world \<Rightarrow> world" where
  "open_res x w = w\<lparr>opened := opened w @ [x]\<rparr>"

definition close_res :: "resource \<Rightarrow> world \<Rightarrow> world" where
  "close_res x w = w\<lparr>opened := removeAll x (opened w)\<rparr>"

definition db_Connect :: "string \<Rightarrow> world \<Rightarrow> world \<times> go_error option" where
  "db_Connect databaseURL w =
     (if databaseURL = [] then (w, Some (Errorf [Txt ''database URL is empty'']))
      else
        (case try_call w of
           (w1, Some e) \<Rightarrow> (w1, Some (Errorf [Txt ''parse postgres config: '', Wrapped e]))
         | (w1, None) \<Rightarrow>
             (case try_call w1 of
                (w2, Some e) \<Rightarrow> (w2, Some (Errorf [Txt ''create postgres pool: '', Wrapped e]))
              | (w2, None) \<Rightarrow>
                  (case try_call (open_res PostgresPool w2) of
                     (w3, Some e) \<Rightarrow> (close_res PostgresPool w3, Some (Errorf [Txt ''ping postgres: '', Wrapped e]))
                   | (w3, None) \<Rightarrow> (w3, None)))))"

definition redis_Connect :: "string \<Rightarrow> world \<Rightarrow> world \<times> go_error option" where
  "redis_Connect address w =
     (if address = [] then (w, Some (Errorf [Txt ''Redis address is empty'']))
      else
        (case try_call (open_res RedisClient w) of
           (w1, Some e) \<Rightarrow> (close_res RedisClient w1, Some (Errorf [Txt ''ping Redis: '', Wrapped e]))
         | (w1, None) \<Rightarrow> (w1, None)))"

definition nats_New :: "world \<Rightarrow> world \<times> go_error option" where
  "nats_New w =
     (case try_call w of
        (w1, Some e) \<Rightarrow> (w1, Some (Errorf [Txt ''connect to NATS: '', Wrapped e]))
      | (w1, None) \<Rightarrow>
          (case try_call (open_res NatsConn w1) of
             (w2, Some e) \<Rightarrow> (close_res NatsConn w2, Some (Errorf [Txt ''create JetStream client: '', Wrapped e]))
           | (w2, None) \<Rightarrow> (w2, None)))"

definition ensure_stream :: "stream_config \<Rightarrow> world \<Rightarrow> world \<times> go_error option" where
  "ensure_stream cfg w =
     (case try_call w of
        (w1, Some e) \<Rightarrow> (w1, Some (Errorf [Txt ''ensure JetStream stream '', Quoted (StreamName cfg), Txt '': '', Wrapped e]))
      | (w1, None) \<Rightarrow> (w1\<lparr>streams := streams w1 @ [cfg]\<rparr>, None))"

definition EnsureGameEventsStream :: "world \<Rightarrow> world \<times> go_error option" where
  "EnsureGameEventsStream w = ensure_stream game_events_stream w"

definition EnsureGameEventsDLQStream :: "world \<Rightarrow> world \<times> go_error option" where
  "EnsureGameEventsDLQStream w = ensure_stream dead_letter_stream w"

definition subscribe :: "string \<Rightarrow> world \<Rightarrow> world \<times> go_error option" where
  "subscribe subject w =
     (case try_call w of
        (w1, Some e) \<Rightarrow> (w1, Some (Errorf [Txt ''subscribe '', Quoted subject, Txt '': '', Wrapped e]))
      | (w1, None) \<Rightarrow> (w1, None))"

definition flush :: "world \<Rightarrow> world \<times> go_error option" where
  "flush w =
     (case try_call w of
        (w1, Some e) \<Rightarrow> (w1, Some (Errorf [Txt ''flush NATS connection: '', Wrapped e]))
      | (w1, None) \<Rightarrow> (w1, None))"

text \<open>\<open>RoomConsumer.Start\<close>.\<close>

definition room_consumer_Start :: "world \<Rightarrow> world \<times> go_error option" where
  "room_consumer_Start w =
     (case subscribe SubjectCurrentRoomChanged w of
        (w1, Some e) \<Rightarrow> (w1, Some (Errorf [Txt ''subscribe current room changed: '', Wrapped e]))
      | (w1, None) \<Rightarrow>
          (case subscribe SubjectRoomUpdated w1 of
             (w2, Some e) \<Rightarrow> (w2, Some (Errorf [Txt ''subscribe room updated: '', Wrapped e]))
           | (w2, None) \<Rightarrow>
               (case flush w2 of
                  (w3, Some e) \<Rightarrow> (w3, Some (Errorf [Txt ''confirm room subscriptions: '', Wrapped e]))
                | (w3, None) \<Rightarrow> (w3, None))))"

text \<open>\<open>championgrpc.NewClient\<close>.\<close>

definition DefaultRequestTimeout :: duration where
  "DefaultRequestTimeout = 2 * second"

definition champion_NewClient :: "string \<Rightarrow> duration \<Rightarrow> world \<Rightarrow> world \<times> go_error option" where
  "champion_NewClient address timeout w =
     (if address = [] then (w, Some (Errorf [Txt ''champion gRPC address is required'']))
      else if timeout \<le> 0 then (w, Some (Errorf [Txt ''champion gRPC timeout must be positive'']))
      else
        (case try_call w of
           (w1, Some e) \<Rightarrow> (w1, Some (Errorf [Txt ''create champion gRPC connection: '', Wrapped e]))
         | (w1, None) \<Rightarrow> (open_res ChampionConn w1, None)))"

text \<open>The handler the program gives is never nil.\<close>

definition StartGameEventsConsumerWithOptions :: "consumer_options \<Rightarrow> world \<Rightarrow> world \<times> go_error option" where
  "StartGameEventsConsumerWithOptions options w =
     (if DurableName options = [] then (w, Some (Errorf [Txt ''game events consumer durable name is required'']))
      else
        (case try_call w of
           (w1, Some e) \<Rightarrow>
             (w1, Some (Errorf [Txt ''ensure JetStream consumer '', Quoted (DurableName options), Txt '': '', Wrapped e]))
         | (w1, None) \<Rightarrow>
             (case try_call (w1\<lparr>consumers := consumers w1 @ [game_events_consumer options]\<rparr>) of
                (w2, Some e) \<Rightarrow> (w2, Some (Errorf [Txt ''consume durable game events: '', Wrapped e]))
              | (w2, None) \<Rightarrow> (open_res GameEventsHandle w2, None))))"

definition StartGameEventsConsumer :: "world \<Rightarrow> world \<times> go_error option" where
  "StartGameEventsConsumer w = StartGameEventsConsumerWithOptions
     \<lparr>DurableName = ConsumerGameEvents, DeliverNew = False, InactiveThreshold = 0\<rparr> w"

section \<open>Starting and stopping the server\<close>

definition close_all :: "resource list \<Rightarrow> world \<Rightarrow> world" where
  "close_all xs w = foldl (\<lambda>w x. close_res x w) w xs"

text \<open>The last part of \<open>New\<close>: the consumers, on the connections that are open then.\<close>

definition start_consumers :: "config \<Rightarrow> world \<Rightarrow> world \<times> (go_error + config)" where
  "start_consumers cfg w5 =
     (case room_consumer_Start w5 of
        (w6, Some e) \<Rightarrow> (close_all [ChampionConn, NatsConn, RedisClient, PostgresPool] w6,
                         Inl (Errorf [Txt ''start room consumer: '', Wrapped e]))
      | (w6, None) \<Rightarrow>
     (case StartGameEventsConsumer w6 of
        (w7, Some e) \<Rightarrow> (close_all [ChampionConn, NatsConn, RedisClient, PostgresPool] w7,
                         Inl (Errorf [Txt ''start game events consumer: '', Wrapped e]))
      | (w7, None) \<Rightarrow> (w7, Inr cfg)))"

definition app_New ::
  "(string \<Rightarrow> go_error + duration) \<Rightarrow> (string \<Rightarrow> string) \<Rightarrow> world \<Rightarrow> world \<times> (go_error + config)" where
  "app_New parse_duration env w =
     (case Load_config parse_duration env of
        Inl e \<Rightarrow> (w, Inl e)
      | Inr cfg \<Rightarrow>
     (case db_Connect (DatabaseURL cfg) w of
        (w1, Some e) \<Rightarrow> (w1, Inl e)
      | (w1, None) \<Rightarrow>
     (case redis_Connect (RedisAddress cfg) w1 of
        (w2, Some e) \<Rightarrow> (close_res PostgresPool w2, Inl (Errorf [Txt ''connect Redis: '', Wrapped e]))
      | (w2, None) \<Rightarrow>
     (case nats_New w2 of
        (w3, Some e) \<Rightarrow> (close_all [RedisClient, PostgresPool] w3, Inl (Errorf [Txt ''connect NATS: '', Wrapped e]))
      | (w3, None) \<Rightarrow>
     (case (case EnsureGameEventsStream w3 of
              (w', Some e) \<Rightarrow> (w', Some e)
            | (w', None) \<Rightarrow> EnsureGameEventsDLQStream w') of
        (w4, Some e) \<Rightarrow> (close_all [NatsConn, RedisClient, PostgresPool] w4,
                         Inl (Errorf [Txt ''initialize JetStream: '', Wrapped e]))
      | (w4, None) \<Rightarrow>
     (case champion_NewClient (ChampionGRPCAddress cfg) DefaultRequestTimeout w4 of
        (w5, Some e) \<Rightarrow> (close_all [NatsConn, RedisClient, PostgresPool] w5,
                         Inl (Errorf [Txt ''create champion gRPC client: '', Wrapped e]))
      | (w5, None) \<Rightarrow> start_consumers cfg w5))))))"

text \<open>
  Draining the consumer stops it, also when the wait for its end is cut short. A NATS connection
  that drains closes itself; one that cannot be drained stays open.
\<close>

definition consumer_Drain :: "world \<Rightarrow> world \<times> go_error option" where
  "consumer_Drain w =
     (case try_call w of
        (w1, Some e) \<Rightarrow> (close_res GameEventsHandle w1, Some (Errorf [Txt ''drain durable consumer: '', Wrapped e]))
      | (w1, None) \<Rightarrow> (close_res GameEventsHandle w1, None))"

definition nats_Drain :: "world \<Rightarrow> world \<times> go_error option" where
  "nats_Drain w =
     (case try_call w of
        (w1, Some e) \<Rightarrow> (w1, Some (Errorf [Txt ''drain NATS connection: '', Wrapped e]))
      | (w1, None) \<Rightarrow> (close_res NatsConn w1, None))"

definition nats_Close :: "world \<Rightarrow> world" where
  "nats_Close w = close_res NatsConn w"

text \<open>\<open>Close\<close>: the fields are set after a start, and errors are logged.\<close>

definition app_Close :: "world \<Rightarrow> world \<times> (string \<times> go_error) list" where
  "app_Close w =
     (let line = (\<lambda>text err. case err of None \<Rightarrow> [] | Some e \<Rightarrow> [(text, e)]);
          (w1, e1) = consumer_Drain w;
          (w2, e2) = try_call w1; w2 = close_res ChampionConn w2;
          (w3, e3) = nats_Drain w2; w3 = (if e3 = None then w3 else nats_Close w3);
          (w4, e4) = try_call w3; w4 = close_res RedisClient w4
      in (close_res PostgresPool w4,
          line ''drain game events consumer: '' e1 @ line ''close champion gRPC client: '' e2 @
          line ''drain NATS: '' e3 @ line ''close Redis: '' e4))"

section \<open>What each call opens\<close>

text \<open>A call opens its resource on success, and nothing otherwise.\<close>

definition opens :: "resource list \<Rightarrow> world \<Rightarrow> world \<times> go_error option \<Rightarrow> bool" where
  "opens xs w out \<longleftrightarrow> opened (fst out) = (if snd out = None then opened w @ xs else opened w)"

lemma world_simps [simp]:
  "opened (fst (try_call w)) = opened w" "opened (open_res x w) = opened w @ [x]"
  "opened (close_res x w) = removeAll x (opened w)"
  by (simp_all add: try_call_def open_res_def close_res_def)

lemma try_call_opened: "try_call w = (w1, e) \<Longrightarrow> opened w1 = opened w"
  by (auto simp: try_call_def)

lemmas call_split = prod.splits option.splits if_splits

lemma connections_open:
  "PostgresPool \<notin> set (opened w) \<Longrightarrow> opens [PostgresPool] w (db_Connect url w)"
  "RedisClient \<notin> set (opened w) \<Longrightarrow> opens [RedisClient] w (redis_Connect a w)"
  "NatsConn \<notin> set (opened w) \<Longrightarrow> opens [NatsConn] w (nats_New w)"
  "opens [ChampionConn] w (champion_NewClient a t w)"
  "opens [GameEventsHandle] w (StartGameEventsConsumer w)"
  by (auto simp: opens_def db_Connect_def redis_Connect_def nats_New_def champion_NewClient_def
      StartGameEventsConsumer_def StartGameEventsConsumerWithOptions_def dest!: try_call_opened split: call_split)

lemma calls_open:
  "opens [] w (EnsureGameEventsStream w)" "opens [] w (EnsureGameEventsDLQStream w)"
  "opens [] w (subscribe n w)" "opens [] w (flush w)"
  by (auto simp: opens_def EnsureGameEventsStream_def EnsureGameEventsDLQStream_def ensure_stream_def subscribe_def flush_def dest!: try_call_opened split: call_split)

lemma opens_seq:
  assumes "opens [] w (f w)" "\<And>w. opens [] w (g w)"
  shows "opens [] w (case f w of (w1, Some e) \<Rightarrow> (w1, Some (h e)) | (w1, None) \<Rightarrow> g w1)"
proof -
  obtain w1 q where "f w = (w1, q)" by (meson surj_pair)
  with assms show ?thesis by (cases q) (auto simp: opens_def)
qed

lemma opens_map: "opens [] w (f w) \<Longrightarrow> opens [] w (case f w of (w1, Some e) \<Rightarrow> (w1, Some (h e)) | (w1, None) \<Rightarrow> (w1, None))"
  by (auto simp: opens_def split: call_split)

lemma steps_open:
  "opens [] w (room_consumer_Start w)"
  "opens [] w (case EnsureGameEventsStream w of (w', Some e) \<Rightarrow> (w', Some e) | (w', None) \<Rightarrow> EnsureGameEventsDLQStream w')"
  unfolding room_consumer_Start_def
  by (intro opens_seq opens_map calls_open)+

text \<open>One step of the start: either it fails, and what its error path leaves is closed, or it goes on.\<close>

definition all_or_nothing :: "resource list \<Rightarrow> world \<times> (go_error + config) \<Rightarrow> bool" where
  "all_or_nothing xs out \<longleftrightarrow> opened (fst out) = (if isl (snd out) then [] else xs)"

lemma start_step:
  assumes "opens xs w out" "\<And>w1 e. opened w1 = opened w \<Longrightarrow> all_or_nothing ys (err w1 e)"
    and "\<And>w1. opened w1 = opened w @ xs \<Longrightarrow> all_or_nothing ys (cont w1)"
  shows "all_or_nothing ys (case out of (w1, Some e) \<Rightarrow> err w1 e | (w1, None) \<Rightarrow> cont w1)"
  using assms by (cases out) (auto simp: opens_def split: option.splits)

lemma closed_failure: "set (opened w) \<subseteq> set xs \<Longrightarrow> all_or_nothing ys (close_all xs w, Inl e)"
  "set (opened w) \<subseteq> {x} \<Longrightarrow> all_or_nothing ys (close_res x w, Inl e)"
proof -
  have "opened (foldl (\<lambda>w x. close_res x w) w xs) = filter (\<lambda>y. y \<notin> set xs) (opened w)" for w
    by (induction xs arbitrary: w) (simp_all add: removeAll_filter_not_eq, metis (full_types))
  then show "set (opened w) \<subseteq> set xs \<Longrightarrow> all_or_nothing ys (close_all xs w, Inl e)"
    by (auto simp: all_or_nothing_def close_all_def filter_empty_conv)
  show "set (opened w) \<subseteq> {x} \<Longrightarrow> all_or_nothing ys (close_res x w, Inl e)"
    by (auto simp: all_or_nothing_def removeAll_filter_not_eq filter_empty_conv)
qed

abbreviation server_resources :: "resource list" where
  "server_resources \<equiv> [PostgresPool, RedisClient, NatsConn, ChampionConn, GameEventsHandle]"

lemma app_New_opens:
  assumes "opened w = []"
  shows "all_or_nothing server_resources (app_New pd env w)"
proof (cases "Load_config pd env")
  case (Inl e)
  with assms show ?thesis by (simp add: app_New_def all_or_nothing_def)
next
  case (Inr cfg)
  show ?thesis
    unfolding app_New_def start_consumers_def Inr sum.case
    apply (rule start_step, rule connections_open(1))
      apply (simp add: assms, simp add: assms all_or_nothing_def)
    apply (rule start_step, rule connections_open(2))
      apply (simp add: assms, rule closed_failure, simp add: assms)
    apply (rule start_step, rule connections_open(3))
      apply (simp add: assms, rule closed_failure, simp add: assms)
    apply (rule start_step, rule steps_open(2), rule closed_failure, simp add: assms)
    apply (rule start_step, rule connections_open(4), rule closed_failure, simp add: assms)
    apply (rule start_step, rule steps_open(1), rule closed_failure, simp add: assms)
    apply (rule start_step, rule connections_open(5), rule closed_failure, simp add: assms)
    apply (simp add: assms all_or_nothing_def)
    done
qed

lemma app_New_config: "app_New pd env w = (w', Inr cfg) \<Longrightarrow> Load_config pd env = Inr cfg"
  by (cases "Load_config pd env") (auto simp: app_New_def start_consumers_def split: call_split)

lemma app_Close_opens: "opened w = server_resources \<Longrightarrow> opened (fst (app_Close w)) = []"
  by (auto simp: app_Close_def consumer_Drain_def nats_Drain_def nats_Close_def Let_def
      split: prod.split option.split dest!: try_call_opened)

lemma Load_config_sets_the_database: "Load_config pd env = Inr cfg \<Longrightarrow> DatabaseURL cfg \<noteq> []"
  by (auto simp: Load_config_def Let_def split: option.splits sum.splits if_splits)

section \<open>Streams and consumers\<close>

text \<open>Matching of NATS subjects: \<open>*\<close> stands for one token, \<open>>\<close> for the rest.\<close>

fun tokens_match :: "string list \<Rightarrow> string list \<Rightarrow> bool" where
  "tokens_match [''>''] (t # ts) = True"
| "tokens_match (p # ps) (t # ts) = ((p = ''*'' \<or> p = t) \<and> tokens_match ps ts)"
| "tokens_match [] [] = True"
| "tokens_match _ _ = False"

definition subject_matches :: "string \<Rightarrow> string \<Rightarrow> bool" where
  "subject_matches pattern subject = tokens_match (split_at (CHR ''.'') pattern) (split_at (CHR ''.'') subject)"

definition jetstream_setup :: "world \<Rightarrow> stream_config list \<times> consumer_config list" where
  "jetstream_setup w = (streams w, consumers w)"

lemma setup_simps [simp]:
  "jetstream_setup (open_res x w) = jetstream_setup w" "jetstream_setup (close_res x w) = jetstream_setup w"
  by (simp_all add: jetstream_setup_def open_res_def close_res_def)

lemma try_call_setup: "try_call w = (w1, e) \<Longrightarrow> jetstream_setup w1 = jetstream_setup w"
  by (auto simp: try_call_def jetstream_setup_def)

lemma connections_setup:
  "db_Connect url w = (w', None) \<Longrightarrow> jetstream_setup w' = jetstream_setup w"
  "redis_Connect a w = (w', None) \<Longrightarrow> jetstream_setup w' = jetstream_setup w"
  "nats_New w = (w', None) \<Longrightarrow> jetstream_setup w' = jetstream_setup w"
  "champion_NewClient a t w = (w', None) \<Longrightarrow> jetstream_setup w' = jetstream_setup w"
  "room_consumer_Start w = (w', None) \<Longrightarrow> jetstream_setup w' = jetstream_setup w"
  by (auto simp: db_Connect_def redis_Connect_def nats_New_def champion_NewClient_def room_consumer_Start_def
      subscribe_def flush_def dest!: try_call_setup split: call_split)

lemma streams_setup:
  "ensure_stream cfg w = (w', None) \<Longrightarrow> jetstream_setup w' = (streams w @ [cfg], consumers w)"
  "StartGameEventsConsumer w = (w', None) \<Longrightarrow> jetstream_setup w' =
     (streams w, consumers w @ [game_events_consumer \<lparr>DurableName = ConsumerGameEvents, DeliverNew = False, InactiveThreshold = 0\<rparr>])"
  by (auto simp: ensure_stream_def StartGameEventsConsumer_def StartGameEventsConsumerWithOptions_def jetstream_setup_def
      try_call_def open_res_def split: call_split)

text \<open>
  A server that started has both streams. What it publishes reliably falls into them: the two game
  events into the one its consumer reads and matches, a dead letter into the other, which that
  consumer does not see. A message is acknowledged or refused before the server would deliver it
  again, and the inbox remembers an event longer than its stream keeps it.
\<close>

lemma started_server_reads_what_it_publishes:
  assumes "app_New parse_duration env w = (w', Inr cfg)" "streams w = []" "consumers w = []"
  obtains c where "streams w' = [game_events_stream, dead_letter_stream]" "consumers w' = [c]"
    "ConsumerStream c = StreamName game_events_stream"
    "\<And>s. s \<in> {SubjectGameStarted, SubjectGameEnded} \<Longrightarrow> s \<in> set (StreamSubjects game_events_stream) \<and> subject_matches (FilterSubject c) s"
    "SubjectGameDeadLetter \<in> set (StreamSubjects dead_letter_stream)" "\<not> subject_matches (FilterSubject c) SubjectGameDeadLetter"
    "gameEventProcessingTimeout + deadLetterPublishTimeout < AckWait c"
    "StreamMaxAge game_events_stream < processedEventRetention"
proof
  let ?c = "game_events_consumer \<lparr>DurableName = ConsumerGameEvents, DeliverNew = False, InactiveThreshold = 0\<rparr>"
  have "jetstream_setup w' = ([game_events_stream, dead_letter_stream], [?c])"
    using assms
    by (auto simp: app_New_def start_consumers_def EnsureGameEventsStream_def EnsureGameEventsDLQStream_def jetstream_setup_def
        dest!: connections_setup streams_setup split: sum.splits prod.splits option.splits)
  then show "streams w' = [game_events_stream, dead_letter_stream]" "consumers w' = [?c]"
    by (simp_all add: jetstream_setup_def)
  show "s \<in> set (StreamSubjects game_events_stream) \<and> subject_matches (FilterSubject ?c) s" if "s \<in> {SubjectGameStarted, SubjectGameEnded}" for s
    using that by (auto simp: subject_matches_def game_events_consumer_def game_events_stream_def go_defs)
qed (simp_all add: game_events_consumer_def game_events_stream_def dead_letter_stream_def subject_matches_def go_defs
      gameEventProcessingTimeout_def deadLetterPublishTimeout_def gameEventAckWait_def gameEventsMaxAge_def processedEventRetention_def)

section \<open>Property\<close>

text \<open>
  Starting the server is all or nothing. Whichever connection, stream, subscription or
  consumer fails, the error path closes what was opened before it and the start leaves nothing
  open. A start that succeeds has the validated configuration, with a database, and holds its five
  resources, and \<open>Close\<close> closes each of them whatever the closing calls answer.
\<close>

theorem startup_is_all_or_nothing:
  assumes "opened w = []" and "app_New parse_duration env w = (w', res)"
  shows "case res of
           Inl e \<Rightarrow> opened w' = []
         | Inr cfg \<Rightarrow> Load_config parse_duration env = Inr cfg \<and> DatabaseURL cfg \<noteq> []
             \<and> opened w' = server_resources \<and> opened (fst (app_Close w')) = []"
proof (cases res)
  case (Inl e)
  with app_New_opens [OF assms(1), of parse_duration env] assms(2) show ?thesis
    by (simp add: all_or_nothing_def)
next
  case (Inr cfg)
  with app_New_opens [OF assms(1), of parse_duration env] assms(2)
  have open_all: "opened w' = server_resources" by (simp add: all_or_nothing_def)
  have "Load_config parse_duration env = Inr cfg"
    using app_New_config [of parse_duration env w w' cfg] assms(2) Inr by simp
  with open_all Inr show ?thesis
    by (simp add: app_Close_opens Load_config_sets_the_database)
qed

definition ex_env :: "string \<Rightarrow> string" where
  "ex_env key = (if key = ''DATABASE_URL'' then ''postgres'' else [])"

definition ex_failing_start :: world where
  "ex_failing_start = \<lparr>opened = [], streams = [], consumers = [], calls = [None, None, None, None, Some (External ''no servers'')]\<rparr>"

theorem startup_is_all_or_nothing_witness:
  "isl (snd (app_New (\<lambda>_. Inr 300) ex_env ex_failing_start))
   \<and> opened (fst (app_New (\<lambda>_. Inr 300) ex_env ex_failing_start)) = []"
proof
  have run: "snd (app_New (\<lambda>_. Inr 300) ex_env ex_failing_start)
     = Inl (Errorf [Txt ''connect NATS: '', Wrapped (Errorf [Txt ''connect to NATS: '', Wrapped (External ''no servers'')])])"
    by code_simp
  then show "isl (snd (app_New (\<lambda>_. Inr 300) ex_env ex_failing_start))" by simp
  have "opened ex_failing_start = []" by (simp add: ex_failing_start_def)
  from startup_is_all_or_nothing [OF this prod.collapse [symmetric], of "\<lambda>_. Inr 300" ex_env]
  show "opened (fst (app_New (\<lambda>_. Inr 300) ex_env ex_failing_start)) = []"
    by (simp add: run)
qed

end
