(* ===== verification/Pipeline.thy ===== *)
theory Pipeline
  imports Lifecycle GameEvents
begin

text \<open>
  The path of a game event through the whole server: the League client is observed
  (\<open>Lifecycle\<close>), events wait in the outbox and are relayed to JetStream (\<open>Outbox\<close>), and the
  consumer records them in the sessions (\<open>GameEvents\<close>), each part at its own pace.
\<close>

section \<open>The steps\<close>

record pipeline =
  pl_games :: "outbox_db game_lifecycle_service"
  pl_js :: jetstream
  pl_labels :: "string list"
  pl_inbox :: inbox_db

definition pl_relay :: "pipeline \<Rightarrow> relay_state" where
  "pl_relay s = \<lparr>relay_db = outbox (pl_games s), relay_js = pl_js s, relay_labels = pl_labels s\<rparr>"

definition pl_relayed :: "relay_state \<Rightarrow> pipeline \<Rightarrow> pipeline" where
  "pl_relayed st s = s\<lparr>pl_games := (pl_games s)\<lparr>outbox := relay_db st\<rparr>, pl_js := relay_js st,
                      pl_labels := relay_labels st\<rparr>"

text \<open>
  The reachable states of a server that starts with empty tables, with the games and rooms that
  were observed in Champion Select. The schedules of faults are those of the start and
  arbitrary; deliveries may repeat and come in any order.
\<close>

inductive pipeline_reach :: "pg_driver \<Rightarrow> (int \<times> string) set \<Rightarrow> pipeline \<Rightarrow> bool" for d where
  start: "outbox_rows db = [] \<Longrightarrow> js_sent js = [] \<Longrightarrow> game_sessions inbox = [] \<Longrightarrow>
    pipeline_reach d {} \<lparr>pl_games = NewGameLifecycleService db, pl_js = js, pl_labels = [], pl_inbox = inbox\<rparr>"
| observe: "pipeline_reach d seen s \<Longrightarrow> zero_time < now \<Longrightarrow>
    Observe Enqueue rnd now t1 t2 phase g r (pl_games s) = (games, res) \<Longrightarrow>
    seen' = (if phase = ''ChampSelect'' then insert (g, r) seen else seen) \<Longrightarrow>
    pipeline_reach d seen' (s\<lparr>pl_games := games\<rparr>)"
| relay: "pipeline_reach d seen s \<Longrightarrow> (\<forall>xs. mset (ret xs) = mset xs) \<Longrightarrow>
    RelayOnce locked ret now (pl_relay s) = (st, result, err) \<Longrightarrow> pipeline_reach d seen (pl_relayed st s)"
| clean_outbox: "pipeline_reach d seen s \<Longrightarrow> OutboxCleanup now (outbox (pl_games s)) = (db, res') \<Longrightarrow>
    pipeline_reach d seen (s\<lparr>pl_games := (pl_games s)\<lparr>outbox := db\<rparr>\<rparr>)"
| deliver: "pipeline_reach d seen s \<Longrightarrow> (subject, i, GamePayload bytes) \<in> set (js_sent (pl_js s)) \<Longrightarrow>
    Handle (pg_game_events d t) subject bytes (pl_inbox s) = (inbox, out) \<Longrightarrow>
    pipeline_reach d seen (s\<lparr>pl_inbox := inbox\<rparr>)"
| clean_inbox: "pipeline_reach d seen s \<Longrightarrow> ProcessedCleanup now (pl_inbox s) = (inbox, deleted) \<Longrightarrow>
    pipeline_reach d seen (s\<lparr>pl_inbox := inbox\<rparr>)"

section \<open>What flows through it\<close>

text \<open>A message that the consumer accepts, about a game and room that were observed.\<close>

definition good_message :: "(int \<times> string) set \<Rightarrow> string \<times> string \<times> game_payload \<Rightarrow> bool" where
  "good_message seen c \<longleftrightarrow> (case c of (i, subject, bytes) \<Rightarrow>
     \<exists>ev. accepted subject bytes = Some ev \<and> GeEventID ev = i \<and> (GeGameID ev, GeRoomID ev) \<in> seen)"

lemma good_message_mono: "good_message seen c \<Longrightarrow> seen \<subseteq> seen' \<Longrightarrow> good_message seen' c"
  by (auto simp: good_message_def)

definition tracked :: "(int \<times> string) set \<Rightarrow> game_lifecycle_tracker \<Rightarrow> bool" where
  "tracked seen t \<longleftrightarrow> (0 < t_gameID t \<and> t_roomID t \<noteq> [] \<longrightarrow> (t_gameID t, t_roomID t) \<in> seen)"

lemma tracked_Observe:
  assumes "tracker_Observe phase g r t = (t', res)" "tracked seen t"
    and "seen' = (if phase = ''ChampSelect'' then insert (g, r) seen else seen)"
  shows "tracked seen' t'" "tracker_ok t \<Longrightarrow> tracker_ok t'"
    "tracker_ok t \<Longrightarrow> res = Some tr \<Longrightarrow> 0 < TrGameID tr \<and> TrRoomID tr \<noteq> [] \<and> (TrGameID tr, TrRoomID tr) \<in> seen"
proof -
  from assms(1) show "tracked seen' t'"
    by (cases rule: tracker_cases) (use assms(2,3) in \<open>auto simp: tracked_def reset_def\<close>)
  show "tracker_ok t \<Longrightarrow> tracker_ok t'" by (rule tracker_step(1) [OF assms(1)])
  show "tracker_ok t \<Longrightarrow> res = Some tr \<Longrightarrow> 0 < TrGameID tr \<and> TrRoomID tr \<noteq> [] \<and> (TrGameID tr, TrRoomID tr) \<in> seen"
    using tracker_step(3) [OF assms(1)] assms(2) by (metis tracked_def)
qed

text \<open>The events that the lifecycle service forms are good.\<close>

lemma new_event_good:
  assumes "NewEventMetadata rnd now = Inr m" "newGameOutboxEvent tr m = Inr ev" "zero_time < now"
    and "0 < TrGameID tr" "TrRoomID tr \<noteq> []" "(TrGameID tr, TrRoomID tr) \<in> seen"
  shows "good_message seen (content ev)"
proof -
  let ?e = "\<lparr>EventID = EventID m, OccurredAt = OccurredAt m, Version = Version m,
             GameID = TrGameID tr, RoomID = TrRoomID tr\<rparr> :: game_event"
  from assms(2) obtain subject where ev: "content ev = (EventID m, subject, marshal_game_event ?e)"
    "subject = SubjectGameStarted \<or> subject = SubjectGameEnded"
    by (auto simp: newGameOutboxEvent_def content_def Let_def split: if_splits)
  have "validateGameEvent ?e (TrGameID tr) (TrRoomID tr) = None"
    using NewEventMetadata_Inr [OF assms(1)] assms(3-5) by (simp add: validateGameEvent_None_iff)
  then have "accepted subject (marshal_game_event ?e) = Some (toRepositoryGameEvent subject ?e)"
    using ev(2) by (auto simp: accepted_def)
  with ev(1) assms(6) show ?thesis by (simp add: good_message_def toRepositoryGameEvent_def)
qed

lemma session_effect_rooms:
  assumes "session_effect d ev gs = Some gs'" "map_of gs' k = Some x"
  shows "(k, gs_room x) = (GeGameID ev, GeRoomID ev) \<or> (\<exists>y. map_of gs k = Some y \<and> gs_room y = gs_room x)"
  using assms
  by (auto simp: session_effect_def upsert_started_def update_ended_def map_of_update_sessions Let_def
      split: if_splits option.splits)

section \<open>The invariant\<close>

definition pipe_inv :: "(int \<times> string) set \<Rightarrow> pipeline \<Rightarrow> bool" where
  "pipe_inv seen s \<longleftrightarrow> tracker_ok (tracker (pl_games s)) \<and> tracked seen (tracker (pl_games s)) \<and>
     outbox_inv (outbox (pl_games s)) \<and> pg_outbox.every_event (good_message seen) (pl_games s) \<and>
     (\<forall>(subject, i, p) \<in> set (js_sent (pl_js s)). \<exists>bytes. p = GamePayload bytes \<and> good_message seen (i, subject, bytes)) \<and>
     (\<forall>k x. map_of (game_sessions (pl_inbox s)) k = Some x \<longrightarrow> (k, gs_room x) \<in> seen)"

lemma outbox_inv_filter: "outbox_inv db \<Longrightarrow> outbox_rows db' = filter P (outbox_rows db) \<Longrightarrow> outbox_inv db'"
  by (simp add: outbox_inv_def distinct_map_filter)

lemma every_event_rows:
  assumes "pg_outbox.every_event P st" "set (row_contents db) \<subseteq> set (row_contents (outbox st))"
  shows "pg_outbox.every_event P (st\<lparr>outbox := db\<rparr>)"
  using assms by (auto simp: pg_outbox.every_event_def)

lemma row_contents_filter: "outbox_rows db' = filter P (outbox_rows db) \<Longrightarrow> set (row_contents db') \<subseteq> set (row_contents db)"
  by (auto simp: row_contents_def)

lemma row_contents_grows: "list_all2 row_grows (outbox_rows db) (outbox_rows db') \<Longrightarrow> row_contents db' = row_contents db"
  unfolding row_contents_def by (induction rule: list_all2_induct) (auto simp: row_grows_def)

lemma relay_inv:
  assumes inv: "pipe_inv seen s" and perm: "\<forall>xs. mset (ret xs) = mset xs"
    and r: "RelayOnce locked ret now (pl_relay s) = (st, result, err)"
  shows "pipe_inv seen (pl_relayed st s)"
proof -
  let ?db = "outbox (pl_games s)"
  have i: "outbox_inv (relay_db (pl_relay s))" using inv by (simp add: pipe_inv_def pl_relay_def)
  have g: "list_all2 row_grows (outbox_rows ?db) (outbox_rows (relay_db st))"
  proof (rule list_all2_mono)
    show "list_all2 (relay_rel now (js_sent (relay_js st))) (outbox_rows ?db) (outbox_rows (relay_db st))"
      using RelayOnce_step(1) [OF i _ r] perm by (simp add: pl_relay_def)
  qed (simp add: relay_rel_def)
  have "outbox_inv (relay_db st)" using outbox_inv_grows [OF _ g] i by (simp add: pl_relay_def)
  moreover have "pg_outbox.every_event (good_message seen) (pl_games (pl_relayed st s))"
    using every_event_rows [of "good_message seen" "pl_games s" "relay_db st"] row_contents_grows [OF g] inv
    by (simp add: pipe_inv_def pl_relayed_def)
  moreover have "\<exists>bytes. p = GamePayload bytes \<and> good_message seen (i, subject, bytes)"
    if m: "(subject, i, p) \<in> set (js_sent (relay_js st))" for subject i p
  proof -
    have "(subject, i, p) \<in> row_message ` set (outbox_rows ?db) \<union> set (js_sent (pl_js s))"
      using RelayOnce_sent [OF _ r] perm m by (auto simp: pl_relay_def)
    then show ?thesis
    proof
      assume "(subject, i, p) \<in> row_message ` set (outbox_rows ?db)"
      with inv show ?thesis by (auto simp: pipe_inv_def pg_outbox.every_event_def row_message_def row_contents_def)
    next
      assume "(subject, i, p) \<in> set (js_sent (pl_js s))"
      with inv show ?thesis unfolding pipe_inv_def by fastforce
    qed
  qed
  ultimately show ?thesis using inv by (auto simp: pipe_inv_def pl_relayed_def)
qed

lemma observe_inv:
  assumes inv: "pipe_inv seen s" and now: "zero_time < now"
    and o: "Observe Enqueue rnd now t1 t2 phase g r (pl_games s) = (games, res)"
    and seen': "seen' = (if phase = ''ChampSelect'' then insert (g, r) seen else seen)"
  shows "pipe_inv seen' (s\<lparr>pl_games := games\<rparr>)"
proof -
  have sub: "seen \<subseteq> seen'" by (auto simp: seen')
  obtain t q where t: "tracker_Observe phase g r (tracker (pl_games s)) = (t, q)" by (meson surj_pair)
  have ok: "tracker_ok (tracker (pl_games s))" "tracked seen (tracker (pl_games s))" using inv by (simp_all add: pipe_inv_def)
  note tr = tracked_Observe [OF t ok(2) seen']
  have "good_message seen (content ev)"
    if "tracker_Observe phase g r (tracker (pl_games s)) = (t0, Some tr)" "NewEventMetadata rnd now = Inr m"
      "newGameOutboxEvent tr m = Inr ev" for t0 tr m ev
    using new_event_good [OF that(2,3) now] tracked_Observe(3) [OF that(1) ok(2) refl ok(1) refl] by blast
  then have e: "pg_outbox.every_event (good_message seen) games"
    and tk: "tracker games = tracker (pl_games s) \<or> tracker games = t"
    using pg_outbox.every_event_Observe [OF o, of "good_message seen"] inv t by (auto simp: pipe_inv_def)
  have "pg_outbox.every_event (good_message seen') games"
    using e good_message_mono [OF _ sub] by (auto simp: pg_outbox.every_event_def)
  moreover have "outbox_inv (outbox games)"
    using Observe_outbox [of _ _ _ _ _ _ _ _ _ _ _ outbox_inv, OF o] outbox_inv_Enqueue inv
    by (auto simp: pipe_inv_def)
  moreover have "tracker_ok (tracker games)" "tracked seen' (tracker games)"
    using tk tr(1,2) ok sub by (auto simp: tracked_def)
  ultimately show ?thesis
    using inv sub good_message_mono [OF _ sub] unfolding pipe_inv_def by fastforce
qed

lemma deliver_inv:
  assumes inv: "pipe_inv seen s" and m: "(subject, i, GamePayload bytes) \<in> set (js_sent (pl_js s))"
    and h: "Handle (pg_game_events d t) subject bytes (pl_inbox s) = (inbox, out)"
  shows "pipe_inv seen (s\<lparr>pl_inbox := inbox\<rparr>)"
proof -
  from inv m have good: "good_message seen (i, subject, bytes)" unfolding pipe_inv_def by fastforce
  have "(k, gs_room x) \<in> seen" if "map_of (game_sessions inbox) k = Some x" for k x
    using pg_inbox.Handle_once(1) [OF h]
  proof (elim disjE exE conjE)
    assume "unchanged seen_keys game_sessions (pl_inbox s) inbox"
    with that inv show ?thesis by (simp add: pipe_inv_def unchanged_def)
  next
    fix ev assume a: "accepted subject bytes = Some ev" "applied seen_keys game_sessions (event_key d) (session_effect d) ev (pl_inbox s) inbox"
    from session_effect_rooms [OF _ that, of d ev "game_sessions (pl_inbox s)"] a good inv show ?thesis
      by (fastforce simp: applied_def good_message_def pipe_inv_def)
  qed
  with inv show ?thesis by (simp add: pipe_inv_def)
qed

lemma ProcessedCleanup_sessions: "ProcessedCleanup now db = (db', res) \<Longrightarrow> game_sessions db' = game_sessions db"
  by (auto simp: ProcessedCleanup_def DeleteProcessedBefore_def Let_def split: if_splits sum.splits prod.splits fault.splits)

lemma pipeline_inv: "pipeline_reach d seen s \<Longrightarrow> pipe_inv seen s"
proof (induction rule: pipeline_reach.induct)
  case (start db js inbox)
  then show ?case
    by (simp add: pipe_inv_def NewGameLifecycleService_def NewGameLifecycleTracker_def tracker_ok_def tracked_def
        outbox_inv_def pg_outbox.every_event_def row_contents_def)
next
  case (clean_outbox seen s now db res')
  then obtain P where p: "outbox_rows db = filter P (outbox_rows (outbox (pl_games s)))" using OutboxCleanup_rows by blast
  with clean_outbox.IH outbox_inv_filter [OF _ p] every_event_rows [OF _ row_contents_filter [OF p]] show ?case
    by (auto simp: pipe_inv_def)
next
  case (clean_inbox seen s now inbox deleted)
  then show ?case by (simp add: pipe_inv_def ProcessedCleanup_sessions)
qed (blast intro: relay_inv observe_inv deliver_inv)+

section \<open>From the client to the sessions\<close>

lemma accepted_event:
  assumes "accepted subject bytes = Some ev"
  shows "GeSubject ev = subject" "validateRepoGameEvent ev = None"
  using assms
  by (auto simp: accepted_def toRepositoryGameEvent_def validateRepoGameEvent_def validateGameEvent_None_iff
      ConsumerGameEvents_def SubjectGameStarted_def SubjectGameEnded_def IsZero_def split: if_splits sum.splits option.splits)

lemma healthy_process:
  assumes "inbox_faults db = []" "validateRepoGameEvent ev = None" "uuid_of d (GeEventID ev) = Inr i"
  shows "\<exists>db' b. process d t ev (apply_started d ev) db = (db', Inr b)"
proof (cases "claimEvent d t None ev db")
  case (Inl e)
  with assms(3) show ?thesis by (simp add: claimEvent_def split: if_splits)
next
  case (Inr p)
  with assms(1,2) show ?thesis
    by (cases p; cases "snd p") (auto simp: process_def apply_started_def fault_error_def Let_def)
qed

lemma started_message_recorded:
  assumes acc: "accepted SubjectGameStarted bytes = Some ev" and "inbox_faults db = []" "uuid_of d (GeEventID ev) = Inr i"
    and h: "Handle (pg_game_events d t) SubjectGameStarted bytes db = (db', out)"
  shows "out = Inr () \<and> event_key d ev \<in> seen_keys db' \<and> (event_key d ev \<in> seen_keys db \<or>
     (\<exists>g. map_of (game_sessions db') (GeGameID ev) = Some g \<and> gs_room g = GeRoomID ev))"
proof -
  note ev = accepted_event [OF acc]
  obtain db1 b where "process d t ev (apply_started d ev) db = (db1, Inr b)"
    using healthy_process [OF assms(2) ev(2) assms(3)] by blast
  then have out: "out = Inr ()"
    using acc h by (auto simp: accepted_def Handle_def handleGameStarted_def pg_game_events_def
        pg_ProcessGameStarted_def split: sum.splits option.splits)
  from pg_inbox.Handle_once(2) [OF h out] acc have key: "event_key d ev \<in> seen_keys db'" by auto
  from pg_inbox.Handle_once(1) [OF h]
  have "event_key d ev \<in> seen_keys db \<or> session_effect d ev (game_sessions db) = Some (game_sessions db')"
    using key acc by (auto simp: unchanged_def applied_def)
  moreover have "map_of gs' (GeGameID ev) \<noteq> None \<and> gs_room (the (map_of gs' (GeGameID ev))) = GeRoomID ev"
    if "session_effect d ev gs = Some gs'" for gs gs'
    using that ev(1)
    by (cases "map_of gs (GeGameID ev)") (auto simp: session_effect_def upsert_started_def map_of_update_sessions)
  ultimately show ?thesis using out key by fastforce
qed

lemma all_claimed:
  assumes "x \<in> set rows" "claimable locked now x" "length (filter (claimable locked now) rows) \<le> 50"
  shows "row_id x \<in> candidate_ids locked now rows"
proof -
  have "candidates locked now (nat outboxRelayBatchSize) rows =
      sort_key (\<lambda>x. (row_available_at x, row_created_at x)) (filter (claimable locked now) rows)"
    using assms(3) by (simp add: candidates_def outbox_consts)
  with assms(1,2) show ?thesis by (simp add: candidate_ids_def)
qed

lemma relayed_message:
  assumes perm: "\<And>xs. mset (ret xs) = mset xs" and inv: "outbox_inv (relay_db st)" and now: "zero_time < now"
    and ok: "outbox_faults (relay_db st) = []" "js_replies (relay_js st) = []"
    and run: "RelayOnce locked ret now st = (st', result, err)"
    and x: "x \<in> set (outbox_rows (relay_db st))" "claimable locked now x"
    and few: "length (filter (claimable locked now) (outbox_rows (relay_db st))) \<le> 50"
  shows "row_message x \<in> set (js_sent (relay_js st'))"
proof -
  let ?rows = "outbox_rows (relay_db st)"
  from x(1) obtain i where i: "i < length ?rows" "x = ?rows ! i" by (metis in_set_conv_nth)
  have "outbox_rows (relay_db st') ! i = publish_row now x"
    using healthy_relay_cycle [OF perm inv now ok run] i all_claimed [OF x few] by simp
  moreover have "relay_rel now (js_sent (relay_js st')) (?rows ! i) (outbox_rows (relay_db st') ! i)"
    using RelayOnce_step(1) [OF inv perm run] i(1) by (simp add: list_all2_conv_all_nth)
  ultimately show ?thesis using x(2) i(2) by (simp add: relay_rel_def publish_row_def claimable_def row_message_def)
qed

section \<open>An example run\<close>

definition ex_rnd :: "go_error + 8 word list" where
  "ex_rnd = Inr (replicate 16 0)"

definition ex_pipe0 :: pipeline where
  "ex_pipe0 = \<lparr>pl_games = NewGameLifecycleService \<lparr>outbox_rows = [], outbox_faults = []\<rparr>,
     pl_js = \<lparr>js_sent = [], js_replies = []\<rparr>, pl_labels = [], pl_inbox = ex_inbox\<rparr>"

definition ex_pipe1 :: pipeline where
  "ex_pipe1 = ex_pipe0\<lparr>pl_games := fst (Observe Enqueue ex_rnd 5 6 6 ''ChampSelect'' 7 ''7-1'' (pl_games ex_pipe0))\<rparr>"

definition ex_pipe2 :: pipeline where
  "ex_pipe2 = ex_pipe1\<lparr>pl_games := fst (Observe Enqueue ex_rnd 8 9 9 ''InProgress'' 0 [] (pl_games ex_pipe1))\<rparr>"

definition ex_pipe3 :: pipeline where
  "ex_pipe3 = pl_relayed (fst (RelayOnce (\<lambda>_. False) id 10 (pl_relay ex_pipe2))) ex_pipe2"

definition ex_bytes :: game_payload where
  "ex_bytes = row_payload (hd (outbox_rows (outbox (pl_games ex_pipe2))))"

definition ex_pipe4 :: pipeline where
  "ex_pipe4 = ex_pipe3\<lparr>pl_inbox := fst (Handle (pg_game_events ex_driver 11) SubjectGameStarted ex_bytes (pl_inbox ex_pipe3))\<rparr>"

lemma ex_pipe2_reach: "pipeline_reach ex_driver {(7, ''7-1'')} ex_pipe2"
proof -
  have "pipeline_reach ex_driver {} ex_pipe0"
    unfolding ex_pipe0_def by (rule pipeline_reach.start) (simp_all add: ex_inbox_def)
  then have "pipeline_reach ex_driver {(7, ''7-1'')} ex_pipe1"
    unfolding ex_pipe1_def by (rule pipeline_reach.observe [OF _ _ prod.collapse [symmetric]]) simp_all
  then show ?thesis
    unfolding ex_pipe2_def by (rule pipeline_reach.observe [OF _ _ prod.collapse [symmetric]]) simp_all
qed

lemma ex_pipe3_reach: "pipeline_reach ex_driver {(7, ''7-1'')} ex_pipe3"
proof -
  obtain st result err where r: "RelayOnce (\<lambda>_. False) id 10 (pl_relay ex_pipe2) = (st, result, err)"
    by (metis prod_cases3)
  from pipeline_reach.relay [OF ex_pipe2_reach _ r] show ?thesis by (simp add: ex_pipe3_def r)
qed

lemma ex_pipe3_sent: "map (\<lambda>(subject, i, p). (subject, p)) (js_sent (pl_js ex_pipe3)) = [(SubjectGameStarted, GamePayload ex_bytes)]"
  by code_simp

lemma ex_pipe4_sessions: "map fst (game_sessions (pl_inbox ex_pipe4)) = [7]"
  by code_simp

section \<open>Properties\<close>

text \<open>
  C22: only well-formed events travel between the parts. In every reachable state of the
  server, whatever failed on the way, each message that the relay handed to JetStream is
  accepted by the consumer: it decodes and validates to an event with the message's own
  identifier, about a game and room that were observed in Champion Select. No relayed event can
  become a dead letter for its content.
\<close>

theorem relayed_events_are_accepted:
  assumes "pipeline_reach d seen s" "(subject, i, p) \<in> set (js_sent (pl_js s))"
  shows "\<exists>bytes ev. p = GamePayload bytes \<and> accepted subject bytes = Some ev \<and> GeEventID ev = i \<and>
    GeSubject ev = subject \<and> (GeGameID ev, GeRoomID ev) \<in> seen"
proof -
  from pipeline_inv [OF assms(1)] assms(2) obtain bytes where "p = GamePayload bytes" "good_message seen (i, subject, bytes)"
    unfolding pipe_inv_def by fastforce
  then show ?thesis using accepted_event(1) by (auto simp: good_message_def)
qed

theorem relayed_events_are_accepted_witness:
  "\<exists>ev. accepted SubjectGameStarted ex_bytes = Some ev \<and> (GeGameID ev, GeRoomID ev) = (7, ''7-1'')"
proof -
  from ex_pipe3_sent obtain i where "(SubjectGameStarted, i, GamePayload ex_bytes) \<in> set (js_sent (pl_js ex_pipe3))"
    by auto
  from relayed_events_are_accepted [OF ex_pipe3_reach this] show ?thesis by auto
qed

text \<open>
  The server invents no games. Whatever is observed, relayed, repeated or lost, every
  recorded session is of a game and room that the League client showed in Champion Select.
\<close>

theorem sessions_were_observed:
  assumes "pipeline_reach d seen s" "map_of (game_sessions (pl_inbox s)) k = Some x"
  shows "(k, gs_room x) \<in> seen"
  using pipeline_inv [OF assms(1)] assms(2) by (simp add: pipe_inv_def)

theorem sessions_were_observed_witness:
  "\<exists>x. map_of (game_sessions (pl_inbox ex_pipe4)) 7 = Some x \<and> (7, gs_room x) = (7, ''7-1'')"
proof -
  from ex_pipe3_sent obtain i where m: "(SubjectGameStarted, i, GamePayload ex_bytes) \<in> set (js_sent (pl_js ex_pipe3))"
    by auto
  have r: "pipeline_reach ex_driver {(7, ''7-1'')} ex_pipe4"
    unfolding ex_pipe4_def by (rule pipeline_reach.deliver [OF ex_pipe3_reach m prod.collapse [symmetric]])
  from ex_pipe4_sessions obtain x where "game_sessions (pl_inbox ex_pipe4) = [(7, x)]"
    by (cases "game_sessions (pl_inbox ex_pipe4)") auto
  then have "map_of (game_sessions (pl_inbox ex_pipe4)) 7 = Some x" by simp
  from this sessions_were_observed [OF r this] show ?thesis by simp
qed

text \<open>
  C8: a started game reaches the sessions. In any reachable state, when the services answer,
  one relay cycle and one delivery are enough: a due start event, with at most a batch of rows
  due, is handed to JetStream, the consumer processes it without error and records its key, and
  unless the event was processed before, the session of its game has its room.
\<close>

theorem started_game_reaches_the_sessions:
  assumes "pipeline_reach d seen s" "\<And>xs. mset (ret xs) = mset xs" "zero_time < now"
    and "outbox_faults (outbox (pl_games s)) = []" "js_replies (pl_js s) = []" "inbox_faults (pl_inbox s) = []"
    and "x \<in> set (outbox_rows (outbox (pl_games s)))" "row_subject x = SubjectGameStarted" "claimable locked now x"
    and "length (filter (claimable locked now) (outbox_rows (outbox (pl_games s)))) \<le> 50"
    and "uuid_of d (row_id x) = Inr u"
    and "RelayOnce locked ret now (pl_relay s) = (st, result, err)"
    and "Handle (pg_game_events d t) SubjectGameStarted (row_payload x) (pl_inbox s) = (inbox, out)"
  shows "(SubjectGameStarted, row_id x, GamePayload (row_payload x)) \<in> set (js_sent (relay_js st)) \<and> out = Inr () \<and>
    (\<exists>ev. accepted SubjectGameStarted (row_payload x) = Some ev \<and> event_key d ev \<in> seen_keys inbox \<and>
      (event_key d ev \<in> seen_keys (pl_inbox s) \<or>
       (\<exists>g. map_of (game_sessions inbox) (GeGameID ev) = Some g \<and> gs_room g = GeRoomID ev)))"
proof -
  note inv = pipeline_inv [OF assms(1)]
  have "row_message x \<in> set (js_sent (relay_js st))"
    using relayed_message [OF assms(2) _ assms(3) _ _ assms(12), of x] inv assms(4-10)
    by (simp add: pl_relay_def pipe_inv_def)
  moreover from inv assms(7,8) have "good_message seen (row_id x, SubjectGameStarted, row_payload x)"
    by (force simp: pipe_inv_def pg_outbox.every_event_def row_contents_def)
  then obtain ev where ev: "accepted SubjectGameStarted (row_payload x) = Some ev" "GeEventID ev = row_id x"
    by (auto simp: good_message_def)
  ultimately show ?thesis
    using started_message_recorded [OF ev(1) assms(6) _ assms(13)] ev assms(8,11) by (auto simp: row_message_def)
qed

theorem started_game_reaches_the_sessions_witness:
  "snd (Handle (pg_game_events ex_driver 11) SubjectGameStarted ex_bytes (pl_inbox ex_pipe2)) = Inr ()"
proof -
  let ?x = "hd (outbox_rows (outbox (pl_games ex_pipe2)))"
  obtain st result err where r: "RelayOnce (\<lambda>_. False) id 10 (pl_relay ex_pipe2) = (st, result, err)"
    by (metis prod_cases3)
  obtain inbox out where h: "Handle (pg_game_events ex_driver 11) SubjectGameStarted (row_payload ?x) (pl_inbox ex_pipe2) = (inbox, out)"
    by (meson surj_pair)
  have one: "length (outbox_rows (outbox (pl_games ex_pipe2))) = 1" by code_simp
  then obtain y where y: "outbox_rows (outbox (pl_games ex_pipe2)) = [y]" by (cases "outbox_rows (outbox (pl_games ex_pipe2))") auto
  have "row_subject ?x = SubjectGameStarted" by code_simp
  moreover have "claimable (\<lambda>_. False) 10 ?x" by code_simp
  moreover have "outbox_faults (outbox (pl_games ex_pipe2)) = []" by code_simp
  moreover have "js_replies (pl_js ex_pipe2) = []" by code_simp
  moreover have "inbox_faults (pl_inbox ex_pipe2) = []" by code_simp
  ultimately have "out = Inr ()"
    using started_game_reaches_the_sessions [OF ex_pipe2_reach _ _ _ _ _ _ _ _ _ _ r h] y
    by (simp add: ex_driver_def)
  with h show ?thesis by (simp add: ex_bytes_def)
qed

end
