(* ===== verification/Server.thy ===== *)
theory Server
  imports Hub Http Lcu
begin

text \<open>
  The running server: its multiplexer (\<open>internal/app/run.go\<close>) with every endpoint behind the
  middleware, and the system of everything that works on the rooms and the WebSocket clients at
  run time.
\<close>

section \<open>The multiplexer\<close>

text \<open>
  \<open>http.ServeMux\<close> for patterns without methods and hosts, on paths without escapes and methods
  other than CONNECT: a pattern with a final slash stands for its subtree, the longest match
  wins, and a path that is not clean, or lacks the slash of a subtree, is redirected.
  \<open>redirect\<close> is the status of such an answer, the printed URL of a path with the query of a
  request, and the page that names a URL.
\<close>

type_synonym redirection = "int \<times> (http_request \<Rightarrow> string \<Rightarrow> string) \<times> (string \<Rightarrow> string)"

definition matches :: "string \<Rightarrow> string \<Rightarrow> bool" where
  "matches path pat = (if last pat = CHR ''/'' then HasPrefix pat path else pat = path)"

fun best_match :: "string \<Rightarrow> (string \<times> 'h) list \<Rightarrow> (string \<times> 'h) option" where
  "best_match path [] = None"
| "best_match path ((pat, h) # routes) =
     (case best_match path routes of
        None \<Rightarrow> if matches path pat then Some (pat, h) else None
      | Some (pat', h') \<Rightarrow>
          if matches path pat \<and> length pat' \<le> length pat then Some (pat, h) else Some (pat', h'))"

definition http_Redirect :: "redirection \<Rightarrow> string \<Rightarrow> http_request \<Rightarrow> rw_action list" where
  "http_Redirect redirect path req =
     (case redirect of (code, url, page) \<Rightarrow>
        SetHeader ''Location'' (url req path) #
        (if Method req = ''GET'' \<or> Method req = ''HEAD''
         then [SetHeader ''Content-Type'' ''text/html; charset=utf-8''] else []) @
        [WriteHeader code] @
        (if Method req = ''GET'' then [WriteBody (TextBody (page (url req path)))] else []))"

definition ServeMux :: "redirection \<Rightarrow> (string \<times> 'st handler) list \<Rightarrow> 'st handler" where
  "ServeMux redirect routes req st =
     (let path = cleanPath (URLPath req); registered = map fst routes
      in if path \<notin> set registered \<and> last path \<noteq> CHR ''/'' \<and> path @ ''/'' \<in> set registered
         then (st, http_Redirect redirect (path @ ''/'') req, False)
         else if path \<noteq> URLPath req then (st, http_Redirect redirect path req, False)
         else case best_match path routes of
                None \<Rightarrow> (st, http_NotFound, False)
              | Some (pat, h) \<Rightarrow> h req st)"

section \<open>The endpoints\<close>

text \<open>
  What a request meets: clock readings, the outcome of its encoding, the pings of the
  dependencies, and for a WebSocket the upgrade with the reply to a failed one, the outcomes of
  the writes and the setting of the deadline.
\<close>

record request_env =
  re_now :: time
  re_saved :: time
  re_enc :: fault
  re_pg :: "go_error option option"
  re_redis :: "go_error option option"
  re_upgrade :: "go_error option"
  re_upgrade_reply :: "rw_action list"
  re_writes :: "fault list"
  re_deadline :: "go_error option"

definition on_rooms :: "'s room_service handler \<Rightarrow> ('s room_service \<times> hub) handler" where
  "on_rooms h req = (\<lambda>(st, hb). let (st', out) = h req st in ((st', hb), out))"

text \<open>A session that was upgraded has left HTTP.\<close>

definition ws_reply :: "request_env \<Rightarrow> ws_outcome \<Rightarrow> rw_action list" where
  "ws_reply env out =
     (case out of
        WsBadRequest \<Rightarrow> http_Error ''roomId is required'' 400
      | WsNotUpgraded \<Rightarrow> re_upgrade_reply env
      | _ \<Rightarrow> [])"

definition ws_handler :: "'s room_repo \<Rightarrow> request_env \<Rightarrow> ('s room_service \<times> hub) handler" where
  "ws_handler r env req sh =
     (let (sh', out) = HandleWebSocket r (QueryRoomId req) (re_upgrade env) (re_writes env) (re_deadline env) sh
      in (sh', ws_reply env out, False))"

definition ws_current_handler :: "request_env \<Rightarrow> ('s room_service \<times> hub) handler" where
  "ws_current_handler env req sh =
     (let (sh', out) = HandleCurrentRoomWebSocket (re_upgrade env) (re_writes env) sh
      in (sh', ws_reply env out, False))"

text \<open>\<open>lib\<close> are the two handlers of libraries: they only answer.\<close>

definition app_routes ::
  "'s room_repo \<Rightarrow> (http_request \<Rightarrow> rw_action list) \<Rightarrow> request_env \<Rightarrow> (string \<times> ('s room_service \<times> hub) handler) list" where
  "app_routes r lib env =
     [(''/rooms/'', on_rooms (HandleRooms r (re_now env) (re_saved env) (re_enc env))),
      (''/health'', on_rooms (Health (re_enc env))),
      (''/ready'', on_rooms (Ready (re_pg env) (re_redis env) (re_enc env))),
      (''/metrics'', (\<lambda>req sh. (sh, lib req, False))),
      (''/swagger/'', (\<lambda>req sh. (sh, lib req, False))),
      (''/ws'', ws_handler r env),
      (''/current-room'', on_rooms (http_GetCurrentRoom (re_enc env))),
      (''/ws/current-room'', ws_current_handler env)]"

definition app_handler ::
  "redirection \<Rightarrow> 's room_repo \<Rightarrow> (http_request \<Rightarrow> rw_action list) \<Rightarrow> request_env \<Rightarrow>
   (('s room_service \<times> hub) \<times> (string \<times> string \<times> int) list) handler" where
  "app_handler redirect r lib env = server_handler (ServeMux redirect (app_routes r lib env))"

section \<open>The system\<close>

record ('s, 'c, 'o) server =
  srv_sync :: "('s, 'c, 'o) sync_state"
  srv_hub :: hub
  srv_log :: "(string \<times> string \<times> int) list"

abbreviation srv_rooms :: "('s, 'c, 'o) server \<Rightarrow> 's room_service" where
  "srv_rooms s \<equiv> sync_rooms (srv_sync s)"

abbreviation (input) set_rooms :: "'s room_service \<Rightarrow> ('s, 'c, 'o) server \<Rightarrow> ('s, 'c, 'o) server" where
  "set_rooms st s \<equiv> s\<lparr>srv_sync := (srv_sync s)\<lparr>sync_rooms := st\<rparr>\<rparr>"

text \<open>
  Requests, the two jobs on the rooms, notifications from NATS (with any bytes, late or
  repeated), pings, and connections that end.
\<close>

inductive serve_step :: "'s room_repo \<Rightarrow> ('s, 'c, 'o) server \<Rightarrow> ('s, 'c, 'o) server \<Rightarrow> bool" for r where
  request: "app_handler redirect r lib env req ((srv_rooms s, srv_hub s), srv_log s) = (((st, hb), log), acts, panicked) \<Longrightarrow>
    0 \<le> re_now env \<Longrightarrow> serve_step r s ((set_rooms st s)\<lparr>srv_hub := hb, srv_log := log\<rparr>)"
| refresh: "RefreshCooldowns r clock (srv_rooms s) = (st, res) \<Longrightarrow> serve_step r s (set_rooms st s)"
| expire: "cleanupOldRooms r now (srv_rooms s) = (st, out) \<Longrightarrow> serve_step r s (set_rooms st s)"
| room_updated: "handleRoomUpdated r data (srv_rooms s, srv_hub s) = (st, hb) \<Longrightarrow>
    serve_step r s ((set_rooms st s)\<lparr>srv_hub := hb\<rparr>)"
| current_changed: "serve_step r s (s\<lparr>srv_hub := handleCurrentRoomChanged data (srv_hub s)\<rparr>)"
| new_context: "serve_step r s (set_rooms ((srv_rooms s)\<lparr>ctx_polls := ps\<rparr>) s)"
| ping: "c < next_socket (srv_hub s) \<Longrightarrow> ws_room (sockets (srv_hub s) c) = Some i \<Longrightarrow>
    ping_tick c (srv_hub s) = (hb, go_on) \<Longrightarrow> serve_step r s (s\<lparr>srv_hub := hb\<rparr>)"
| disconnect: "c < next_socket (srv_hub s) \<Longrightarrow> serve_step r s (s\<lparr>srv_hub := end_session c (srv_hub s)\<rparr>)"

text \<open>And the ticks of the League client.\<close>

inductive server_step ::
  "'s room_repo \<Rightarrow> (int \<Rightarrow> 'c \<Rightarrow> 'c \<times> (go_error + champion_info)) \<Rightarrow> 'o enqueue \<Rightarrow>
   ('s, 'c, 'o) server \<Rightarrow> ('s, 'c, 'o) server \<Rightarrow> bool" for r cat enq where
  serve: "serve_step r s s' \<Longrightarrow> server_step r cat enq s s'"
| tick: "(\<And>session. selecting i (sync_lol (srv_sync s)) session \<Longrightarrow> distinct (member_ids session)) \<Longrightarrow>
    server_step r cat enq s (s\<lparr>srv_sync := champ_select_tick r cat enq i (srv_sync s)\<rparr>)"

section \<open>What clients are told\<close>

text \<open>
  A client of a room is told that room, well-formed, and is pinged; a client of the current room
  is told current rooms. Nothing else is ever sent.
\<close>

definition fits :: "string option \<Rightarrow> ws_message \<Rightarrow> bool" where
  "fits ro m =
     (case m of
        RoomUpdateMessage x \<Rightarrow> ro = Some (Id x) \<and> room_ok x
      | CurrentRoomMessage i \<Rightarrow> ro = None
      | PingMessage \<Rightarrow> ro \<noteq> None
      | RawMessage t \<Rightarrow> False)"

lemma fits_simps [simp]:
  "fits ro (RoomUpdateMessage x) \<longleftrightarrow> ro = Some (Id x) \<and> room_ok x"
  "fits ro (CurrentRoomMessage i) \<longleftrightarrow> ro = None" "fits ro PingMessage \<longleftrightarrow> ro \<noteq> None" "\<not> fits ro (RawMessage t)"
  by (simp_all add: fits_def)

definition hub_fits :: "hub \<Rightarrow> bool" where
  "hub_fits h \<longleftrightarrow> (\<forall>c. \<forall>m \<in> set (ws_messages (sockets h c)). fits (ws_room (sockets h c)) m)"

lemma hub_fits_frame [simp]:
  "hub_fits (addClient i c h) = hub_fits h" "hub_fits (addCurrentRoomClient c h) = hub_fits h"
  "hub_fits (removeClient i c h) = hub_fits h" "hub_fits (removeCurrentRoomClient c h) = hub_fits h"
  by (auto simp: hub_fits_def)

lemma hub_fits_accept: "accept ro fs h = (c, h1) \<Longrightarrow> hub_fits h \<Longrightarrow> hub_fits h1"
  by (auto simp: hub_fits_def accept_def)

definition client_fits :: "ws_client \<Rightarrow> bool" where
  "client_fits cl \<longleftrightarrow> (\<forall>m \<in> set (ws_messages cl). fits (ws_room cl) m)"

lemma client_fits_told: "told m cl cl' \<Longrightarrow> client_fits cl \<Longrightarrow> fits (ws_room cl) m \<Longrightarrow> client_fits cl'"
  by (auto simp: told_def client_fits_def)

lemma hub_fits_clients: "hub_fits h \<longleftrightarrow> (\<forall>c. client_fits (sockets h c))"
  by (simp add: hub_fits_def client_fits_def)

lemma hub_fits_write:
  assumes "WriteMessage c m h = (h', res)" "hub_fits h" "fits (ws_room (sockets h c)) m"
  shows "hub_fits h'"
  unfolding hub_fits_clients
proof
  fix k
  from assms(2) have old: "client_fits (sockets h k)" by (simp add: hub_fits_clients)
  show "client_fits (sockets h' k)"
  proof (cases "k = c")
    case True
    have "ws_messages (sockets h' c) = ws_messages (sockets h c) @ [m] \<or> ws_messages (sockets h' c) = ws_messages (sockets h c)"
      using write_messages [OF assms(1)] by (auto split: if_splits)
    moreover have "ws_room (sockets h' c) = ws_room (sockets h c)" using write_frame [OF assms(1)] by simp
    ultimately show ?thesis using old assms(3) True by (auto simp: client_fits_def)
  next
    case False
    then have "sockets h' k = sockets h k" using write_frame [OF assms(1)] by simp
    with old show ?thesis by simp
  qed
qed

lemma hub_fits_broadcast:
  assumes "broadcast_done ro m h h'" "hub_fits h" "fits ro m"
  shows "hub_fits h'"
  unfolding hub_fits_clients
proof
  fix c
  from assms(2) have old: "client_fits (sockets h c)" by (simp add: hub_fits_clients)
  show "client_fits (sockets h' c)"
  proof (cases "serves h ro c")
    case True
    then have "told m (sockets h c) (sockets h' c)" "ws_room (sockets h c) = ro"
      using assms(1) by (simp_all add: broadcast_done_def serves_def)
    with client_fits_told old assms(3) show ?thesis by blast
  next
    case False
    with assms(1) have "sockets h' c = sockets h c" by (simp add: broadcast_done_def)
    with old show ?thesis by simp
  qed
qed

lemma broadcast_hub_ok: "broadcast_done ro m h h' \<Longrightarrow> hub_ok h \<Longrightarrow> hub_ok h'"
  using hub_steps_ok by (auto simp: broadcast_done_def)

definition hub_inv :: "hub \<Rightarrow> bool" where
  "hub_inv h \<longleftrightarrow> hub_ok h \<and> hub_fits h"

lemma hub_inv_write:
  "WriteMessage c m h = (h', res) \<Longrightarrow> hub_inv h \<Longrightarrow> c < next_socket h \<Longrightarrow> fits (ws_room (sockets h c)) m \<Longrightarrow> hub_inv h'"
  using hub_step_ok [OF hub_step.message] hub_fits_write by (auto simp: hub_inv_def)

lemma hub_inv_leave:
  "hub_inv h \<Longrightarrow> c < next_socket h \<Longrightarrow> ws_room (sockets h c) = Some i \<Longrightarrow> hub_inv (removeClient i c h)"
  "hub_inv h \<Longrightarrow> c < next_socket h \<Longrightarrow> ws_room (sockets h c) = None \<Longrightarrow> hub_inv (removeCurrentRoomClient c h)"
  using hub_step_ok [OF hub_step.leave] hub_step_ok [OF hub_step.leave_current] by (auto simp: hub_inv_def)

lemma hub_inv_join:
  assumes "accept ro fs h = (c, h1)" "hub_inv h"
  shows "ro = Some i \<Longrightarrow> hub_inv (addClient i c h1)" "ro = None \<Longrightarrow> hub_inv (addCurrentRoomClient c h1)"
    "c < next_socket h1" "ws_room (sockets h1 c) = ro"
  using assms hub_step_ok [OF hub_step.join] hub_step_ok [OF hub_step.join_current] hub_fits_accept accept_frame [OF assms(1)]
  by (auto simp: hub_inv_def)

lemma hub_inv_session_end: "hub_inv h \<Longrightarrow> c < next_socket h \<Longrightarrow> hub_inv (end_session c h)"
  by (simp add: end_session_def hub_inv_leave split: option.split)

lemma hub_inv_ping:
  "ping_tick c h = (h', b) \<Longrightarrow> hub_inv h \<Longrightarrow> c < next_socket h \<Longrightarrow> ws_room (sockets h c) = Some i \<Longrightarrow> hub_inv h'"
  by (auto simp: ping_tick_def split: prod.splits sum.splits intro: hub_inv_write)

lemma hub_inv_current_changed: "hub_inv h \<Longrightarrow> hub_inv (handleCurrentRoomChanged data h)"
  using broadcasts(3) [of h] hub_fits_broadcast broadcast_hub_ok
  by (fastforce simp: handleCurrentRoomChanged_def hub_inv_def split: sum.split)

lemma hub_inv_room_update: "hub_inv h \<Longrightarrow> room_ok x \<Longrightarrow> hub_inv (BroadcastRoomUpdate (Some x) h)"
  using broadcasts(2) [of h x] hub_fits_broadcast broadcast_hub_ok by (fastforce simp: hub_inv_def)

lemma HandleCurrentRoomWebSocket_inv:
  assumes "HandleCurrentRoomWebSocket upgrade fs (st, h) = ((st', h'), out)" "hub_inv h"
  shows "st' = st \<and> hub_inv h'"
proof (cases "upgrade = None")
  case True
  obtain c h1 where a: "accept None fs h = (c, h1)" by (meson surj_pair)
  note j = hub_inv_join [OF a assms(2)]
  obtain h3 res where w: "WriteMessage c (CurrentRoomMessage (GetCurrentRoomID st)) (addCurrentRoomClient c h1) = (h3, res)"
    by (meson surj_pair)
  note f = write_frame [OF w]
  have "hub_inv h3" by (rule hub_inv_write [OF w]) (use j in simp_all)
  with True a w f j hub_inv_leave(2) [of h3 c] assms(1) show ?thesis
    by (auto simp: HandleCurrentRoomWebSocket_def writeCurrentRoom_def split: sum.splits)
next
  case False
  with assms show ?thesis by (auto simp: HandleCurrentRoomWebSocket_def)
qed

section \<open>The invariant\<close>

text \<open>A post to one of the two endpoints that change a room.\<close>

definition room_post :: "http_request \<Rightarrow> bool" where
  "room_post req \<longleftrightarrow> Method req = ''POST'' \<and> (\<exists>i. CHR ''/'' \<notin> set i \<and>
     (URLPath req = ''/rooms/'' @ i @ ''/players'' \<or> URLPath req = ''/rooms/'' @ i @ ''/spells/toggle''))"

lemma parts_path:
  assumes "split_at (CHR ''/'') rest = i # ws"
  shows "rest = join_with ''/'' (i # ws) \<and> CHR ''/'' \<notin> set i"
  using split_at_join [of "CHR ''/''" rest] split_at_words [of i "CHR ''/''" rest] assms by simp

lemma best_match_longest:
  "best_match path routes = Some (pat, h) \<Longrightarrow> (q, k) \<in> set routes \<Longrightarrow> matches path q \<Longrightarrow> length q \<le> length pat"
proof (induction path routes arbitrary: pat h rule: best_match.induct)
  case (2 path p h' routes)
  show ?case
  proof (cases "best_match path routes")
    case None
    have "\<not> matches path q" if "(q, k) \<in> set routes" for q k
      using None that by (induction path routes rule: best_match.induct) (auto split: option.splits if_splits)
    with 2 None show ?thesis by (auto split: if_splits)
  next
    case (Some m)
    with 2 show ?thesis by (cases m) (fastforce split: if_splits)
  qed
qed simp

lemma best_match_Some: "best_match path routes = Some (pat, h) \<Longrightarrow> (pat, h) \<in> set routes \<and> matches path pat"
  by (induction path routes rule: best_match.induct) (auto split: option.splits if_splits)

lemma ServeMux_state:
  assumes "fst (ServeMux redirect routes req st) = st'" "P st"
    and "\<And>pat h. (pat, h) \<in> set routes \<Longrightarrow> matches (URLPath req) pat \<Longrightarrow> P (fst (h req st))"
  shows "P st'"
proof (cases "cleanPath (URLPath req) = URLPath req \<and> (\<exists>pat h. best_match (URLPath req) routes = Some (pat, h))")
  case True
  then obtain pat h where b: "best_match (URLPath req) routes = Some (pat, h)" by blast
  from assms(3) [OF best_match_Some [OF b, THEN conjunct1] best_match_Some [OF b, THEN conjunct2]]
  show ?thesis using assms(1,2) b True by (auto simp: ServeMux_def Let_def split: if_splits)
next
  case False
  then have "st' = st" using assms(1) by (auto simp: ServeMux_def Let_def split: if_splits option.splits)
  with assms(2) show ?thesis by simp
qed

context room_service
begin

lemma snapshot_room:
  assumes "sinv st" "GetRoomSnapshot r i st = (st', res)"
  shows "sinv st'" "sview st' = sview st" "res = Inr (Some x) \<Longrightarrow> Id x = i \<and> room_ok x"
proof -
  obtain s q where g: "repo_get r i (repo_state st) = (s, q)" by (meson surj_pair)
  note gs = get_step [OF assms(1) g]
  from assms(2) g have "st' = st\<lparr>repo_state := s\<rparr>" by (auto simp: GetRoomSnapshot_def split: sum.splits)
  with gs(1,2) show "sinv st'" "sview st' = sview st" by simp_all
  show "res = Inr (Some x) \<Longrightarrow> Id x = i \<and> room_ok x"
    using assms(2) g gs(4) by (auto simp: GetRoomSnapshot_def split: sum.splits)
qed

text \<open>What every endpoint keeps: the rooms as they are, and the invariants.\<close>

definition endpoint_ok :: "'s room_service \<times> hub \<Rightarrow> 's room_service \<times> hub \<Rightarrow> bool" where
  "endpoint_ok = (\<lambda>(st, h) (st', h'). sinv st' \<and> hub_inv h' \<and> sview st' = sview st)"

lemma HandleWebSocket_ok:
  assumes "sinv st" "hub_inv h" "HandleWebSocket r i upgrade fs deadline (st, h) = (sh', out)"
  shows "endpoint_ok (st, h) sh'"
proof (cases "i = [] \<or> upgrade \<noteq> None")
  case True
  with assms show ?thesis by (auto simp: HandleWebSocket_def endpoint_ok_def split: if_splits)
next
  case False
  obtain c h1 where a: "accept (Some i) fs h = (c, h1)" by (meson surj_pair)
  note j = hub_inv_join [OF a assms(2)]
  obtain st1 q where g: "GetRoomSnapshot r i st = (st1, q)" by (meson surj_pair)
  note gs = snapshot_room [OF assms(1) g]
  have j2: "hub_inv (addClient i c h1)" "c < next_socket (addClient i c h1)" "ws_room (sockets (addClient i c h1) c) = Some i"
    using j by simp_all
  show ?thesis
  proof (cases "\<exists>x. q = Inr (Some x)")
    case False
    with \<open>\<not> (i = [] \<or> upgrade \<noteq> None)\<close> assms(3) a g have "sh' = (st1, removeClient i c (addClient i c h1))"
      by (auto simp: HandleWebSocket_def Let_def split: sum.splits option.splits)
    with gs(1,2) hub_inv_leave(1) [OF j2] show ?thesis by (simp add: endpoint_ok_def)
  next
    case True
    then obtain x where x: "q = Inr (Some x)" by blast
    obtain h3 res where w: "WriteMessage c (RoomUpdateMessage x) (addClient i c h1) = (h3, res)" by (meson surj_pair)
    have h3: "hub_inv h3" by (rule hub_inv_write [OF w]) (use j2 gs(3) [OF x] in simp_all)
    have "hub_inv (removeClient i c h3)"
      by (rule hub_inv_leave(1) [OF h3]) (use write_frame [OF w] j2 in simp_all)
    moreover have "sh' = (st1, if isl res \<or> deadline \<noteq> None then removeClient i c h3 else h3)"
      using \<open>\<not> (i = [] \<or> upgrade \<noteq> None)\<close> assms(3) a g x w
      by (auto simp: HandleWebSocket_def writeRoomUpdate_Some Let_def split: sum.splits if_splits)
    ultimately show ?thesis using gs(1,2) h3 by (simp add: endpoint_ok_def)
  qed
qed

lemma handleRoomUpdated_ok:
  assumes "sinv st" "hub_inv h" "handleRoomUpdated r data (st, h) = sh'"
  shows "endpoint_ok (st, h) sh'"
proof (cases "unmarshal_room_event data")
  case (Inl e)
  with assms show ?thesis by (auto simp: handleRoomUpdated_def endpoint_ok_def)
next
  case (Inr ev)
  obtain st1 q where g: "GetRoomSnapshot r (EventRoomID ev) st = (st1, q)" by (meson surj_pair)
  note gs = snapshot_room [OF assms(1) g]
  show ?thesis
  proof (cases "EventRoomID ev = []")
    case True
    with Inr assms show ?thesis by (auto simp: handleRoomUpdated_def endpoint_ok_def)
  next
    case False
    with Inr g assms(3) have "sh' = (st1, case q of Inr (Some x) \<Rightarrow> BroadcastRoomUpdate (Some x) h | _ \<Rightarrow> h)"
      by (auto simp: handleRoomUpdated_def split: sum.splits option.splits)
    with gs hub_inv_room_update [OF assms(2)] assms(2) show ?thesis
      by (auto simp: endpoint_ok_def split: sum.split option.split)
  qed
qed

lemma HandleRooms_ok:
  assumes "sinv st" "0 \<le> now" "HandleRooms r now saved enc req st = (st', out)" "matches (URLPath req) ''/rooms/''"
  shows "sinv st' \<and> (sview st' = sview st \<or> room_post req)"
proof
  obtain acts p where out: "out = (acts, p)" by (cases out)
  show "sinv st'" using HandleRooms_inv assms(1-3) out by blast
  obtain rest where path: "URLPath req = ''/rooms/'' @ rest"
    using assms(4) by (metis HasPrefix_def append_take_drop_id last.simps list.discI matches_def)
  obtain i ws where parts: "split_at (CHR ''/'') rest = i # ws" by (metis list.exhaust split_at_not_Nil)
  note pp = parts_path [OF parts]
  have t: "TrimPrefix ''/rooms/'' (URLPath req) = rest" unfolding path by (rule TrimPrefix_append)
  consider (get) "http_GetRoom r enc req st = (st', out)" | (add) "ws = [''players'']" "http_AddPlayer r saved req st = (st', out)"
    | (toggle) "ws = [''spells'', ''toggle'']" "http_ToggleSpell r now saved req st = (st', out)" | (none) "st' = st"
    using assms(3) parts unfolding HandleRooms_def t Let_def
    by (cases ws rule: remdups_adj.cases) (auto split: if_splits simp: length_Suc_conv)
  then show "sview st' = sview st \<or> room_post req"
  proof cases
    case get
    obtain st1 q where g: "GetRoomSnapshot r (getRoomIdFromPath req) st = (st1, q)" by (meson surj_pair)
    with get have "st' = st1" by (auto simp: http_GetRoom_def Let_def split: sum.splits option.splits prod.splits)
    with snapshot_room(2) [OF assms(1) g] show ?thesis by simp
  next
    case add
    with pp path show ?thesis
      by (cases "Method req = ''POST''") (auto simp: http_AddPlayer_def room_post_def)
  next
    case toggle
    with pp path show ?thesis
      by (cases "Method req = ''POST''") (auto simp: http_ToggleSpell_def room_post_def)
  qed simp
qed

text \<open>What a request does to the rooms and the hub.\<close>

definition request_ok :: "http_request \<Rightarrow> 's room_service \<times> hub \<Rightarrow> 's room_service \<times> hub \<Rightarrow> bool" where
  "request_ok req = (\<lambda>(st, h) (st', h'). sinv st' \<and> hub_inv h' \<and> (sview st' = sview st \<or> room_post req))"

lemma request_ok_refl: "sinv st \<Longrightarrow> hub_inv h \<Longrightarrow> request_ok req (st, h) (st, h)"
  by (simp add: request_ok_def)

lemma endpoint_request_ok: "endpoint_ok sh sh' \<Longrightarrow> request_ok req sh sh'"
  by (auto simp: endpoint_ok_def request_ok_def)

lemma on_rooms_ok:
  assumes "hub_inv hb" "sinv st" "\<And>st' out. h req st = (st', out) \<Longrightarrow> sinv st' \<and> (sview st' = sview st \<or> room_post req)"
  shows "request_ok req (st, hb) (fst (on_rooms h req (st, hb)))"
  using assms(1) assms(3) by (auto simp: on_rooms_def request_ok_def split: prod.split)

lemma quiet_handlers:
  "Health enc req st = (st', out) \<Longrightarrow> st' = st" "Ready pg redis enc req st = (st', out) \<Longrightarrow> st' = st"
  "http_GetCurrentRoom enc req st = (st', out) \<Longrightarrow> st' = st"
  by (auto simp: Health_def Ready_def http_GetCurrentRoom_def Let_def split: if_splits prod.splits)

lemma routes_ok:
  assumes "sinv st" "hub_inv hb" "0 \<le> re_now env" "(pat, h) \<in> set (app_routes r lib env)" "matches (URLPath req) pat"
  shows "request_ok req (st, hb) (fst (h req (st, hb)))"
proof -
  note refl = request_ok_refl [OF assms(1,2), of req]
  have rooms: "request_ok req (st, hb) (fst (on_rooms (HandleRooms r (re_now env) (re_saved env) (re_enc env)) req (st, hb)))"
    if "matches (URLPath req) ''/rooms/''"
    by (rule on_rooms_ok [OF assms(2,1)]) (rule HandleRooms_ok [OF assms(1,3) _ that])
  have quiet: "request_ok req (st, hb) (fst (on_rooms (Health (re_enc env)) req (st, hb)))"
    "request_ok req (st, hb) (fst (on_rooms (Ready (re_pg env) (re_redis env) (re_enc env)) req (st, hb)))"
    "request_ok req (st, hb) (fst (on_rooms (http_GetCurrentRoom (re_enc env)) req (st, hb)))"
    using quiet_handlers assms(1) by (intro on_rooms_ok [OF assms(2,1)], blast)+
  have ws: "request_ok req (st, hb) (fst (ws_handler r env req (st, hb)))"
    using HandleWebSocket_ok [OF assms(1,2)] endpoint_request_ok by (auto simp: ws_handler_def split: prod.split)
  obtain st' h' out where c: "HandleCurrentRoomWebSocket (re_upgrade env) (re_writes env) (st, hb) = ((st', h'), out)"
    by (metis prod_cases3 surj_pair)
  have cur: "request_ok req (st, hb) (fst (ws_current_handler env req (st, hb)))"
    using HandleCurrentRoomWebSocket_inv [OF c assms(2)] assms(1) by (simp add: ws_current_handler_def request_ok_def c)
  show ?thesis using assms(4,5) rooms quiet ws cur refl unfolding app_routes_def by auto
qed

lemma app_handler_ok:
  assumes "sinv st" "hub_inv hb" "0 \<le> re_now env"
    and "app_handler redirect r lib env req ((st, hb), log) = ((sh', log'), acts, panicked)"
  shows "request_ok req (st, hb) sh'"
proof -
  let ?mux = "ServeMux redirect (app_routes r lib env)"
  have mux: "request_ok req (st, hb) sh" if "fst (?mux req (st, hb)) = sh" for sh
    by (rule ServeMux_state [OF that]) (use request_ok_refl routes_ok assms(1-3) in blast)+
  from server_handler_state [of ?mux req "(st, hb)" "request_ok req (st, hb)" log] mux request_ok_refl [OF assms(1,2)] assms(4)
  show ?thesis by (simp add: app_handler_def)
qed

definition server_inv :: "('s, 'c, 'o) server \<Rightarrow> bool" where
  "server_inv s \<longleftrightarrow> sinv (srv_rooms s) \<and> hub_inv (srv_hub s)"

lemma serve_step_inv: "serve_step r s s' \<Longrightarrow> server_inv s \<Longrightarrow> server_inv s'"
proof (induction rule: serve_step.induct)
  case (request redirect lib env req s st hb log acts panicked)
  with app_handler_ok [of "srv_rooms s" "srv_hub s" env redirect lib req "srv_log s" "(st, hb)" log acts panicked]
  show ?case by (simp add: server_inv_def request_ok_def)
next
  case (refresh clock s st res)
  with RefreshCooldowns_step(1) [of clock "srv_rooms s" st res] show ?case by (simp add: server_inv_def)
next
  case (expire now s st out)
  with cleanupOldRooms_step(1) [of now "srv_rooms s" st out] show ?case by (simp add: server_inv_def)
next
  case (room_updated data s st hb)
  with handleRoomUpdated_ok [of "srv_rooms s" "srv_hub s" data "(st, hb)"] show ?case
    by (simp add: server_inv_def endpoint_ok_def)
qed (simp_all add: server_inv_def hub_inv_current_changed hub_inv_ping hub_inv_session_end)

lemma tick_inv:
  assumes "server_inv s" "\<And>session. selecting i (sync_lol (srv_sync s)) session \<Longrightarrow> distinct (member_ids session)"
  shows "server_inv (s\<lparr>srv_sync := champ_select_tick r cat enq i (srv_sync s)\<rparr>)"
  using room_steps_inv [OF tick_steps [of i "srv_sync s" cat enq]] assms by (simp add: server_inv_def)

lemma server_step_inv: "server_step r cat enq s s' \<Longrightarrow> server_inv s \<Longrightarrow> server_inv s'"
  by (induction rule: server_step.induct) (blast intro: serve_step_inv tick_inv)+

lemma server_run_inv: "(server_step r cat enq)\<^sup>*\<^sup>* s s' \<Longrightarrow> server_inv s \<Longrightarrow> server_inv s'"
  by (induction rule: rtranclp_induct) (auto intro: server_step_inv)

end

section \<open>Properties\<close>

lemma hub_inv_new: "(\<And>xs. mset (order xs) = mset xs) \<Longrightarrow> hub_inv (NewHub order)"
  by (simp add: hub_inv_def hub_ok_new) (simp add: hub_fits_def NewHub_def)

lemma started_server_inv:
  assumes "room_service r view I f g" "service_inv view I (srv_rooms s)" "srv_hub s = NewHub order"
    and "\<And>xs. mset (order xs) = mset xs" "(server_step r cat enq)\<^sup>*\<^sup>* s s'"
  shows "service_inv view I (srv_rooms s') \<and> hub_ok (srv_hub s') \<and> hub_fits (srv_hub s')"
proof -
  have "room_service.server_inv view I s"
    using assms(2,3) hub_inv_new [OF assms(4)] by (simp add: room_service.server_inv_def [OF assms(1)])
  from room_service.server_run_inv [OF assms(1) assms(5) this] show ?thesis
    by (simp add: room_service.server_inv_def [OF assms(1)] hub_inv_def)
qed

definition ex_redirect :: redirection where
  "ex_redirect = (307, \<lambda>req path. path, \<lambda>url. ''Temporary Redirect'')"

definition ex_request_env :: request_env where
  "ex_request_env = \<lparr>re_now = 7, re_saved = 8, re_enc = NoFault, re_pg = None, re_redis = None, re_upgrade = None,
     re_upgrade_reply = [], re_writes = [], re_deadline = None\<rparr>"

definition ex_server :: "(mem_repo, unit, outbox_db) server" where
  "ex_server = \<lparr>srv_sync = ex_sync, srv_hub = NewHub (\<lambda>xs. xs), srv_log = []\<rparr>"

definition ex_watch :: http_request where
  "ex_watch = \<lparr>Method = ''GET'', URLPath = ''/ws'', QueryRoomId = ''7-1'', OriginHeader = [], Body = EmptyBytes\<rparr>"

abbreviation (input) ex_answer where
  "ex_answer req \<equiv> app_handler ex_redirect in_memory_repo (\<lambda>req. []) ex_request_env req ((ex_service, NewHub (\<lambda>xs. xs)), [])"

lemma ex_server_parts: "srv_rooms ex_server = ex_service" "srv_hub ex_server = NewHub (\<lambda>xs. xs)" "srv_log ex_server = []"
  by (simp_all add: ex_server_def ex_sync_def)

lemma ex_request:
  assumes "ex_answer req = (((st, hb), log), acts, p)"
  obtains s' where "(server_step in_memory_repo ex_catalog Enqueue)\<^sup>*\<^sup>* ex_server s'" "srv_rooms s' = st" "srv_hub s' = hb"
proof
  let ?s = "(set_rooms st ex_server)\<lparr>srv_hub := hb, srv_log := log\<rparr>"
  have "server_step in_memory_repo ex_catalog Enqueue ex_server ?s"
    by (rule server_step.serve [OF serve_step.request [of ex_redirect _ "\<lambda>req. []" ex_request_env req]])
      (use assms in \<open>simp add: ex_server_parts\<close>, simp add: ex_request_env_def)
  then show "(server_step in_memory_repo ex_catalog Enqueue)\<^sup>*\<^sup>* ex_server ?s" by blast
qed simp_all





text \<open>
  C20: reading never writes: a request through the whole chain of middleware, multiplexer and
  handler changes a stored room only if it is a POST to the players or the toggle of a room;
  every other request, of any method, to any path and with any body, leaves every room as it is.
\<close>

theorem rooms_change_only_by_posts:
  assumes "room_service r view I f g" "service_inv view I st" "hub_ok h" "hub_fits h" "0 \<le> re_now env"
    and "app_handler redirect r lib env req ((st, h), log) = (((st', h'), log'), acts, panicked)"
    and "\<not> room_post req"
  shows "service_view view st' = service_view view st"
  using room_service.app_handler_ok [OF assms(1,2) _ assms(5,6)] assms(3,4,7)
  by (simp add: hub_inv_def room_service.request_ok_def [OF assms(1)])

theorem rooms_change_only_by_posts_witness:
  "service_view mem_view (fst (fst (fst (ex_answer ex_watch)))) = service_view mem_view ex_service"
proof -
  obtain st hb log acts p where a: "ex_answer ex_watch = (((st, hb), log), acts, p)" by (metis prod.exhaust)
  have "hub_ok (NewHub (\<lambda>xs. xs))" "hub_fits (NewHub (\<lambda>xs. xs))"
    using hub_inv_new [of "\<lambda>xs. xs"] by (simp_all add: hub_inv_def)
  from rooms_change_only_by_posts [OF mem_service.room_service_axioms ex_service_inv this _ a] a show ?thesis
    by (simp add: ex_request_env_def room_post_def ex_watch_def)
qed

end
