(* ===== verification/Jobs.thy ===== *)
theory Jobs
  imports Server GameEvents
begin

text \<open>
  The background jobs: the loops of \<open>Start\<close> and the runs in them with what they log and count
  (\<open>outbox_relay_service.go\<close>, \<open>outbox_cleanup_service.go\<close>, \<open>processed_event_cleanup_service.go\<close>,
  the two loops of \<open>room_service.go\<close> and that of \<open>lol_client_service.go\<close>).
\<close>

section \<open>Log lines\<close>

text \<open>
  A line has a message with numbers, and an error or none. \<open>slog\<close> keeps them apart, \<open>log.Printf\<close>
  prints the error after the message.
\<close>

datatype log_line =
    SlogError string "(string \<times> nat) list" go_error
  | SlogInfo string "(string \<times> nat) list"
  | Printf string go_error

text \<open>
  Two loops: one that runs at once and then at each tick until the context ends, and the
  tests \<open>parent.Err() == nil\<close> of a failed run are in the input of a tick.
\<close>

fun run_ticks :: "('t \<Rightarrow> 'j \<Rightarrow> 'j) \<Rightarrow> 't list \<Rightarrow> 'j \<Rightarrow> 'j" where
  "run_ticks run [] j = j"
| "run_ticks run (t # ts) j = run_ticks run ts (run t j)"

section \<open>Cleanup of the outbox\<close>

record outbox_cleanup_job =
  oc_db :: outbox_db
  OutboxCleanupDeleted :: nat
  oc_log :: "log_line list"

definition outbox_runCleanup :: "bool \<times> time \<Rightarrow> outbox_cleanup_job \<Rightarrow> outbox_cleanup_job" where
  "outbox_runCleanup tick j =
     (let (ended, now) = tick
      in case OutboxCleanup now (oc_db j) of
           (db, Inl e) \<Rightarrow>
             j\<lparr>oc_db := db,
               oc_log := oc_log j @ (if ended then [] else [SlogError ''cleanup published outbox events'' [] e])\<rparr>
         | (db, Inr deleted) \<Rightarrow>
             j\<lparr>oc_db := db, OutboxCleanupDeleted := OutboxCleanupDeleted j + deleted,
               oc_log := oc_log j @ [SlogInfo ''outbox cleanup completed'' [(''deleted'', deleted)]]\<rparr>)"

definition outbox_cleanup_Start :: "bool \<times> time \<Rightarrow> (bool \<times> time) list \<Rightarrow> outbox_cleanup_job \<Rightarrow> outbox_cleanup_job" where
  "outbox_cleanup_Start first ticks j = run_ticks outbox_runCleanup ticks (outbox_runCleanup first j)"

section \<open>Cleanup of the processed events\<close>

definition processed_runCleanup :: "bool \<times> time \<Rightarrow> inbox_db \<times> log_line list \<Rightarrow> inbox_db \<times> log_line list" where
  "processed_runCleanup tick j =
     (let (ended, now) = tick; (db, log) = j
      in case ProcessedCleanup now db of
           (db', Inl e) \<Rightarrow> (db', log @ (if ended then [] else [SlogError ''cleanup processed events'' [] e]))
         | (db', Inr deleted) \<Rightarrow> (db', log @ [SlogInfo ''processed events cleanup completed'' [(''deleted'', deleted)]]))"

definition processed_cleanup_Start ::
  "bool \<times> time \<Rightarrow> (bool \<times> time) list \<Rightarrow> inbox_db \<times> log_line list \<Rightarrow> inbox_db \<times> log_line list" where
  "processed_cleanup_Start first ticks j = run_ticks processed_runCleanup ticks (processed_runCleanup first j)"

section \<open>The relay\<close>

text \<open>A tick of the relay also meets the rows that another instance has locked.\<close>

type_synonym relay_tick = "bool \<times> (string \<Rightarrow> bool) \<times> time"

definition relay_fields :: "relay_result \<Rightarrow> (string \<times> nat) list" where
  "relay_fields result = [(''claimed'', Claimed result), (''published'', Published result), (''failed'', Failed result)]"

definition relay_run ::
  "(outbox_event list \<Rightarrow> outbox_event list) \<Rightarrow> relay_tick \<Rightarrow> relay_state \<times> log_line list \<Rightarrow> relay_state \<times> log_line list" where
  "relay_run ret tick j =
     (let (ended, locked, now) = tick; (st, log) = j
      in case RelayOnce locked ret now st of
           (st', result, Some e) \<Rightarrow> (st', log @ (if ended then [] else [SlogError ''relay outbox events'' (relay_fields result) e]))
         | (st', result, None) \<Rightarrow>
             (st', log @ (if Claimed result = 0 then [] else [SlogInfo ''outbox relay completed'' (relay_fields result)])))"

definition relay_Start ::
  "(outbox_event list \<Rightarrow> outbox_event list) \<Rightarrow> relay_tick \<Rightarrow> relay_tick list \<Rightarrow> relay_state \<times> log_line list \<Rightarrow>
   relay_state \<times> log_line list" where
  "relay_Start ret first ticks j = run_ticks (relay_run ret) ticks (relay_run ret first j)"

section \<open>The loops of the room service\<close>

text \<open>They start with the first tick, and a failure after the end of the context ends them.\<close>

fun StartCooldownUpdater ::
  "'s room_repo \<Rightarrow> (bool \<times> (nat \<Rightarrow> time)) list \<Rightarrow> 's room_service \<times> log_line list \<Rightarrow> 's room_service \<times> log_line list" where
  "StartCooldownUpdater r [] j = j"
| "StartCooldownUpdater r ((ended, clock) # ticks) (st, log) =
     (case RefreshCooldowns r clock st of
        (st', Inl e) \<Rightarrow>
          if ended then (st', log) else StartCooldownUpdater r ticks (st', log @ [Printf ''refresh cooldowns error: '' e])
      | (st', Inr u) \<Rightarrow> StartCooldownUpdater r ticks (st', log))"

fun StartRoomCleanup ::
  "'s room_repo \<Rightarrow> (bool \<times> time) list \<Rightarrow> 's room_service \<times> log_line list \<Rightarrow> 's room_service \<times> log_line list" where
  "StartRoomCleanup r [] j = j"
| "StartRoomCleanup r ((ended, now) # ticks) (st, log) =
     (case cleanupOldRooms r now st of
        (st', Inl e) \<Rightarrow>
          if ended then (st', log) else StartRoomCleanup r ticks (st', log @ [Printf ''room cleanup error: '' e])
      | (st', Inr u) \<Rightarrow> StartRoomCleanup r ticks (st', log))"

section \<open>The loop of the League client\<close>

fun StartChampSelectSync ::
  "'s room_repo \<Rightarrow> (int \<Rightarrow> 'c \<Rightarrow> 'c \<times> (go_error + champion_info)) \<Rightarrow> 'o enqueue \<Rightarrow> tick_input list \<Rightarrow>
   ('s, 'c, 'o) sync_state \<Rightarrow> ('s, 'c, 'o) sync_state" where
  "StartChampSelectSync r cat enq [] st = st"
| "StartChampSelectSync r cat enq (i # ticks) st = StartChampSelectSync r cat enq ticks (champ_select_tick r cat enq i st)"

section \<open>The loops are steps of the server\<close>

lemma server_step_id [simp]: "(set_rooms (srv_rooms s) s) = s"
  by simp

lemma set_rooms_again [simp]: "set_rooms st (set_rooms st0 s) = set_rooms st s" "srv_rooms (set_rooms st s) = st"
  by simp_all

lemma cooldown_updater_steps:
  "(server_step r cat enq)\<^sup>*\<^sup>* s (set_rooms (fst (StartCooldownUpdater r ticks (srv_rooms s, log))) s)"
proof (induction ticks arbitrary: s log)
  case (Cons t ticks)
  obtain ended clock where t: "t = (ended, clock)" by (cases t)
  obtain st res where c: "RefreshCooldowns r clock (srv_rooms s) = (st, res)" by (meson surj_pair)
  have s: "server_step r cat enq s (set_rooms st s)" by (rule server_step.serve [OF serve_step.refresh [OF c]])
  from Cons.IH [of "set_rooms st s"] s show ?case
    by (cases res) (auto simp: t c intro: converse_rtranclp_into_rtranclp)
qed simp

lemma room_cleanup_steps:
  "(server_step r cat enq)\<^sup>*\<^sup>* s (set_rooms (fst (StartRoomCleanup r ticks (srv_rooms s, log))) s)"
proof (induction ticks arbitrary: s log)
  case (Cons t ticks)
  obtain ended now where t: "t = (ended, now)" by (cases t)
  obtain st res where c: "cleanupOldRooms r now (srv_rooms s) = (st, res)" by (meson surj_pair)
  have s: "server_step r cat enq s (set_rooms st s)" by (rule server_step.serve [OF serve_step.expire [OF c]])
  from Cons.IH [of "set_rooms st s"] s show ?case
    by (cases res) (auto simp: t c intro: converse_rtranclp_into_rtranclp)
qed simp

lemma champ_select_sync_steps:
  assumes "\<And>i l session. i \<in> set ticks \<Longrightarrow> selecting i l session \<Longrightarrow> distinct (member_ids session)"
  shows "(server_step r cat enq)\<^sup>*\<^sup>* s (s\<lparr>srv_sync := StartChampSelectSync r cat enq ticks (srv_sync s)\<rparr>)"
  using assms
proof (induction ticks arbitrary: s)
  case (Cons i ticks)
  have "server_step r cat enq s (s\<lparr>srv_sync := champ_select_tick r cat enq i (srv_sync s)\<rparr>)"
    by (rule server_step.tick) (use Cons.prems in auto)
  with Cons.IH [of "s\<lparr>srv_sync := champ_select_tick r cat enq i (srv_sync s)\<rparr>"] Cons.prems show ?case
    by (auto intro: converse_rtranclp_into_rtranclp)
qed simp

text \<open>Without other instances and whatever is logged, the relay job is its cycles.\<close>

lemma relay_run_state: "fst (relay_run ret (ended, locked, now) (st, log)) = fst (RelayOnce locked ret now st)"
  by (simp add: relay_run_def split: prod.split option.split)

lemma relay_Start_cycles:
  assumes "\<forall>(ended, locked, now) \<in> set (first # ticks). locked = (\<lambda>_. False)"
  shows "fst (relay_Start ret first ticks (st, log)) = relay_cycles ret (map (\<lambda>(ended, locked, now). now) (first # ticks)) st"
proof -
  have "fst (run_ticks (relay_run ret) ts (st, log)) = relay_cycles ret (map (\<lambda>(ended, locked, now). now) ts) st"
    if "\<forall>(ended, locked, now) \<in> set ts. locked = (\<lambda>_. False)" for ts log st
    using that
  proof (induction ts arbitrary: st log)
    case (Cons t ts)
    obtain ended now where t: "t = (ended, \<lambda>_. False, now)" using Cons.prems by (cases t) auto
    obtain st' log' where r: "relay_run ret t (st, log) = (st', log')" by (meson surj_pair)
    with relay_run_state [of ret ended "\<lambda>_. False" now st log] have "st' = fst (RelayOnce (\<lambda>_. False) ret now st)" by (simp add: t)
    with r Cons show ?case by (simp add: t)
  qed simp
  from this [of "first # ticks"] assms show ?thesis by (simp add: relay_Start_def)
qed

section \<open>The relay empties the outbox\<close>

text \<open>
  C19: the relay empties the outbox. When every unpublished row is due, no other instance holds
  rows, and the database and JetStream answer, the run at the start and each tick shorten the
  backlog by its batch of 50, so after one run for every 50 rows of the backlog every row is
  published, and none was lost or changed.
\<close>

theorem relay_drains_the_outbox:
  assumes "\<And>xs. mset (ret xs) = mset xs" "outbox_inv (relay_db st)"
    and "outbox_faults (relay_db st) = []" "js_replies (relay_js st) = []"
    and "all_due t (outbox_rows (relay_db st))"
    and "\<forall>(ended, locked, now) \<in> set (first # ticks). t \<le> now \<and> zero_time < now \<and> locked = (\<lambda>_. False)"
    and "length (filter (\<lambda>x. row_published_at x = None) (outbox_rows (relay_db st))) \<le> 50 * length (first # ticks)"
    and "relay_Start ret first ticks (st, log) = (st', log')"
  shows "(\<forall>x \<in> set (outbox_rows (relay_db st')). row_published_at x \<noteq> None) \<and>
    list_all2 row_grows (outbox_rows (relay_db st)) (outbox_rows (relay_db st'))"
proof -
  let ?ts = "map (\<lambda>(ended, locked, now). now) (first # ticks)"
  have "fst (relay_Start ret first ticks (st, log)) = relay_cycles ret ?ts st"
    by (rule relay_Start_cycles) (use assms(6) in auto)
  then have st': "st' = relay_cycles ret ?ts st" using assms(8) by simp
  show ?thesis unfolding st'
    by (rule relay_cycles_drain [OF assms(1-5)]) (use assms(6,7) in auto)
qed

theorem relay_drains_the_outbox_witness:
  "filter (\<lambda>x. row_published_at x = None)
     (outbox_rows (relay_db (fst (relay_Start id (False, \<lambda>_. False, 10) [] (ex_relay, []))))) = []"
proof -
  have inv: "outbox_inv (relay_db ex_relay)" using ex_inv by (simp add: ex_relay_def)
  have due: "all_due 7 (outbox_rows (relay_db ex_relay))" by (simp add: outbox_example all_due_def)
  obtain st' log' where r: "relay_Start id (False, \<lambda>_. False, 10) [] (ex_relay, []) = (st', log')" by (meson surj_pair)
  have "outbox_faults (relay_db ex_relay) = []" "js_replies (relay_js ex_relay) = []"
    "length (filter (\<lambda>x. row_published_at x = None) (outbox_rows (relay_db ex_relay))) \<le> 50"
    by (simp_all add: outbox_example)
  with relay_drains_the_outbox [OF _ inv _ _ due _ _ r] r show ?thesis by (simp add: filter_empty_conv)
qed

section \<open>What the outbox cleanup deletes\<close>

abbreviation (input) kept_at :: "time \<Rightarrow> outbox_row \<Rightarrow> bool" where
  "kept_at now x \<equiv> \<not> published_before (now - outboxRetention) x"

lemma outbox_runCleanup_cases:
  assumes "outbox_runCleanup (ended, now) j = j'"
  obtains (nothing) "outbox_rows (oc_db j') = outbox_rows (oc_db j)" "OutboxCleanupDeleted j' = OutboxCleanupDeleted j"
  | (deleted) "outbox_rows (oc_db j') = filter (kept_at now) (outbox_rows (oc_db j))"
      "OutboxCleanupDeleted j' = OutboxCleanupDeleted j \<or>
       OutboxCleanupDeleted j' = OutboxCleanupDeleted j + length (filter (published_before (now - outboxRetention)) (outbox_rows (oc_db j)))"
  using assms
  by (auto simp: outbox_runCleanup_def OutboxCleanup_def DeletePublishedBefore_def exec_stmt_def Let_def
      split: if_splits fault.splits sum.splits prod.splits)

lemma outbox_runCleanup_healthy:
  assumes "outbox_faults (oc_db j) = []" "outboxRetention < now"
  shows "oc_db (outbox_runCleanup (ended, now) j) = (oc_db j)\<lparr>outbox_rows := filter (kept_at now) (outbox_rows (oc_db j))\<rparr>"
    and "OutboxCleanupDeleted (outbox_runCleanup (ended, now) j) =
      OutboxCleanupDeleted j + length (filter (published_before (now - outboxRetention)) (outbox_rows (oc_db j)))"
  using assms
  by (auto simp: outbox_runCleanup_def OutboxCleanup_def DeletePublishedBefore_def exec_stmt_def IsZero_def outboxRetention_def)

definition kept :: "(bool \<times> time) list \<Rightarrow> outbox_row \<Rightarrow> bool" where
  "kept ticks x \<longleftrightarrow> (\<forall>t \<in> set ticks. kept_at (snd t) x)"

lemma kept_simps [simp]: "kept [] x" "kept (t # ticks) x \<longleftrightarrow> kept_at (snd t) x \<and> kept ticks x"
  by (simp_all add: kept_def)

lemma kept_iff: "kept ticks x \<longleftrightarrow>
    (\<forall>t \<in> snd ` set ticks. \<forall>p. row_published_at x = Some p \<longrightarrow> t - 30 * 24 * hour \<le> p)"
  by (auto simp: kept_def published_before_def outbox_consts split: option.splits)

lemma outbox_ticks_delete:
  "\<exists>P. outbox_rows (oc_db (run_ticks outbox_runCleanup ticks j)) = filter P (outbox_rows (oc_db j)) \<and>
     (\<forall>x. kept ticks x \<longrightarrow> P x) \<and>
     OutboxCleanupDeleted (run_ticks outbox_runCleanup ticks j) + length (outbox_rows (oc_db (run_ticks outbox_runCleanup ticks j)))
       \<le> OutboxCleanupDeleted j + length (outbox_rows (oc_db j))"
proof (induction ticks arbitrary: j)
  case Nil
  have "outbox_rows (oc_db j) = filter (\<lambda>_. True) (outbox_rows (oc_db j))" by simp
  then show ?case by (auto intro!: exI [of _ "\<lambda>_. True"])
next
  case (Cons t ticks)
  obtain ended now where t: "t = (ended, now)" by (cases t)
  let ?j = "outbox_runCleanup (ended, now) j"
  from Cons.IH [of ?j] obtain P where P:
    "outbox_rows (oc_db (run_ticks outbox_runCleanup ticks ?j)) = filter P (outbox_rows (oc_db ?j))" "\<forall>x. kept ticks x \<longrightarrow> P x"
    "OutboxCleanupDeleted (run_ticks outbox_runCleanup ticks ?j) + length (outbox_rows (oc_db (run_ticks outbox_runCleanup ticks ?j)))
       \<le> OutboxCleanupDeleted ?j + length (outbox_rows (oc_db ?j))" by blast
  show ?case
  proof (rule outbox_runCleanup_cases [OF refl, of ended now j])
    assume "outbox_rows (oc_db ?j) = outbox_rows (oc_db j)" "OutboxCleanupDeleted ?j = OutboxCleanupDeleted j"
    with P show ?thesis by (auto simp: t intro!: exI [of _ P])
  next
    assume d: "outbox_rows (oc_db ?j) = filter (kept_at now) (outbox_rows (oc_db j))"
      "OutboxCleanupDeleted ?j = OutboxCleanupDeleted j \<or>
       OutboxCleanupDeleted ?j = OutboxCleanupDeleted j + length (filter (published_before (now - outboxRetention)) (outbox_rows (oc_db j)))"
    have "OutboxCleanupDeleted ?j + length (outbox_rows (oc_db ?j)) \<le> OutboxCleanupDeleted j + length (outbox_rows (oc_db j))"
      using d sum_length_filter_compl [of "published_before (now - outboxRetention)" "outbox_rows (oc_db j)"] by auto
    with P d(1) show ?thesis by (auto simp: t intro!: exI [of _ "\<lambda>x. kept_at now x \<and> P x"])
  qed
qed

lemma outbox_ticks_healthy:
  assumes "outbox_faults (oc_db j) = []" "\<forall>t \<in> set ticks. outboxRetention < snd t"
  shows "outbox_rows (oc_db (run_ticks outbox_runCleanup ticks j)) = filter (kept ticks) (outbox_rows (oc_db j)) \<and>
    OutboxCleanupDeleted (run_ticks outbox_runCleanup ticks j) + length (outbox_rows (oc_db (run_ticks outbox_runCleanup ticks j)))
      = OutboxCleanupDeleted j + length (outbox_rows (oc_db j))"
  using assms
proof (induction ticks arbitrary: j)
  case (Cons t ticks)
  obtain ended now where t: "t = (ended, now)" by (cases t)
  have now: "outboxRetention < now" using Cons.prems(2) t by simp
  note h = outbox_runCleanup_healthy [OF Cons.prems(1) now, of ended]
  have k: "kept (t # ticks) = (\<lambda>x. kept_at now x \<and> kept ticks x)" by (auto simp: t)
  from Cons.IH [of "outbox_runCleanup t j"] Cons.prems show ?case
    using sum_length_filter_compl [of "published_before (now - outboxRetention)" "outbox_rows (oc_db j)"]
    by (auto simp: t h k [unfolded t])
qed simp

text \<open>
  The cleanup of the outbox deletes published rows only, and each only after it has been
  published for 30 days at some tick. The counter of deleted rows never exceeds the rows that
  are gone; when every statement succeeds it is exactly their number and no row that was old at
  a tick is left.
\<close>

theorem outbox_cleanup_counts_what_it_deletes:
  assumes "outbox_cleanup_Start first ticks j = j'"
  shows "(\<exists>P. outbox_rows (oc_db j') = filter P (outbox_rows (oc_db j)) \<and>
      (\<forall>x. P x \<or> (\<exists>t \<in> snd ` set (first # ticks). \<exists>p. row_published_at x = Some p \<and> p < t - 30 * 24 * hour))) \<and>
    OutboxCleanupDeleted j' + length (outbox_rows (oc_db j')) \<le> OutboxCleanupDeleted j + length (outbox_rows (oc_db j)) \<and>
    (outbox_faults (oc_db j) = [] \<and> (\<forall>t \<in> snd ` set (first # ticks). 30 * 24 * hour < t) \<longrightarrow>
      OutboxCleanupDeleted j' + length (outbox_rows (oc_db j')) = OutboxCleanupDeleted j + length (outbox_rows (oc_db j)) \<and>
      (\<forall>x \<in> set (outbox_rows (oc_db j')). \<forall>t \<in> snd ` set (first # ticks). \<forall>p. row_published_at x = Some p \<longrightarrow> t - 30 * 24 * hour \<le> p))"
proof -
  have j': "j' = run_ticks outbox_runCleanup (first # ticks) j" using assms by (simp add: outbox_cleanup_Start_def)
  have old: "(\<exists>t \<in> snd ` set (first # ticks). \<exists>p. row_published_at x = Some p \<and> p < t - 30 * 24 * hour) \<longleftrightarrow> \<not> kept (first # ticks) x" for x
    unfolding kept_iff by force
  from outbox_ticks_delete [of "first # ticks" j] obtain P where P:
    "outbox_rows (oc_db j') = filter P (outbox_rows (oc_db j))" "\<And>x. kept (first # ticks) x \<Longrightarrow> P x"
    "OutboxCleanupDeleted j' + length (outbox_rows (oc_db j')) \<le> OutboxCleanupDeleted j + length (outbox_rows (oc_db j))"
    unfolding j' by blast
  have healthy: "OutboxCleanupDeleted j' + length (outbox_rows (oc_db j')) = OutboxCleanupDeleted j + length (outbox_rows (oc_db j)) \<and>
      (\<forall>x \<in> set (outbox_rows (oc_db j')). kept (first # ticks) x)"
    if "outbox_faults (oc_db j) = []" "\<forall>t \<in> snd ` set (first # ticks). 30 * 24 * hour < t"
    using outbox_ticks_healthy [of j "first # ticks"] that unfolding j' by (auto simp: outboxRetention_def)
  show ?thesis unfolding old unfolding kept_iff [symmetric] using P healthy by blast
qed

definition ex_cleanup_job :: outbox_cleanup_job where
  "ex_cleanup_job = \<lparr>oc_db = ex_db, OutboxCleanupDeleted = 0, oc_log = []\<rparr>"

theorem outbox_cleanup_counts_what_it_deletes_witness:
  "OutboxCleanupDeleted (outbox_cleanup_Start (False, 31 * 24 * hour) [(False, 32 * 24 * hour)] ex_cleanup_job) +
     length (outbox_rows (oc_db (outbox_cleanup_Start (False, 31 * 24 * hour) [(False, 32 * 24 * hour)] ex_cleanup_job)))
   = length ex_rows"
proof -
  have "outbox_faults (oc_db ex_cleanup_job) = [] \<and>
      (\<forall>t \<in> snd ` set [(False, 31 * 24 * hour), (False, 32 * 24 * hour)]. 30 * 24 * hour < t)"
    by (simp add: ex_cleanup_job_def ex_db_def)
  with outbox_cleanup_counts_what_it_deletes [OF refl, of "(False, 31 * 24 * hour)" "[(False, 32 * 24 * hour)]" ex_cleanup_job]
  show ?thesis by (simp add: ex_cleanup_job_def ex_db_def)
qed

section \<open>What the room cleanup deletes\<close>

lemma room_cleanup_append:
  "\<forall>t \<in> set ts. \<not> fst t \<Longrightarrow> StartRoomCleanup r (ts @ us) j = StartRoomCleanup r us (StartRoomCleanup r ts j)"
  by (induction r ts j rule: StartRoomCleanup.induct) (auto split: prod.split sum.split)

lemma room_cleanup_rooms:
  assumes "room_service r view I f g"
  shows "StartRoomCleanup r ticks (st, log) = (st', log') \<Longrightarrow> service_inv view I st \<Longrightarrow>
    service_inv view I st' \<and>
    (service_view view st' i = service_view view st i \<or>
     (\<exists>v. service_view view st i = Some v \<and> service_view view st' i = None \<and> (\<exists>now \<in> snd ` set ticks. expired now v)))"
proof (induction ticks arbitrary: st log)
  case (Cons t ticks)
  obtain ended now where t: "t = (ended, now)" by (cases t)
  obtain st1 res where c: "cleanupOldRooms r now st = (st1, res)" by (meson surj_pair)
  note step = room_service.cleanupOldRooms_step [OF assms c Cons.prems(2)]
  have "st' = st1 \<or> (\<exists>log1. StartRoomCleanup r ticks (st1, log1) = (st', log'))"
    using Cons.prems(1) by (auto simp: t c split: sum.splits if_splits)
  then show ?case
  proof
    assume "st' = st1"
    with step(1) step(2) [of i] show ?thesis by (auto simp: t)
  next
    assume "\<exists>log1. StartRoomCleanup r ticks (st1, log1) = (st', log')"
    with Cons.IH [of st1] step(1) step(2) [of i] show ?thesis by (fastforce simp: t)
  qed
qed simp

text \<open>
  C28: the loop that cleans up rooms deletes a room only if at some tick it was not updated for
  180 minutes, and keeps every other as it is, whatever fails. No failure stops it while its
  context lasts: after any ticks, a tick that succeeds leaves no room that is over age then.
\<close>

theorem room_cleanup_survives_failures:
  assumes "room_service r view I f g" "service_inv view I st"
    and "StartRoomCleanup r (ticks @ [(ended, now)]) (st, log) = (st', log')"
  shows "(\<forall>i. service_view view st' i = service_view view st i \<or>
      (\<exists>v. service_view view st i = Some v \<and> service_view view st' i = None \<and>
         (\<exists>t \<in> insert now (snd ` set ticks). 180 * minute < time_sub t (LastUpdated v)))) \<and>
    ((\<forall>t \<in> set ticks. \<not> fst t) \<and> snd (cleanupOldRooms r now (fst (StartRoomCleanup r ticks (st, log)))) = Inr () \<longrightarrow>
      (\<forall>i v. service_view view st' i = Some v \<longrightarrow> time_sub now (LastUpdated v) \<le> 180 * minute))"
proof -
  have "service_view view st' i = service_view view st i \<or>
      (\<exists>v. service_view view st i = Some v \<and> service_view view st' i = None \<and>
         (\<exists>t \<in> insert now (snd ` set ticks). expired t v))" for i
    using room_cleanup_rooms [OF assms(1,3,2), of i] by auto
  moreover have "\<not> expired now v"
    if ok: "\<forall>t \<in> set ticks. \<not> fst t" "snd (cleanupOldRooms r now (fst (StartRoomCleanup r ticks (st, log)))) = Inr ()"
      and v: "service_view view st' i = Some v" for i v
  proof -
    obtain st1 log1 where s: "StartRoomCleanup r ticks (st, log) = (st1, log1)" by (meson surj_pair)
    obtain st2 where c: "cleanupOldRooms r now st1 = (st2, Inr ())"
      using ok(2) s by (cases "cleanupOldRooms r now st1") auto
    have "st' = st2" using assms(3) room_cleanup_append [OF ok(1), of r "[(ended, now)]" "(st, log)"] by (simp add: s c)
    moreover have "service_inv view I st1" using room_cleanup_rooms [OF assms(1) s assms(2)] by simp
    ultimately show ?thesis
      using room_service.cleanupOldRooms_step(3) [OF assms(1) c, of "()" i] v by (auto split: option.splits if_splits)
  qed
  ultimately show ?thesis by (simp add: expired_def RoomExpirationDuration_def not_less)
qed

theorem room_cleanup_survives_failures_witness:
  "service_view mem_view (fst (StartRoomCleanup in_memory_repo [(False, 6 * hour), (True, 9 * hour)] (ex_service, []))) ''7-1'' = None"
proof -
  have s: "fst (StartRoomCleanup in_memory_repo [(False, 6 * hour)] (ex_service, [])) = ex_service"
    by (simp add: cleanupOldRooms_def in_memory_repo_def mem_GetAll_def room_example time_sub_def RoomExpirationDuration_def Let_def)
  have c: "snd (cleanupOldRooms in_memory_repo (9 * hour) ex_service) = Inr ()"
    by (simp add: cleanupOldRooms_def in_memory_repo_def mem_GetAll_def mem_Delete_def room_example
        time_sub_def RoomExpirationDuration_def Let_def)
  obtain st' log' where r: "StartRoomCleanup in_memory_repo ([(False, 6 * hour)] @ [(True, 9 * hour)]) (ex_service, []) = (st', log')"
    by (meson surj_pair)
  have "service_view mem_view ex_service ''7-1'' = Some ex_room"
    by (simp add: service_view_def mem_view_def ex_service_def NewRoomService_def ex_repo_def)
  with room_cleanup_survives_failures [OF mem_service.room_service_axioms ex_service_inv r] s c
  have "service_view mem_view st' ''7-1'' = None" by (force simp: ex_room_def time_sub_def)
  with r show ?thesis by simp
qed

end
