(* ===== verification/Programs.thy ===== *)
theory Programs
  imports Champions App
begin

text \<open>
  The programs around the components: the logger and the metrics (\<open>internal/logger\<close>,
  \<open>internal/metrics\<close>), the gRPC interceptors, what \<open>App.Run\<close> returns (\<open>internal/app/run.go\<close>),
  and the two server programs \<open>cmd/server\<close> and \<open>cmd/champion-service\<close>.
\<close>

section \<open>The logger\<close>

text \<open>
  \<open>strings.ToLower\<close> on ASCII letters; no other character becomes a letter of the words that the
  logger compares with.
\<close>

definition lower_char :: "char \<Rightarrow> char" where
  "lower_char c = (let n = of_char c :: nat in if 65 \<le> n \<and> n \<le> 90 then char_of (n + 32) else c)"

definition ToLower :: "string \<Rightarrow> string" where
  "ToLower s = map lower_char s"

datatype log_level = LevelDebug | LevelInfo | LevelWarn | LevelError

definition logger_New :: "string \<Rightarrow> log_level" where
  "logger_New level =
     (let l = ToLower level
      in if l = ''debug'' then LevelDebug
         else if l = ''warn'' then LevelWarn
         else if l = ''error'' then LevelError
         else LevelInfo)"

text \<open>The levels of \<open>slog\<close> are ordered by their numbers; a handler prints the lines from its level on.\<close>

fun level_number :: "log_level \<Rightarrow> int" where
  "level_number LevelDebug = - 4"
| "level_number LevelInfo = 0"
| "level_number LevelWarn = 4"
| "level_number LevelError = 8"

instantiation log_level :: linorder
begin

definition less_eq_log_level :: "log_level \<Rightarrow> log_level \<Rightarrow> bool" where
  "less_eq_log_level a b \<longleftrightarrow> level_number a \<le> level_number b"

definition less_log_level :: "log_level \<Rightarrow> log_level \<Rightarrow> bool" where
  "less_log_level a b \<longleftrightarrow> level_number a < level_number b"

instance
proof
  have inject: "level_number a = level_number b \<Longrightarrow> a = b" for a b by (cases a; cases b) simp_all
  fix x y z :: log_level
  show "x \<le> y \<Longrightarrow> y \<le> x \<Longrightarrow> x = y" using inject by (simp add: less_eq_log_level_def)
qed (auto simp: less_eq_log_level_def less_log_level_def)

end

text \<open>Errors are always printed, and debug lines only on request.\<close>

lemma logger_prints:
  "logger_New level \<le> LevelError" "logger_New level \<le> LevelDebug \<longleftrightarrow> ToLower level = ''debug''"
  by (simp_all add: logger_New_def Let_def less_eq_log_level_def)

lemma logger_New_example: "logger_New ''WARN'' = LevelWarn" "logger_New ''Error'' = LevelError" "logger_New ''warning'' = LevelInfo"
  by code_simp+

section \<open>The metrics\<close>

datatype metric_kind = CounterVec "string list" | HistogramVec "string list" | Counter | Gauge | Histogram

record metric =
  metric_name :: string
  metric_help :: string
  metric_kind :: metric_kind

abbreviation (input) new_metric :: "string \<Rightarrow> string \<Rightarrow> metric_kind \<Rightarrow> metric" where
  "new_metric n help k \<equiv> \<lparr>metric_name = ''lol_timer_'' @ n, metric_help = help, metric_kind = k\<rparr>"

definition HTTPRequests :: metric where
  "HTTPRequests = new_metric ''http_requests_total''
    ''Total number of HTTP requests.'' (CounterVec [''method'', ''path'', ''status''])"
definition HTTPRequestDuration :: metric where
  "HTTPRequestDuration = new_metric ''http_request_duration_seconds''
    ''Duration of HTTP requests in seconds.'' (HistogramVec [''method'', ''path''])"
definition CacheRequests :: metric where
  "CacheRequests = new_metric ''room_cache_requests_total''
    ''Total number of room cache requests.'' (CounterVec [''result''])"
definition CacheErrors :: metric where
  "CacheErrors = new_metric ''room_cache_errors_total''
    ''Total number of room cache errors.'' (CounterVec [''operation''])"
definition RepositoryOperations :: metric where
  "RepositoryOperations = new_metric ''room_repository_operations_total''
    ''Total number of room repository operations.'' (CounterVec [''operation'', ''result''])"
definition ActiveRooms :: metric where
  "ActiveRooms = new_metric ''active_rooms''
    ''Current number of active rooms.'' Gauge"
definition WebSocketConnections :: metric where
  "WebSocketConnections = new_metric ''websocket_connections''
    ''Current number of active WebSocket connections.'' Gauge"
definition GameEventDeliveryOutcomes :: metric where
  "GameEventDeliveryOutcomes = new_metric ''game_event_delivery_outcomes_total''
    ''Total game event delivery outcomes.'' (CounterVec [''subject'', ''outcome''])"
definition OutboxRelayEvents :: metric where
  "OutboxRelayEvents = new_metric ''outbox_relay_events_total''
    ''Total number of outbox relay event outcomes.'' (CounterVec [''outcome''])"
definition OutboxRelayDuration :: metric where
  "OutboxRelayDuration = new_metric ''outbox_relay_duration_seconds''
    ''Duration of outbox relay cycles in seconds.'' Histogram"
definition OutboxCleanupDeletedTotal :: metric where
  "OutboxCleanupDeletedTotal = new_metric ''outbox_cleanup_deleted_total''
    ''Total number of published outbox events deleted.'' Counter"
definition DeadLetterReplayOutcomes :: metric where
  "DeadLetterReplayOutcomes = new_metric ''dead_letter_replay_outcomes_total''
    ''Total number of dead-letter replay outcomes.'' (CounterVec [''outcome''])"

text \<open>
  The buckets of the histograms are left out. The registry knows its metrics by name.
  \<open>MustRegister\<close> registers one after the other and panics (\<open>None\<close>) at a name it has;
  \<open>registerOnce\<close> lets only the first call through.
\<close>

record registry =
  registered :: "metric list"
  registerOnce :: bool

fun MustRegister :: "metric list \<Rightarrow> metric list \<Rightarrow> metric list option" where
  "MustRegister [] known = Some known"
| "MustRegister (m # ms) known =
     (if metric_name m \<in> metric_name ` set known then None else MustRegister ms (known @ [m]))"

definition collectors :: "metric list" where
  "collectors = [HTTPRequests, HTTPRequestDuration, CacheRequests, CacheErrors, RepositoryOperations, ActiveRooms,
     WebSocketConnections, GameEventDeliveryOutcomes, OutboxRelayEvents, OutboxRelayDuration, OutboxCleanupDeletedTotal,
     DeadLetterReplayOutcomes]"

definition Register :: "registry \<Rightarrow> registry option" where
  "Register reg =
     (if registerOnce reg then Some reg
      else map_option (\<lambda>ms. reg\<lparr>registered := ms, registerOnce := True\<rparr>) (MustRegister collectors (registered reg)))"

section \<open>The interceptors\<close>

text \<open>\<open>status.Code\<close>: the first status along the wrapped errors.\<close>

fun status_in :: "go_error \<Rightarrow> string option" and status_part :: "err_part \<Rightarrow> string option" where
  "status_in (Status c s) = Some c"
| "status_in (Errorf ps) = (case concat (map (\<lambda>p. case status_part p of None \<Rightarrow> [] | Some c \<Rightarrow> [c]) ps) of [] \<Rightarrow> None | c # _ \<Rightarrow> Some c)"
| "status_in (Joined es) = (case concat (map (\<lambda>e. case status_in e of None \<Rightarrow> [] | Some c \<Rightarrow> [c]) es) of [] \<Rightarrow> None | c # _ \<Rightarrow> Some c)"
| "status_in e = None"
| "status_part (Wrapped e) = status_in e"
| "status_part p = None"

definition status_Code :: "go_error option \<Rightarrow> string" where
  "status_Code err =
     (case err of None \<Rightarrow> ''OK'' | Some e \<Rightarrow> (case status_in e of None \<Rightarrow> ''Unknown'' | Some c \<Rightarrow> c))"

text \<open>Both interceptors call what they wrap and log the method with the code.\<close>

definition UnaryServerLoggingInterceptor ::
  "string \<Rightarrow> ('q \<Rightarrow> go_error + 'a) \<Rightarrow> 'q \<Rightarrow> (string \<times> string) list \<Rightarrow> (string \<times> string) list \<times> (go_error + 'a)" where
  "UnaryServerLoggingInterceptor fullMethod handler request log =
     (let response = handler request
      in (log @ [(fullMethod, status_Code (case response of Inl e \<Rightarrow> Some e | Inr r \<Rightarrow> None))], response))"

definition UnaryClientLoggingInterceptor ::
  "string \<Rightarrow> ('c \<Rightarrow> 'c \<times> (go_error + 'a)) \<Rightarrow> 'c \<times> (string \<times> string) list \<Rightarrow> ('c \<times> (string \<times> string) list) \<times> (go_error + 'a)" where
  "UnaryClientLoggingInterceptor fullMethod invoker st =
     (let (c, log) = st; (c', response) = invoker c
      in ((c', log @ [(fullMethod, status_Code (case response of Inl e \<Rightarrow> Some e | Inr r \<Rightarrow> None))]), response))"

lemma interceptors_hand_on:
  "snd (UnaryServerLoggingInterceptor m h q log) = h q"
  "fst (fst (UnaryClientLoggingInterceptor m k (c, log))) = fst (k c)"
  "snd (UnaryClientLoggingInterceptor m k (c, log)) = snd (k c)"
  by (simp_all add: UnaryServerLoggingInterceptor_def UnaryClientLoggingInterceptor_def Let_def split: prod.split)

section \<open>Running and leaving the server\<close>

text \<open>
  \<open>Run\<close> ends when listening ends, or when the context does, with the answer of \<open>Shutdown\<close>.
  \<open>closed\<close> is \<open>errors.Is(err, http.ErrServerClosed)\<close>.
\<close>

datatype run_end = ListenEnded "go_error option" | CtxDone "go_error option"

definition app_Run :: "(go_error \<Rightarrow> bool) \<Rightarrow> run_end \<Rightarrow> go_error option" where
  "app_Run closed ending =
     (case ending of
        ListenEnded err \<Rightarrow> (case err of Some e \<Rightarrow> if closed e then None else Some e | None \<Rightarrow> None)
      | CtxDone err \<Rightarrow> err)"

text \<open>
  \<open>main\<close>: the connections at the exit, the exit code and what was printed last. \<open>log.Fatal\<close>
  exits without the deferred \<open>Close\<close>.
\<close>

definition server_main ::
  "(string \<Rightarrow> go_error + duration) \<Rightarrow> (string \<Rightarrow> string) \<Rightarrow> (go_error \<Rightarrow> bool) \<Rightarrow> run_end \<Rightarrow> world \<Rightarrow>
   world \<times> int \<times> string" where
  "server_main parse_duration env closed ending w =
     (case app_New parse_duration env w of
        (w1, Inl e) \<Rightarrow> (w1, 1, ''create application: '' @ error_text e)
      | (w1, Inr cfg) \<Rightarrow>
          (case app_Run closed ending of
             Some e \<Rightarrow> (w1, 1, ''run application: '' @ error_text e)
           | None \<Rightarrow> (fst (app_Close w1), 0, ''application stopped'')))"

section \<open>The champion service program\<close>

datatype champion_action =
    SetLogger log_level
  | Listen string
  | SetServing string bool
  | Serve champion_catalog
  | GracefulStop
  | Stop
  | Exit int string

text \<open>
  How serving ends: by itself with an error or none, or by a signal, after which stopping
  gracefully may take too long. \<open>stopped\<close> is \<open>errors.Is(err, grpc.ErrServerStopped)\<close>.
\<close>

datatype serve_end = ServeEnded "go_error option" | Signalled bool

definition champion_service_name :: string where
  "champion_service_name = ''champion.v1.ChampionService''"

definition champion_main ::
  "(string \<Rightarrow> string) \<Rightarrow> data_dragon \<Rightarrow> (champion_info list \<Rightarrow> champion_info list) \<Rightarrow> go_error option \<Rightarrow>
   (go_error \<Rightarrow> bool) \<Rightarrow> serve_end \<Rightarrow> champion_action list" where
  "champion_main env d order listen stopped ending =
     (let level = (if env ''LOG_LEVEL'' = [] then ''info'' else env ''LOG_LEVEL'');
          grpcAddress = (if env ''CHAMPION_GRPC_ADDRESS'' = [] then '':50051'' else env ''CHAMPION_GRPC_ADDRESS'')
      in SetLogger (logger_New level) #
         (case Load d (NewChampionService order) of
           (catalog, Inl e) \<Rightarrow> [Exit 1 (''load champion catalog: '' @ error_text e)]
         | (catalog, Inr u) \<Rightarrow>
             (case listen of
                Some e \<Rightarrow> [Exit 1 (''listen for gRPC: '' @ error_text e)]
              | None \<Rightarrow>
                  [Listen grpcAddress, SetServing [] True, SetServing champion_service_name True,
                   Serve (service_catalog catalog)] @
                  (case ending of
                     ServeEnded err \<Rightarrow>
                       (case err of
                          Some e \<Rightarrow> if stopped e then [Exit 0 []] else [Exit 1 (''serve champion gRPC service: '' @ error_text e)]
                        | None \<Rightarrow> [Exit 0 []])
                   | Signalled timed_out \<Rightarrow>
                       [SetServing [] False, SetServing champion_service_name False, GracefulStop] @
                       (if timed_out then [Stop, Exit 0 ''champion gRPC graceful shutdown timed out'']
                        else [Exit 0 ''champion gRPC service stopped''])))))"

section \<open>Properties\<close>

lemma MustRegister_new:
  "distinct (map metric_name ms) \<Longrightarrow> metric_name ` set ms \<inter> metric_name ` set known = {} \<Longrightarrow>
    MustRegister ms known = Some (known @ ms)"
  by (induction ms arbitrary: known) auto

lemma collector_names: "distinct (map metric_name collectors)"
  by code_simp

lemma collector_prefix: "m \<in> set collectors \<Longrightarrow> HasPrefix ''lol_timer_'' (metric_name m)"
proof -
  have "\<forall>m \<in> set collectors. HasPrefix ''lol_timer_'' (metric_name m)" by code_simp
  then show "m \<in> set collectors \<Longrightarrow> HasPrefix ''lol_timer_'' (metric_name m)" by blast
qed

text \<open>Registration does not panic among other names, and once done is done.\<close>

lemma Register_collectors:
  assumes "\<forall>m \<in> set (registered reg). \<not> HasPrefix ''lol_timer_'' (metric_name m)" "\<not> registerOnce reg"
  shows "Register reg = Some \<lparr>registered = registered reg @ collectors, registerOnce = True\<rparr>"
    and "Register \<lparr>registered = registered reg @ collectors, registerOnce = True\<rparr> =
      Some \<lparr>registered = registered reg @ collectors, registerOnce = True\<rparr>"
proof -
  have "metric_name ` set collectors \<inter> metric_name ` set (registered reg) = {}"
    using assms(1) collector_prefix by fastforce
  then have "MustRegister collectors (registered reg) = Some (registered reg @ collectors)"
    using MustRegister_new [OF collector_names] by blast
  then show "Register reg = Some \<lparr>registered = registered reg @ collectors, registerOnce = True\<rparr>"
    using assms(2) by (cases reg) (simp add: Register_def)
qed (simp add: Register_def)



text \<open>The status that the health server reports for a name after some actions.\<close>

fun health :: "bool option \<Rightarrow> champion_action list \<Rightarrow> string \<Rightarrow> bool option" where
  "health status [] n = status"
| "health status (SetServing m b # acts) n = health (if m = n then Some b else status) acts n"
| "health status (act # acts) n = health status acts n"

text \<open>
  The champion service serves exactly a loaded catalog: it serves only after the load
  succeeded and it listens, and what it serves is that catalog. Its health checks say serving
  only once it listens, and after a signal both say not serving from before it starts to stop. It
  exits once, at the end, with an error exactly when loading, listening or serving failed.
\<close>

theorem champion_service_serves_the_loaded_catalog:
  assumes "champion_main env d order listen stopped ending = acts"
  shows "(\<forall>pre c post. acts = pre @ Serve c # post \<longrightarrow> (\<exists>a. Listen a \<in> set pre) \<and>
      (\<exists>s. Load d (NewChampionService order) = (s, Inr ()) \<and> c = service_catalog s)) \<and>
    (\<forall>pre post n. acts = pre @ post \<and> health None pre n = Some True \<longrightarrow> (\<exists>a. Listen a \<in> set pre)) \<and>
    (\<forall>pre post n. acts = pre @ GracefulStop # post \<and> n \<in> {[], champion_service_name} \<longrightarrow>
      health None pre n = Some False \<and> health None acts n = Some False) \<and>
    (\<exists>pre code text. acts = pre @ [Exit code text] \<and> (\<forall>c t. Exit c t \<notin> set pre) \<and>
      (code = 0 \<longleftrightarrow> snd (Load d (NewChampionService order)) = Inr () \<and> listen = None \<and>
         (\<forall>e. ending = ServeEnded (Some e) \<longrightarrow> stopped e)))"
proof -
  obtain s res where l: "Load d (NewChampionService order) = (s, res)" by (meson surj_pair)
  define lv where "lv = logger_New (if env ''LOG_LEVEL'' = [] then ''info'' else env ''LOG_LEVEL'')"
  define address where "address = (if env ''CHAMPION_GRPC_ADDRESS'' = [] then '':50051'' else env ''CHAMPION_GRPC_ADDRESS'')"
  let ?start = "[SetLogger lv, Listen address, SetServing [] True, SetServing champion_service_name True, Serve (service_catalog s)]"
  let ?stop = "[SetServing [] False, SetServing champion_service_name False, GracefulStop]"
  consider (load) e t where "res = Inl e" "acts = [SetLogger lv, Exit 1 t]"
    | (listen) e t where "res = Inr ()" "listen = Some e" "acts = [SetLogger lv, Exit 1 t]"
    | (failed) e t where "res = Inr ()" "listen = None" "ending = ServeEnded (Some e)" "\<not> stopped e" "acts = ?start @ [Exit 1 t]"
    | (ended) err where "res = Inr ()" "listen = None" "ending = ServeEnded err" "\<forall>e. err = Some e \<longrightarrow> stopped e" "acts = ?start @ [Exit 0 []]"
    | (slow) t where "res = Inr ()" "listen = None" "ending = Signalled True" "acts = ?start @ ?stop @ [Stop, Exit 0 t]"
    | (graceful) t where "res = Inr ()" "listen = None" "ending = Signalled False" "acts = ?start @ ?stop @ [Exit 0 t]"
    using assms by (auto simp: champion_main_def l address_def lv_def Let_def split: sum.splits option.splits serve_end.splits if_splits)
  then show ?thesis
  proof cases
    case load
    then show ?thesis by (auto simp: l Cons_eq_append_conv)
  next
    case listen
    then show ?thesis by (auto simp: l Cons_eq_append_conv)
  next
    case failed
    then show ?thesis by (auto simp: l Cons_eq_append_conv split: if_splits)
  next
    case ended
    then show ?thesis by (auto simp: l Cons_eq_append_conv split: if_splits)
  next
    case slow
    then show ?thesis by (auto simp: l Cons_eq_append_conv champion_service_name_def split: if_splits)
  next
    case graceful
    then show ?thesis by (auto simp: l Cons_eq_append_conv champion_service_name_def split: if_splits)
  qed
qed

theorem champion_service_serves_the_loaded_catalog_witness:
  "\<exists>pre t. champion_main (\<lambda>key. []) ex_dragon (\<lambda>xs. xs) None (\<lambda>e. False) (Signalled False) = pre @ [Exit 0 t] \<and>
     (\<exists>c \<in> {c. Serve c \<in> set pre}. cat_Version c = ''15.1'')"
proof -
  let ?acts = "champion_main (\<lambda>key. []) ex_dragon (\<lambda>xs. xs) None (\<lambda>e. False) (Signalled False)"
  obtain s where s: "Load ex_dragon (NewChampionService (\<lambda>xs. xs)) = (s, Inr ())" "catalog_version s = ''15.1''"
    by (simp add: Load_def loadLatestVersion_def loadChampions_def ex_dragon_def)
  obtain pre code t where a: "?acts = pre @ [Exit code t]" "code = 0"
    using champion_service_serves_the_loaded_catalog [OF refl, of "\<lambda>key. []" ex_dragon "\<lambda>xs. xs" None "\<lambda>e. False" "Signalled False"] s(1)
    by auto
  have "Serve (service_catalog s) \<in> set ?acts" by (simp add: champion_main_def s(1))
  then have "Serve (service_catalog s) \<in> set pre" using a(1) by simp
  moreover have "cat_Version (service_catalog s) = ''15.1''" by (simp add: service_catalog_def s(2))
  ultimately show ?thesis using a by blast
qed

end
