(* ===== verification/RoomMachine.thy ===== *)
theory RoomMachine
  imports RoomProps
begin

text \<open>
  What the room service promises, as a machine without repositories, schedules of faults and
  loops: the rooms by identifier, the current room, and the announcements each step makes. The
  service over any repository that meets the contract refines it, whatever fails.
\<close>

section \<open>The machine\<close>

record rooms =
  ab_rooms :: "string \<Rightarrow> room option"
  ab_current :: string

datatype announcement = RoomUpdated string | CurrentChanged string

fun announce :: "announcement \<Rightarrow> nats \<Rightarrow> nats" where
  "announce (RoomUpdated i) n = notify_room i n"
| "announce (CurrentChanged i) n = notify_current i n"

text \<open>What a user or the League client may do to a room.\<close>

inductive edit :: "room \<Rightarrow> room \<Rightarrow> bool" where
  add: "\<forall>s \<in> set (elems (Spells p)). wf_spell s \<Longrightarrow> edit x (add_to_room saved x p)"
| toggle: "FindPlayerByRiotId x gn tg = Some k \<Longrightarrow> FindSpell (elems (Players x) ! k) sp = Some j \<Longrightarrow>
    edit x (toggle_in_room now saved x k j)"
| replace: "distinct (map (\<lambda>p. (GameName p, TagLine p)) players) \<Longrightarrow> \<forall>p \<in> set players. wf_player p \<Longrightarrow>
    edit x (replace_in_room saved x (Some players))"

text \<open>
  The store keeps times through \<open>f\<close> and \<open>g\<close>. An edit is announced; one whose reply was lost is
  not, and the caller is told of an error. A refresh announces every room it changed, unless it
  fails on the way. Only expiry removes rooms, and it may forget the current room in silence.
\<close>

inductive machine_step :: "(time \<Rightarrow> time) \<Rightarrow> (time \<Rightarrow> time) \<Rightarrow> rooms \<Rightarrow> announcement list \<Rightarrow> rooms \<Rightarrow> bool" for f g where
  idle: "machine_step f g a [] a"
| create: "i \<noteq> [] \<Longrightarrow> ab_rooms a i = None \<Longrightarrow>
    machine_step f g a [] (a\<lparr>ab_rooms := (ab_rooms a)(i \<mapsto> store_room f g \<lparr>Id = i, Players = None, LastUpdated = now\<rparr>)\<rparr>)"
| edited: "ab_rooms a i = Some v \<Longrightarrow> agree f g x v \<Longrightarrow> edit x x' \<Longrightarrow>
    machine_step f g a [RoomUpdated i] (a\<lparr>ab_rooms := (ab_rooms a)(i \<mapsto> store_room f g x')\<rparr>)"
| unconfirmed: "ab_rooms a i = Some v \<Longrightarrow> agree f g x v \<Longrightarrow> edit x x' \<Longrightarrow>
    machine_step f g a [] (a\<lparr>ab_rooms := (ab_rooms a)(i \<mapsto> store_room f g x')\<rparr>)"
| synced: "ab_rooms a i = Some v \<Longrightarrow> agree f g x v \<Longrightarrow> edit x x' \<Longrightarrow>
    machine_step f g a (RoomUpdated i # (if ab_current a = i then [] else [CurrentChanged i]))
      (a\<lparr>ab_rooms := (ab_rooms a)(i \<mapsto> store_room f g x'), ab_current := i\<rparr>)"
| refreshed: "(\<And>i. ab_rooms a i = None \<Longrightarrow> m i = None) \<Longrightarrow>
    (\<And>i v. ab_rooms a i = Some v \<Longrightarrow> \<exists>t. m i = Some (refreshed f g t v)) \<Longrightarrow>
    (\<And>i. m i \<noteq> ab_rooms a i \<Longrightarrow> i \<in> set ids) \<Longrightarrow> set ids \<subseteq> dom (ab_rooms a) \<Longrightarrow>
    machine_step f g a (map RoomUpdated ids) (a\<lparr>ab_rooms := m\<rparr>)"
| partly_refreshed: "(\<And>i. ab_rooms a i = None \<Longrightarrow> m i = None) \<Longrightarrow>
    (\<And>i v. ab_rooms a i = Some v \<Longrightarrow> m i = Some v \<or> (\<exists>t. m i = Some (refreshed f g t v))) \<Longrightarrow>
    machine_step f g a [] (a\<lparr>ab_rooms := m\<rparr>)"
| expired: "(\<And>i. m i = ab_rooms a i \<or> (\<exists>v. ab_rooms a i = Some v \<and> expired now v \<and> m i = None)) \<Longrightarrow>
    c = ab_current a \<or> c = [] \<and> m (ab_current a) = None \<Longrightarrow> machine_step f g a [] \<lparr>ab_rooms = m, ab_current = c\<rparr>"
| selected: "ab_current a \<noteq> i \<Longrightarrow> machine_step f g a [CurrentChanged i] (a\<lparr>ab_current := i\<rparr>)"
| cleared: "machine_step f g a [CurrentChanged []] (a\<lparr>ab_current := []\<rparr>)"

inductive machine_run :: "(time \<Rightarrow> time) \<Rightarrow> (time \<Rightarrow> time) \<Rightarrow> rooms \<Rightarrow> announcement list \<Rightarrow> rooms \<Rightarrow> bool" for f g where
  none: "machine_run f g a [] a"
| more: "machine_run f g a as b \<Longrightarrow> machine_step f g b bs c \<Longrightarrow> machine_run f g a (as @ bs) c"

section \<open>The refinement\<close>

definition abs_rooms :: "('s \<Rightarrow> string \<Rightarrow> room option) \<Rightarrow> 's room_service \<Rightarrow> rooms" where
  "abs_rooms view st = \<lparr>ab_rooms = service_view view st, ab_current = currentRoomID st\<rparr>"

lemma abs_rooms_simps [simp]:
  "ab_rooms (abs_rooms view st) = service_view view st" "ab_current (abs_rooms view st) = currentRoomID st"
  by (simp_all add: abs_rooms_def)

lemma abs_roomsI:
  "service_view view st' = m \<Longrightarrow> currentRoomID st' = currentRoomID st \<Longrightarrow> abs_rooms view st' = (abs_rooms view st)\<lparr>ab_rooms := m\<rparr>"
  by (simp add: abs_rooms_def)

definition simulated :: "('s \<Rightarrow> string \<Rightarrow> room option) \<Rightarrow> (time \<Rightarrow> time) \<Rightarrow> (time \<Rightarrow> time) \<Rightarrow> 's room_service \<Rightarrow> 's room_service \<Rightarrow> bool" where
  "simulated view f g st st' \<longleftrightarrow>
     (\<exists>as. machine_step f g (abs_rooms view st) as (abs_rooms view st') \<and> conn st' = fold announce as (conn st))"

lemma simulatedI:
  "machine_step f g (abs_rooms view st) as a' \<Longrightarrow> a' = abs_rooms view st' \<Longrightarrow> conn st' = fold announce as (conn st) \<Longrightarrow>
    simulated view f g st st'"
  by (auto simp: simulated_def)

lemma simulated_idle:
  "service_view view st' = service_view view st \<Longrightarrow> currentRoomID st' = currentRoomID st \<Longrightarrow> conn st' = conn st \<Longrightarrow>
    simulated view f g st st'"
  by (rule simulatedI [OF machine_step.idle]) (simp_all add: abs_rooms_def)

lemma fold_announce_rooms: "fold announce (map RoomUpdated ids) n = fold notify_room ids n"
  by (induction ids arbitrary: n) simp_all

context room_service
begin

lemma wrote_edit:
  assumes "wrote st st' i Q" "\<And>x x'. Q x x' \<Longrightarrow> edit x x'"
  obtains x v x' where "sview st i = Some v" "agree f g x v" "edit x x'" "sview st' = (sview st)(i \<mapsto> store_room f g x')"
  using assms unfolding wrote_def by blast

lemma wrote_unconfirmed:
  assumes "wrote st st' i Q" "\<And>x x'. Q x x' \<Longrightarrow> edit x x'" "currentRoomID st' = currentRoomID st" "conn st' = conn st"
  shows "simulated view f g st st'"
  by (rule wrote_edit [OF assms(1,2)], assumption)
    (rule simulatedI [OF machine_step.unconfirmed [of "abs_rooms view st"]], simp_all add: abs_rooms_def assms(3,4))

lemma updates_simulated:
  assumes "updates st i Q (notify_room i) F st' res" "\<And>x x'. Q x x' \<Longrightarrow> edit x x'"
  shows "simulated view f g st st'"
proof -
  note u = updatesD [OF assms(1)]
  consider "sview st' = sview st" "conn st' = conn st"
    | "conn st' = conn st" "wrote st st' i Q" | "conn st' = notify_room i (conn st)" "wrote st st' i Q"
    using u(3-5) by (cases res) (metis (full_types))+
  then show ?thesis
  proof cases
    case 1 then show ?thesis using u(2) by (intro simulated_idle)
  next
    case 2 then show ?thesis using u(2) assms(2) by (intro wrote_unconfirmed)
  next
    case 3
    show ?thesis
      by (rule wrote_edit [OF 3(2) assms(2)], assumption)
        (rule simulatedI [OF machine_step.edited [of "abs_rooms view st"]], simp_all add: abs_rooms_def u(2) 3(1))
  qed
qed

lemma sync_simulated:
  assumes "SyncFromChampSelect r cat saved i sess c st = (c', st', res)" "sinv st"
    and d: "\<And>se. sess = Some se \<Longrightarrow> distinct (member_ids se)"
  shows "simulated view f g st st'"
proof -
  note step = SyncFromChampSelect_step [OF assms(1,2) d]
  have e: "edit x x'"
    if "sess = Some se" "map (\<lambda>p. (GameName p, TagLine p)) players = member_ids se" "\<forall>p \<in> set players. wf_player p"
      "x' = replace_in_room saved x (Some players) \<and> Players x' \<noteq> Players x" for se players x x'
    using that d edit.replace by simp
  consider "sview st' = sview st" "conn st' = conn st" "currentRoomID st' = currentRoomID st"
    | Q where "wrote st st' i Q" "\<And>x x'. Q x x' \<Longrightarrow> edit x x'" "conn st' = conn st" "currentRoomID st' = currentRoomID st"
    | Q where "wrote st st' i Q" "\<And>x x'. Q x x' \<Longrightarrow> edit x x'" "currentRoomID st' = i"
        "conn st' = (if currentRoomID st = i then notify_room i (conn st) else notify_current i (notify_room i (conn st)))"
  proof (cases res)
    case (Inl err)
    from step(3) [OF _ Inl] that(1,2) e show thesis by blast
  next
    case (Inr b)
    show thesis
    proof (cases b)
      case True
      from step(4) Inr True that(3) e show thesis by blast
    next
      case False
      from step(2) Inr False that(1) show thesis by blast
    qed
  qed
  then show ?thesis
  proof cases
    case 1 then show ?thesis by (intro simulated_idle)
  next
    case 2 then show ?thesis by (intro wrote_unconfirmed)
  next
    case 3
    show ?thesis
      by (rule wrote_edit [OF 3(1,2)], assumption)
        (rule simulatedI [OF machine_step.synced [of "abs_rooms view st"]], simp_all add: abs_rooms_def 3(3,4) split del: if_split, simp split: if_split)
  qed
qed

lemma create_simulated:
  assumes "CreateRoom r now i st = (st', res)" "sinv st"
  shows "simulated view f g st st'"
proof -
  note c = CreateRoom_step [OF assms(2,1)]
  consider "sview st' = sview st"
    | "i \<noteq> []" "sview st i = None" "sview st' = (sview st)(i \<mapsto> store_room f g \<lparr>Id = i, Players = None, LastUpdated = now\<rparr>)"
    using c(2,3) by blast
  then show ?thesis
  proof cases
    case 1 then show ?thesis using c(1) by (intro simulated_idle) simp_all
  next
    case 2
    show ?thesis
      by (rule simulatedI [OF machine_step.create [of i "abs_rooms view st"]]) (use 2 c(1) in \<open>simp_all add: abs_rooms_def\<close>)
  qed
qed

lemma refresh_simulated:
  assumes "RefreshCooldowns r clock st = (st', res)" "sinv st"
  shows "simulated view f g st st'"
proof (cases res)
  case (Inl e)
  note c = RefreshCooldowns_step [OF assms]
  have m: "machine_step f g (abs_rooms view st) [] ((abs_rooms view st)\<lparr>ab_rooms := sview st'\<rparr>)"
    by (rule machine_step.partly_refreshed) (use c(2,3) in auto)
  show ?thesis by (rule simulatedI [OF m]) (use c(1) c(4) [OF Inl] in \<open>simp_all add: abs_rooms_def\<close>)
next
  case (Inr u)
  note c = RefreshCooldowns_step [OF assms]
  obtain ids where ids: "conn st' = fold notify_room ids (conn st)" "set ids \<subseteq> dom (sview st)"
    "\<And>i v. sview st i = Some v \<Longrightarrow> (\<exists>k. sview st' i = Some (refreshed f g (clock k) v)) \<and> (sview st' i \<noteq> Some v \<longrightarrow> i \<in> set ids)"
    using RefreshCooldowns_announces [OF assms(1) [unfolded Inr] assms(2)] by blast
  have m: "machine_step f g (abs_rooms view st) (map RoomUpdated ids) ((abs_rooms view st)\<lparr>ab_rooms := sview st'\<rparr>)"
  proof (rule machine_step.refreshed)
    show "i \<in> set ids" if "sview st' i \<noteq> ab_rooms (abs_rooms view st) i" for i
      using that ids(3) [of i] c(2) [of i] by (cases "sview st i") auto
    show "\<exists>t. sview st' i = Some (refreshed f g t v)" if "ab_rooms (abs_rooms view st) i = Some v" for i v
      using ids(3) [of i v] that by auto
  qed (use c(2) ids(2) in simp_all)
  show ?thesis
    by (rule simulatedI [OF m]) (use c(1) ids(1) in \<open>simp_all add: abs_rooms_def fold_announce_rooms\<close>)
qed

lemma cleanup_simulated:
  assumes "cleanupOldRooms r now st = (st', res)" "sinv st"
  shows "simulated view f g st st'"
proof -
  note c = cleanupOldRooms_step [OF assms]
  have "machine_step f g (abs_rooms view st) [] \<lparr>ab_rooms = sview st', ab_current = currentRoomID st'\<rparr>"
    by (rule machine_step.expired) (use c(2,5) in auto)
  then show ?thesis by (rule simulatedI) (use c(1) in \<open>simp_all add: abs_rooms_def\<close>)
qed

lemma room_step_simulated:
  assumes "room_step r cat st st'" "sinv st"
  shows "simulated view f g st st'"
  using assms
proof (cases rule: room_step.cases)
  case (create now i res)
  then show ?thesis using create_simulated assms(2) by blast
next
  case (add saved i p res)
  with assms(2) show ?thesis by (intro updates_simulated [OF AddPlayer_updates]) (auto intro: edit.add)
next
  case (toggle now saved i gn tg sp res)
  show ?thesis
  proof (rule ToggleSpell_updates [OF assms(2) toggle(2), of saved i gn tg sp], goal_cases)
    case (1 st1 res1)
    from 1(1) toggle(1) have [simp]: "st1 = st'" by simp
    from updates_simulated [OF 1(2)] edit.toggle show ?case by (metis \<open>st1 = st'\<close>)
  qed
next
  case (refresh clock res)
  then show ?thesis using refresh_simulated assms(2) by blast
next
  case (cleanup now res)
  then show ?thesis using cleanup_simulated assms(2) by blast
next
  case (sync saved i sess c c' res)
  from sync_simulated [OF sync(1) assms(2) sync(2)] show ?thesis .
next
  case (snapshot i res)
  obtain s q where g: "repo_get r i (repo_state st) = (s, q)" by (meson surj_pair)
  with get_step(2) [OF assms(2) g] snapshot show ?thesis
    by (intro simulated_idle) (auto simp: GetRoomSnapshot_def split: sum.splits)
next
  case (snapshots res)
  obtain s q where g: "repo_get_all r (repo_state st) = (s, q)" by (meson surj_pair)
  with get_all_step(2) [OF assms(2) g] snapshots show ?thesis
    by (intro simulated_idle) (auto simp: GetRoomSnapshots_def split: sum.splits)
next
  case (set_current i)
  show ?thesis
  proof (cases "currentRoomID st = i")
    case True with set_current show ?thesis by (intro simulated_idle) (simp_all add: SetCurrentRoomID_def)
  next
    case False
    then show ?thesis
      by (intro simulatedI [OF machine_step.selected [of "abs_rooms view st" i]])
        (simp_all add: set_current abs_rooms_def sinv_conn_current)
  qed
next
  case (clear_current i)
  show ?thesis
  proof (cases "currentRoomID st = i")
    case False with clear_current show ?thesis by (intro simulated_idle) (simp_all add: ClearCurrentRoomID_def)
  next
    case True
    then show ?thesis
      by (intro simulatedI [OF machine_step.cleared])
        (simp_all add: clear_current abs_rooms_def ClearCurrentRoomID_def publish_eqs)
  qed
next
  case (new_context ps)
  then show ?thesis by (intro simulated_idle) simp_all
qed

lemma room_steps_simulated:
  assumes "(room_step r cat)\<^sup>*\<^sup>* st st'" "sinv st"
  shows "\<exists>as. machine_run f g (abs_rooms view st) as (abs_rooms view st') \<and> conn st' = fold announce as (conn st)"
  using assms(1)
proof (induction rule: rtranclp_induct)
  case base
  show ?case by (rule exI [of _ "[]"]) (simp add: machine_run.none)
next
  case (step st1 st2)
  from step.IH obtain as where as: "machine_run f g (abs_rooms view st) as (abs_rooms view st1)"
    "conn st1 = fold announce as (conn st)" by blast
  from room_step_simulated [OF step.hyps(2) room_steps_inv [OF step.hyps(1) assms(2)]]
  obtain bs where bs: "machine_step f g (abs_rooms view st1) bs (abs_rooms view st2)"
    "conn st2 = fold announce bs (conn st1)" by (auto simp: simulated_def)
  show ?case by (rule exI [of _ "as @ bs"]) (use machine_run.more [OF as(1) bs(1)] as(2) bs(2) in simp)
qed

end

end
