(* ===== verification/System.thy ===== *)
theory System
  imports Server Pipeline RoomMachine
begin

text \<open>
  Everything together: the running server (\<open>Server\<close>) shares its game lifecycle service with the
  path of the game events (\<open>Pipeline\<close>), and its rooms are those of the machine (\<open>RoomMachine\<close>).
  Each part keeps what it guaranteed alone, and what is stored anywhere can be traced to the
  Champion Select sessions that the League client showed.
\<close>

section \<open>The whole program\<close>

record ('s, 'c) program =
  prog_server :: "('s, 'c, outbox_db) server"
  prog_js :: jetstream
  prog_labels :: "string list"
  prog_inbox :: inbox_db

abbreviation prog_sync :: "('s, 'c) program \<Rightarrow> ('s, 'c, outbox_db) sync_state" where
  "prog_sync s \<equiv> srv_sync (prog_server s)"

abbreviation prog_rooms :: "('s, 'c) program \<Rightarrow> 's room_service" where
  "prog_rooms s \<equiv> sync_rooms (prog_sync s)"

abbreviation (input) set_sync :: "('s, 'c, outbox_db) sync_state \<Rightarrow> ('s, 'c) program \<Rightarrow> ('s, 'c) program" where
  "set_sync y s \<equiv> s\<lparr>prog_server := (prog_server s)\<lparr>srv_sync := y\<rparr>\<rparr>"

definition prog_pipe :: "('s, 'c) program \<Rightarrow> pipeline" where
  "prog_pipe s = \<lparr>pl_games = sync_games (prog_sync s), pl_js = prog_js s, pl_labels = prog_labels s, pl_inbox = prog_inbox s\<rparr>"

definition set_pipe :: "pipeline \<Rightarrow> ('s, 'c) program \<Rightarrow> ('s, 'c) program" where
  "set_pipe p s = (set_sync ((prog_sync s)\<lparr>sync_games := pl_games p\<rparr>) s)
     \<lparr>prog_js := pl_js p, prog_labels := pl_labels p, prog_inbox := pl_inbox p\<rparr>"

lemma set_pipe_simps [simp]:
  "prog_pipe (set_pipe p s) = p" "prog_rooms (set_pipe p s) = prog_rooms s" "srv_hub (prog_server (set_pipe p s)) = srv_hub (prog_server s)"
  by (simp_all add: prog_pipe_def set_pipe_def)

text \<open>
  Every interleaving of the parts, from a server \<open>s0\<close> that starts with empty tables, together
  with the Champion Select sessions that the client showed.
\<close>

inductive program_reach ::
  "'s room_repo \<Rightarrow> (int \<Rightarrow> 'c \<Rightarrow> 'c \<times> (go_error + champion_info)) \<Rightarrow> pg_driver \<Rightarrow> ('s, 'c, outbox_db) server \<Rightarrow>
   champ_select_session set \<Rightarrow> ('s, 'c) program \<Rightarrow> bool" for r cat d s0 where
  start: "sync_games (srv_sync s0) = NewGameLifecycleService db \<Longrightarrow> outbox_rows db = [] \<Longrightarrow> js_sent js = [] \<Longrightarrow>
    game_sessions inbox = [] \<Longrightarrow>
    program_reach r cat d s0 {} \<lparr>prog_server = s0, prog_js = js, prog_labels = [], prog_inbox = inbox\<rparr>"
| serve: "program_reach r cat d s0 shown s \<Longrightarrow> serve_step r (prog_server s) v \<Longrightarrow>
    program_reach r cat d s0 shown (s\<lparr>prog_server := v\<rparr>)"
| tick: "program_reach r cat d s0 shown s \<Longrightarrow> zero_time < in_now i \<Longrightarrow>
    (\<And>session. selecting i (sync_lol (prog_sync s)) session \<Longrightarrow> distinct (member_ids session)) \<Longrightarrow>
    program_reach r cat d s0 (shown \<union> {session. selecting i (sync_lol (prog_sync s)) session})
      (set_sync (champ_select_tick r cat Enqueue i (prog_sync s)) s)"
| relay: "program_reach r cat d s0 shown s \<Longrightarrow> (\<forall>xs. mset (ret xs) = mset xs) \<Longrightarrow>
    RelayOnce locked ret now (pl_relay (prog_pipe s)) = (st, result, err) \<Longrightarrow>
    program_reach r cat d s0 shown (set_pipe (pl_relayed st (prog_pipe s)) s)"
| clean_outbox: "program_reach r cat d s0 shown s \<Longrightarrow> OutboxCleanup now (outbox (sync_games (prog_sync s))) = (db, res') \<Longrightarrow>
    program_reach r cat d s0 shown (set_sync ((prog_sync s)\<lparr>sync_games := (sync_games (prog_sync s))\<lparr>outbox := db\<rparr>\<rparr>) s)"
| deliver: "program_reach r cat d s0 shown s \<Longrightarrow> (subject, i, GamePayload bytes) \<in> set (js_sent (prog_js s)) \<Longrightarrow>
    Handle (pg_game_events d t) subject bytes (prog_inbox s) = (inbox, out) \<Longrightarrow>
    program_reach r cat d s0 shown (s\<lparr>prog_inbox := inbox\<rparr>)"
| clean_inbox: "program_reach r cat d s0 shown s \<Longrightarrow> ProcessedCleanup now (prog_inbox s) = (inbox, deleted) \<Longrightarrow>
    program_reach r cat d s0 shown (s\<lparr>prog_inbox := inbox\<rparr>)"

section \<open>The events of the program\<close>

text \<open>A session, as the game and the room that are recorded for it.\<close>

definition session_key :: "champ_select_session \<Rightarrow> int \<times> string" where
  "session_key session = (GameId session, BuildRoomId (Some session))"

lemma serve_step_games: "serve_step r s s' \<Longrightarrow> sync_games (srv_sync s') = sync_games (srv_sync s)"
  by (induction rule: serve_step.induct) simp_all

lemma observation_shown:
  assumes "observation i l = Some (phase, g, k)"
  shows "phase \<noteq> ''ChampSelect'' \<or> (\<exists>session. selecting i l session \<and> session_key session = (g, k))"
proof -
  obtain l' q where l: "GetGameflowPhase (in_env1 i) l = (l', q)" by (meson surj_pair)
  show ?thesis
    using assms l client_answers(2) [of "in_env2 i" l' l]
    by (auto simp: observation_def selecting_def session_key_def split: sum.splits if_splits) (metis sym)
qed

lemma program_pipeline:
  "program_reach r cat d s0 shown s \<Longrightarrow> \<exists>seen. seen \<subseteq> session_key ` shown \<and> pipeline_reach d seen (prog_pipe s)"
proof (induction rule: program_reach.induct)
  case (start db js inbox)
  from pipeline_reach.start [OF start(2-4), of d] start(1) show ?case by (auto simp: prog_pipe_def)
next
  case (serve shown s v)
  with serve_step_games [OF serve.hyps(2)] show ?case by (simp add: prog_pipe_def)
next
  case (tick shown s i)
  then obtain seen where seen: "seen \<subseteq> session_key ` shown" "pipeline_reach d seen (prog_pipe s)" by blast
  let ?s = "set_sync (champ_select_tick r cat Enqueue i (prog_sync s)) s"
  show ?case
  proof (cases "observation i (sync_lol (prog_sync s))")
    case None
    with seen show ?thesis by (auto simp: prog_pipe_def tick_games)
  next
    case (Some o3)
    then obtain phase g k where o: "observation i (sync_lol (prog_sync s)) = Some (phase, g, k)" by (cases o3) auto
    let ?seen = "if phase = ''ChampSelect'' then insert (g, k) seen else seen"
    obtain games res where ob: "Observe Enqueue (in_rnd i) (in_now i) (in_t1 i) (in_t2 i) phase g k (sync_games (prog_sync s)) = (games, res)"
      by (meson surj_pair)
    have ob': "Observe Enqueue (in_rnd i) (in_now i) (in_t1 i) (in_t2 i) phase g k (pl_games (prog_pipe s)) = (games, res)"
      using ob by (simp add: prog_pipe_def)
    have pipe: "prog_pipe ?s = (prog_pipe s)\<lparr>pl_games := games\<rparr>" by (simp add: prog_pipe_def tick_games o ob)
    have "pipeline_reach d ?seen (prog_pipe ?s)" unfolding pipe
      by (rule pipeline_reach.observe [OF seen(2) tick.hyps(2) ob' refl])
    moreover have "?seen \<subseteq> session_key ` (shown \<union> {session. selecting i (sync_lol (prog_sync s)) session})"
      using observation_shown [OF o] seen(1) by (auto intro: image_eqI [OF sym])
    ultimately show ?thesis by blast
  qed
next
  case (relay shown s ret locked now st result err)
  from relay.IH pipeline_reach.relay [OF _ relay.hyps(2,3)] show ?case by auto
next
  case (clean_outbox shown s now db res')
  then obtain seen where "seen \<subseteq> session_key ` shown" "pipeline_reach d seen (prog_pipe s)" by blast
  with pipeline_reach.clean_outbox [of d seen "prog_pipe s" now db res'] clean_outbox.hyps(2) show ?case
    by (auto simp: prog_pipe_def)
next
  case (deliver shown s subject i bytes t inbox out)
  then obtain seen where "seen \<subseteq> session_key ` shown" "pipeline_reach d seen (prog_pipe s)" by blast
  with pipeline_reach.deliver [of d seen "prog_pipe s" subject i bytes t inbox out] deliver.hyps(2,3) show ?case
    by (auto simp: prog_pipe_def)
next
  case (clean_inbox shown s now inbox deleted)
  then obtain seen where "seen \<subseteq> session_key ` shown" "pipeline_reach d seen (prog_pipe s)" by blast
  with pipeline_reach.clean_inbox [of d seen "prog_pipe s" now inbox deleted] clean_inbox.hyps(2) show ?case
    by (auto simp: prog_pipe_def)
qed

section \<open>The rooms of the program\<close>

lemma endpoint_rooms:
  "HandleWebSocket r i upgrade fs deadline (st, h) = (sh', out) \<Longrightarrow> fst sh' = st \<or> (\<exists>res. GetRoomSnapshot r i st = (fst sh', res))"
  "HandleCurrentRoomWebSocket upgrade fs (st, h) = (sh', out) \<Longrightarrow> fst sh' = st"
  "handleRoomUpdated r data (st, h) = sh' \<Longrightarrow> fst sh' = st \<or> (\<exists>i res. GetRoomSnapshot r i st = (fst sh', res))"
  by (auto simp: HandleWebSocket_def HandleCurrentRoomWebSocket_def handleRoomUpdated_def Let_def
      split: prod.splits sum.splits option.splits if_splits)

lemma handler_rooms:
  "fst (fst (on_rooms h req (st, hb))) = fst (h req st)"
  "fst (ws_handler r env req sh) = fst (HandleWebSocket r (QueryRoomId req) (re_upgrade env) (re_writes env) (re_deadline env) sh)"
  "fst (ws_current_handler env req sh) = fst (HandleCurrentRoomWebSocket (re_upgrade env) (re_writes env) sh)"
  by (simp_all add: on_rooms_def ws_handler_def ws_current_handler_def split: prod.split)

context room_service
begin

lemma routes_use:
  assumes "sinv st" "0 \<le> re_now env" "(pat, h) \<in> set (app_routes r lib env)"
  shows "room_use cat st (fst (fst (h req (st, hb))))"
proof -
  have "room_use cat st (fst (HandleRooms r (re_now env) (re_saved env) (re_enc env) req st))"
    using HandleRooms_use [OF assms(1,2)] by (metis prod.collapse)
  moreover have "room_use cat st (fst (fst (HandleWebSocket r (QueryRoomId req) (re_upgrade env) (re_writes env) (re_deadline env) (st, hb))))"
    using endpoint_rooms(1) room_uses(2) [OF assms(1)] by (metis prod.collapse room_use_refl)
  moreover have "fst (fst (HandleCurrentRoomWebSocket (re_upgrade env) (re_writes env) (st, hb))) = st"
    using endpoint_rooms(2) by (metis prod.collapse)
  moreover have "fst (Health enc req st) = st" "fst (Ready pg redis enc req st) = st" "fst (http_GetCurrentRoom enc req st) = st"
    for enc pg redis using quiet_handlers by (metis prod.collapse)+
  ultimately show ?thesis
    using assms(3) unfolding app_routes_def by (auto simp: handler_rooms)
qed

lemma app_handler_use:
  assumes "sinv st" "0 \<le> re_now env"
    and "app_handler redirect r lib env req ((st, hb), log) = ((sh', log'), acts, panicked)"
  shows "room_use cat st (fst sh')"
proof -
  let ?mux = "ServeMux redirect (app_routes r lib env)"
  have mux: "room_use cat st (fst sh)" if "fst (?mux req (st, hb)) = sh" for sh
    by (rule ServeMux_state [OF that]) (simp, blast intro: routes_use assms(1,2))
  from server_handler_state [of ?mux req "(st, hb)" "\<lambda>sh. room_use cat st (fst sh)" log] mux assms(3)
  show ?thesis by (simp add: app_handler_def)
qed

lemma serve_step_use: "serve_step r s s' \<Longrightarrow> sinv (srv_rooms s) \<Longrightarrow> room_use cat (srv_rooms s) (srv_rooms s')"
proof (induction rule: serve_step.induct)
  case (request redirect lib env req s st hb log acts panicked)
  from app_handler_use [OF request.prems request.hyps(2,1)] show ?case by simp
next
  case (room_updated data s st hb)
  from endpoint_rooms(3) [OF room_updated.hyps] room_uses(2) [OF room_updated.prems] show ?case by auto
qed (simp_all add: room_uses)

text \<open>A tick uses the rooms as well, or creates and selects the room of the session that is shown.\<close>

definition traced :: "string set \<Rightarrow> 's room_service \<Rightarrow> bool" where
  "traced ids st \<longleftrightarrow> (\<forall>i. sview st i \<noteq> None \<longrightarrow> i \<in> ids) \<and> (currentRoomID st = [] \<or> currentRoomID st \<in> ids)"

lemma traced_kept: "kept st st' \<Longrightarrow> traced ids st \<Longrightarrow> traced ids st'"
  unfolding traced_def kept_def by metis

lemma traced_mono: "traced ids st \<Longrightarrow> ids \<subseteq> ids' \<Longrightarrow> traced ids' st"
  by (auto simp: traced_def)

lemma traced_create: "sinv st \<Longrightarrow> CreateRoom r now i st = (st', res) \<Longrightarrow> traced ids st \<Longrightarrow> i \<in> ids \<Longrightarrow> traced ids st'"
  using CreateRoom_step(1,3) [of st now i st' res] by (auto simp: traced_def split: if_splits)

lemma traced_sync:
  assumes "SyncFromChampSelect r cat saved i (Some session) c st = (c', st', res)" "sinv st" "distinct (member_ids session)"
    and "traced ids st" "i \<in> ids"
  shows "traced ids st'"
proof -
  note ss = SyncFromChampSelect_step(2-4) [OF assms(1,2), simplified, OF assms(3)]
  have w: "\<forall>k. k \<noteq> i \<longrightarrow> sview st' k = sview st k" if "wrote st st' i Q" for Q
    using that by (auto simp: wrote_def)
  have "(\<forall>k. k \<noteq> i \<longrightarrow> sview st' k = sview st k) \<and> currentRoomID st' \<in> {i, currentRoomID st}"
  proof (cases res)
    case (Inl e)
    from ss(2) [OF Inl] w show ?thesis by auto
  next
    case (Inr b)
    with ss(1,3) w show ?thesis by (cases b) auto
  qed
  with assms(4,5) show ?thesis unfolding traced_def by (metis insert_iff singletonD)
qed

lemma traced_tick:
  assumes "sinv (sync_rooms st)" "traced ids (sync_rooms st)"
    and "\<And>session. selecting i (sync_lol st) session \<Longrightarrow> distinct (member_ids session) \<and> BuildRoomId (Some session) \<in> ids"
  shows "traced ids (sync_rooms (champ_select_tick r cat enq i st))"
proof -
  consider (outside) phase where "snd (GetGameflowPhase (in_env1 i) (sync_lol st)) = Inr phase" "phase \<noteq> ''ChampSelect''"
    | (select) session where "selecting i (sync_lol st) session" "BuildRoomId (Some session) \<noteq> []"
    | (idle) "sync_rooms (champ_select_tick r cat enq i st) = sync_rooms st"
    using tick_idle by blast
  then show ?thesis
  proof cases
    case outside
    have "kept (sync_rooms st) (ClearCurrentRoomID k (sync_rooms st))" for k
      using room_uses(5) unfolding room_use_def by blast
    then have "traced ids (ClearCurrentRoomID k (sync_rooms st))" for k by (rule traced_kept) (rule assms(2))
    with tick_outside(1) [OF outside] assms(2) show ?thesis by simp
  next
    case select
    let ?k = "BuildRoomId (Some session)"
    note k = assms(3) [OF select(1)]
    obtain rooms q where c: "CreateRoom r (in_created i) ?k (sync_rooms st) = (rooms, q)" by (meson surj_pair)
    obtain c' rooms' res where s: "SyncFromChampSelect r cat (in_saved i) ?k (Some session) (sync_catalog st) rooms = (c', rooms', res)"
      by (metis prod.collapse)
    have t1: "traced ids rooms" using traced_create [OF assms(1) c assms(2)] k by blast
    have i1: "sinv rooms" using CreateRoom_step(1) [OF assms(1) c] by simp
    have "traced ids rooms'" using traced_sync [OF s i1 _ t1] k by blast
    with t1 tick_selecting [OF select, of r cat enq] c s show ?thesis by (cases q) simp_all
  qed (use assms(2) in simp)
qed

definition prog_inv :: "(int \<Rightarrow> 'c \<Rightarrow> 'c \<times> (go_error + champion_info)) \<Rightarrow> 's room_service \<Rightarrow> champ_select_session set \<Rightarrow> ('s, 'c) program \<Rightarrow> bool" where
  "prog_inv cat st0 shown s \<longleftrightarrow> server_inv (prog_server s) \<and> (room_step r cat)\<^sup>*\<^sup>* st0 (prog_rooms s) \<and>
     traced (dom (sview st0) \<union> {currentRoomID st0} \<union> (\<lambda>session. BuildRoomId (Some session)) ` shown) (prog_rooms s)"

lemma prog_inv_frame:
  "prog_inv cat st0 shown s \<Longrightarrow> prog_rooms s' = prog_rooms s \<Longrightarrow> srv_hub (prog_server s') = srv_hub (prog_server s) \<Longrightarrow>
    prog_inv cat st0 shown s'"
  by (simp add: prog_inv_def server_inv_def)

lemma program_inv:
  "program_reach r cat d s0 shown s \<Longrightarrow> server_inv s0 \<Longrightarrow> prog_inv cat (srv_rooms s0) shown s"
proof (induction rule: program_reach.induct)
  case (start db js inbox)
  then show ?case by (auto simp: prog_inv_def traced_def)
next
  case (serve shown s v)
  then have i: "server_inv (prog_server s)" "prog_inv cat (srv_rooms s0) shown s" by (simp_all add: prog_inv_def)
  have "room_use cat (prog_rooms s) (srv_rooms v)"
    using serve_step_use [OF serve.hyps(2), of cat] i(1) by (simp add: server_inv_def)
  with i serve_step_inv [OF serve.hyps(2) i(1)] show ?case
    by (auto simp: prog_inv_def room_use_def intro: traced_kept)
next
  case (tick shown s i)
  then have i: "server_inv (prog_server s)" "prog_inv cat (srv_rooms s0) shown s" by (simp_all add: prog_inv_def)
  let ?st = "sync_rooms (champ_select_tick r cat Enqueue i (prog_sync s))"
  have "(room_step r cat)\<^sup>*\<^sup>* (prog_rooms s) ?st" by (rule tick_steps) (rule tick.hyps(3))
  moreover have "server_inv ((prog_server s)\<lparr>srv_sync := champ_select_tick r cat Enqueue i (prog_sync s)\<rparr>)"
    by (rule tick_inv [OF i(1)]) (rule tick.hyps(3))
  moreover have "traced (dom (sview (srv_rooms s0)) \<union> {currentRoomID (srv_rooms s0)} \<union>
      (\<lambda>session. BuildRoomId (Some session)) ` (shown \<union> {session. selecting i (sync_lol (prog_sync s)) session})) ?st"
  proof (rule traced_tick)
    show "sinv (prog_rooms s)" using i(1) by (simp add: server_inv_def)
    show "traced (dom (sview (srv_rooms s0)) \<union> {currentRoomID (srv_rooms s0)} \<union>
        (\<lambda>session. BuildRoomId (Some session)) ` (shown \<union> {session. selecting i (sync_lol (prog_sync s)) session})) (prog_rooms s)"
      by (rule traced_mono [of "dom (sview (srv_rooms s0)) \<union> {currentRoomID (srv_rooms s0)} \<union> (\<lambda>session. BuildRoomId (Some session)) ` shown"])
        (use i(2) in \<open>auto simp: prog_inv_def\<close>)
  qed (use tick.hyps(3) in auto)
  ultimately show ?case using i(2) by (auto simp: prog_inv_def)
next
  case (relay shown s ret locked now st result err)
  then show ?case by (auto intro: prog_inv_frame)
next
  case (clean_outbox shown s now db res')
  then show ?case by (auto intro: prog_inv_frame)
next
  case (deliver shown s subject i bytes t inbox out)
  then show ?case by (auto intro: prog_inv_frame)
next
  case (clean_inbox shown s now inbox deleted)
  then show ?case by (auto intro: prog_inv_frame)
qed

end

section \<open>An example run\<close>

definition ex_start :: "(mem_repo, unit, outbox_db) server" where
  "ex_start = \<lparr>srv_sync = ex_sync\<lparr>sync_games := NewGameLifecycleService \<lparr>outbox_rows = [], outbox_faults = []\<rparr>\<rparr>,
     srv_hub = NewHub (\<lambda>xs. xs), srv_log = []\<rparr>"

definition ex_prog0 :: "(mem_repo, unit) program" where
  "ex_prog0 = \<lparr>prog_server = ex_start, prog_js = \<lparr>js_sent = [], js_replies = []\<rparr>, prog_labels = [], prog_inbox = ex_inbox\<rparr>"

definition ex_prog1 :: "(mem_repo, unit) program" where
  "ex_prog1 = set_sync (champ_select_tick in_memory_repo ex_catalog Enqueue ex_tick (prog_sync ex_prog0)) ex_prog0"

text \<open>The game starts: the next tick of the client no longer sees Champion Select.\<close>

definition ex_tick2 :: tick_input where
  "ex_tick2 = ex_tick\<lparr>in_env1 := ex_client\<lparr>lcu_http := (\<lambda>url auth. Inr \<lparr>as_phase = Inr ''InProgress'',
     as_session = Inl json_error, as_summoner = Inl json_error\<rparr>)\<rparr>, in_now := 8, in_t1 := 9, in_t2 := 9\<rparr>"

definition ex_prog2 :: "(mem_repo, unit) program" where
  "ex_prog2 = set_sync (champ_select_tick in_memory_repo ex_catalog Enqueue ex_tick2 (prog_sync ex_prog1)) ex_prog1"

definition ex_prog3 :: "(mem_repo, unit) program" where
  "ex_prog3 = set_pipe (pl_relayed (fst (RelayOnce (\<lambda>_. False) id 10 (pl_relay (prog_pipe ex_prog2)))) (prog_pipe ex_prog2)) ex_prog2"

definition ex_prog4 :: "(mem_repo, unit) program" where
  "ex_prog4 = ex_prog3\<lparr>prog_inbox := fst (Handle (pg_game_events ex_driver 11) SubjectGameStarted ex_bytes (prog_inbox ex_prog3))\<rparr>"

lemma ex_tick2_selects: "\<not> selecting ex_tick2 l session"
  by (auto simp: selecting_def GetGameflowPhase_def lcu_get_def ReadCredentials_def FindLockfile_def possiblePaths_def
      ex_tick2_def ex_tick_def ex_client_def split: prod.splits)

lemma ex_prog2_reach: "program_reach in_memory_repo ex_catalog ex_driver ex_start {ex_session} ex_prog2"
proof -
  have "program_reach in_memory_repo ex_catalog ex_driver ex_start {} ex_prog0"
    unfolding ex_prog0_def by (rule program_reach.start [of _ "\<lparr>outbox_rows = [], outbox_faults = []\<rparr>"]) (simp_all add: ex_inbox_def ex_start_def)
  then have "program_reach in_memory_repo ex_catalog ex_driver ex_start
      ({} \<union> {session. selecting ex_tick (sync_lol (prog_sync ex_prog0)) session}) ex_prog1"
    unfolding ex_prog1_def
    by (rule program_reach.tick) (simp add: ex_tick_def, simp add: ex_selecting member_ids_def ex_session_def)
  then have "program_reach in_memory_repo ex_catalog ex_driver ex_start {ex_session} ex_prog1" by (simp add: ex_selecting)
  then have "program_reach in_memory_repo ex_catalog ex_driver ex_start
      ({ex_session} \<union> {session. selecting ex_tick2 (sync_lol (prog_sync ex_prog1)) session}) ex_prog2"
    unfolding ex_prog2_def by (rule program_reach.tick) (simp add: ex_tick2_def, simp add: ex_tick2_selects)
  then show ?thesis by (simp add: ex_tick2_selects)
qed

text \<open>The path of the events in this run is the run of \<open>Pipeline\<close>.\<close>

lemma ex_room_id: "BuildRoomId (Some ex_session) = ''7-1''" "GameId ex_session = 7"
  by code_simp+

lemma ex_observations:
  "observation ex_tick l = Some (''ChampSelect'', 7, ''7-1'')" "observation ex_tick2 l = Some (''InProgress'', 0, [])"
  by (simp_all add: observation_def GetGameflowPhase_def GetChampSelectSession_def lcu_get_def ReadCredentials_def FindLockfile_def
      possiblePaths_def ex_tick2_def ex_tick_def ex_client_def ex_room_id split: prod.split)

lemma ex_tick_inputs:
  "in_rnd ex_tick = ex_rnd" "in_now ex_tick = 5" "in_t1 ex_tick = 6" "in_t2 ex_tick = 6"
  "in_rnd ex_tick2 = ex_rnd" "in_now ex_tick2 = 8" "in_t1 ex_tick2 = 9" "in_t2 ex_tick2 = 9"
  by (simp_all add: ex_tick_def ex_tick2_def ex_rnd_def)

lemmas ex_ticks = tick_games ex_observations ex_tick_inputs

lemma ex_prog_pipes: "prog_pipe ex_prog2 = ex_pipe2" "prog_pipe ex_prog3 = ex_pipe3"
proof -
  have "sync_games (prog_sync ex_prog1) = pl_games ex_pipe1"
    by (simp add: ex_prog1_def ex_ticks ex_pipe1_def ex_pipe0_def ex_prog0_def ex_start_def)
  moreover have "prog_js ex_prog1 = pl_js ex_pipe0" "prog_labels ex_prog1 = pl_labels ex_pipe0" "prog_inbox ex_prog1 = pl_inbox ex_pipe0"
    by (simp_all add: ex_prog1_def ex_prog0_def ex_pipe0_def)
  ultimately show two: "prog_pipe ex_prog2 = ex_pipe2"
    by (simp add: prog_pipe_def ex_prog2_def ex_ticks ex_pipe2_def ex_pipe1_def)
  show "prog_pipe ex_prog3 = ex_pipe3" by (simp add: ex_prog3_def ex_pipe3_def two)
qed

lemma ex_prog3_sent: "map (\<lambda>(subject, i, p). (subject, p)) (js_sent (prog_js ex_prog3)) = [(SubjectGameStarted, GamePayload ex_bytes)]"
  using ex_pipe3_sent by (simp add: ex_prog_pipes(2) [symmetric] prog_pipe_def)

lemma ex_prog4_reach: "program_reach in_memory_repo ex_catalog ex_driver ex_start {ex_session} ex_prog4"
proof -
  obtain st result err where r: "RelayOnce (\<lambda>_. False) id 10 (pl_relay (prog_pipe ex_prog2)) = (st, result, err)"
    by (metis prod_cases3)
  from program_reach.relay [OF ex_prog2_reach _ r] have r3: "program_reach in_memory_repo ex_catalog ex_driver ex_start {ex_session} ex_prog3"
    by (simp add: ex_prog3_def r)
  from ex_prog3_sent obtain i where m: "(SubjectGameStarted, i, GamePayload ex_bytes) \<in> set (js_sent (prog_js ex_prog3))" by auto
  show ?thesis unfolding ex_prog4_def by (rule program_reach.deliver [OF r3 m prod.collapse [symmetric]])
qed

lemma ex_prog4_sessions: "map fst (game_sessions (prog_inbox ex_prog4)) = [7]"
proof -
  have "prog_inbox ex_prog4 = pl_inbox ex_pipe4"
    by (simp add: ex_prog4_def ex_pipe4_def ex_prog_pipes(2) [symmetric] prog_pipe_def)
  then show ?thesis using ex_pipe4_sessions by simp
qed

lemma ex_start_inv: "service_inv mem_view mem_inv (srv_rooms ex_start)"
  using ex_service_inv by (simp add: ex_start_def ex_sync_def)

section \<open>Properties\<close>

text \<open>
  C3: the program invents nothing. However requests, WebSocket sessions, ticks, jobs, relay
  cycles, deliveries and failures follow each other, each recorded game session is of a Champion
  Select session that the League client showed, in the room built from it; and each stored room,
  and the current one, is the room of such a session unless it was there at the start.
\<close>

theorem everything_comes_from_champ_select:
  assumes "room_service r view I f g" "service_inv view I (srv_rooms s0)" "srv_hub s0 = NewHub order"
    and "\<And>xs. mset (order xs) = mset xs" "program_reach r cat d s0 shown s"
  shows "(\<forall>k x. map_of (game_sessions (prog_inbox s)) k = Some x \<longrightarrow>
      (\<exists>session \<in> shown. GameId session = k \<and> gs_room x = BuildRoomId (Some session))) \<and>
    (\<forall>i. service_view view (prog_rooms s) i \<noteq> None \<or> i = currentRoomID (prog_rooms s) \<and> i \<noteq> [] \<longrightarrow>
      service_view view (srv_rooms s0) i \<noteq> None \<or> i = currentRoomID (srv_rooms s0) \<or>
      (\<exists>session \<in> shown. i = BuildRoomId (Some session)))"
proof (intro conjI allI impI)
  have "room_service.server_inv view I s0"
    using assms(2,3) hub_inv_new [OF assms(4)] by (simp add: room_service.server_inv_def [OF assms(1)])
  note inv = room_service.program_inv [OF assms(1,5) this]
  show "\<exists>session \<in> shown. GameId session = k \<and> gs_room x = BuildRoomId (Some session)"
    if "map_of (game_sessions (prog_inbox s)) k = Some x" for k x
  proof -
    obtain seen where seen: "seen \<subseteq> session_key ` shown" "pipeline_reach d seen (prog_pipe s)"
      using program_pipeline [OF assms(5)] by blast
    have "(k, gs_room x) \<in> seen" using pipeline_inv [OF seen(2)] that by (simp add: pipe_inv_def prog_pipe_def)
    with seen(1) show ?thesis by (auto simp: session_key_def)
  qed
  show "service_view view (srv_rooms s0) i \<noteq> None \<or> i = currentRoomID (srv_rooms s0) \<or>
      (\<exists>session \<in> shown. i = BuildRoomId (Some session))"
    if "service_view view (prog_rooms s) i \<noteq> None \<or> i = currentRoomID (prog_rooms s) \<and> i \<noteq> []" for i
    using inv that by (auto simp: room_service.prog_inv_def [OF assms(1)] room_service.traced_def [OF assms(1)])
qed

theorem everything_comes_from_champ_select_witness:
  "\<exists>x. map_of (game_sessions (prog_inbox ex_prog4)) 7 = Some x \<and> gs_room x = BuildRoomId (Some ex_session)"
proof -
  have p: "\<And>xs. mset ((\<lambda>xs. xs) xs) = mset xs" by simp
  have "srv_hub ex_start = NewHub (\<lambda>xs. xs)" by (simp add: ex_start_def)
  note e = everything_comes_from_champ_select [OF mem_service.room_service_axioms ex_start_inv this p ex_prog4_reach]
  from ex_prog4_sessions obtain x where "game_sessions (prog_inbox ex_prog4) = [(7, x)]"
    by (cases "game_sessions (prog_inbox ex_prog4)") auto
  then have "map_of (game_sessions (prog_inbox ex_prog4)) 7 = Some x" by simp
  with e show ?thesis by auto
qed



end
