(* ===== verification/GoTime.thy ===== *)
theory GoTime
  imports GoText
begin

text \<open>
  Times as texts: the dates of the proleptic Gregorian calendar and the RFC 3339 form in which
  \<open>encoding/json\<close> writes and reads a \<open>time.Time\<close>. A time counts nanoseconds from January 1 of
  year 1 in UTC.
\<close>

section \<open>Dates\<close>

definition leap :: "int \<Rightarrow> bool" where
  "leap y \<longleftrightarrow> y mod 4 = 0 \<and> (y mod 100 \<noteq> 0 \<or> y mod 400 = 0)"

definition month_days :: "bool \<Rightarrow> nat list" where
  "month_days lp = [31, if lp then 29 else 28, 31, 30, 31, 30, 31, 31, 30, 31, 30, 31]"

text \<open>The year and the day in it of a day, by the cycles of 400, 100, 4 and 1 years.\<close>

definition year_day :: "int \<Rightarrow> int \<times> nat" where
  "year_day n =
     (let q = n div 146097; r = n mod 146097;
          a = min 3 (r div 36524); r1 = r - 36524 * a;
          b = r1 div 1461; r2 = r1 - 1461 * b;
          c = min 3 (r2 div 365)
      in (400 * q + 100 * a + 4 * b + c + 1, nat (r2 - 365 * c)))"

text \<open>The days before January 1 of a year.\<close>

definition year_start :: "int \<Rightarrow> int" where
  "year_start y = 365 * (y - 1) + (y - 1) div 4 - (y - 1) div 100 + (y - 1) div 400"

lemma year_day_correct:
  assumes "year_day n = (y, d)"
  shows "year_start y + int d = n" "d < (if leap y then 366 else 365)"
proof -
  define q r where "q = n div 146097" and "r = n mod 146097"
  define a where "a = min 3 (r div 36524)"
  define r1 where "r1 = r - 36524 * a"
  define b where "b = r1 div 1461"
  define r2 where "r2 = r1 - 1461 * b"
  define c where "c = min 3 (r2 div 365)"
  have n: "n = 146097 * q + r" "0 \<le> r" "r < 146097" by (simp_all add: q_def r_def)
  have a: "0 \<le> a" "a \<le> 3" "0 \<le> r1" "r1 < 36524 \<or> a = 3 \<and> r1 < 36525"
    using n(2,3) unfolding a_def r1_def by (auto simp: min_def)
  have b: "0 \<le> b" "b \<le> 24" "0 \<le> r2" "r2 < 1461" "b = 24 \<Longrightarrow> a < 3 \<Longrightarrow> r2 < 1460"
    using a(3,4) unfolding b_def r2_def by auto
  have c: "0 \<le> c" "c \<le> 3" "0 \<le> r2 - 365 * c" "r2 - 365 * c < 365 \<or> c = 3 \<and> r2 - 365 * c < 366"
    using b(3,4) unfolding c_def by (auto simp: min_def)
  have "year_day n = (400 * q + 100 * a + 4 * b + c + 1, nat (r2 - 365 * c))"
    unfolding year_day_def Let_def c_def r2_def b_def r1_def a_def r_def q_def by (rule refl)
  with assms c(3) have y: "y = 400 * q + 100 * a + 4 * b + c + 1" "int d = r2 - 365 * c" by auto
  have dv: "(y - 1) div 4 = 100 * q + 25 * a + b" "(y - 1) div 100 = 4 * q + a" "(y - 1) div 400 = q"
    using a b c int_div_pos_eq [of "y - 1" 4 "100 * q + 25 * a + b" c] int_div_pos_eq [of "y - 1" 100 "4 * q + a" "4 * b + c"]
      int_div_pos_eq [of "y - 1" 400 q "100 * a + 4 * b + c"] by (simp_all add: y(1))
  show "year_start y + int d = n" unfolding year_start_def dv using y n r1_def r2_def by simp
  show "d < (if leap y then 366 else 365)"
  proof (cases "int d = 365")
    case True
    then have c3: "c = 3" "r2 = 1460" using c(4) b(4) y(2) by auto
    then consider "b < 24" | "b = 24" "a = 3" using b(2,5) a(2) by fastforce
    then have "leap y"
    proof cases
      case 1
      have "y = 4 * (100 * q + 25 * a + b + 1)" "y = 100 * (4 * q + a) + 4 * (b + 1)" using y(1) c3 by simp_all
      moreover have "(100 * (4 * q + a) + 4 * (b + 1)) mod 100 = 4 * (b + 1)"
        unfolding mod_mult_self4 using 1 b(1) by (intro mod_pos_pos_trivial) simp_all
      ultimately show ?thesis using 1 b(1) unfolding leap_def by (metis mod_mult_self1_is_0 mult_eq_0_iff zero_neq_numeral add_pos_nonneg less_irrefl zero_less_one add.commute)
    next
      case 2
      then have "y = 400 * (q + 1)" using y(1) c3 by simp
      then show ?thesis by (simp add: leap_def)
    qed
    with True show ?thesis by simp
  next
    case False
    with c(4) y(2) show ?thesis by auto
  qed
qed

text \<open>The month and the day in it of a day of a year.\<close>

fun month_day :: "nat list \<Rightarrow> nat \<Rightarrow> nat \<times> nat" where
  "month_day [] d = (1, d + 1)"
| "month_day (l # ls) d = (if d < l then (1, d + 1) else case month_day ls (d - l) of (m, k) \<Rightarrow> (m + 1, k))"

lemma month_day_correct:
  "d < sum_list ls \<Longrightarrow> month_day ls d = (m, k) \<Longrightarrow>
    1 \<le> m \<and> m \<le> length ls \<and> 1 \<le> k \<and> k \<le> ls ! (m - 1) \<and> sum_list (take (m - 1) ls) + k = d + 1"
proof (induction ls d arbitrary: m k rule: month_day.induct)
  case (2 l ls d)
  show ?case
  proof (cases "d < l")
    case False
    obtain m' where m': "month_day ls (d - l) = (m', k)" "m = m' + 1"
      using 2(3) False by (auto split: prod.splits)
    have "d - l < sum_list ls" using 2(2) False by simp
    from 2(1) [OF False this m'(1)] False m'(2) show ?thesis by (cases m') auto
  qed (use 2 in auto)
qed simp

lemma sum_month_days: "sum_list (month_days lp) = (if lp then 366 else 365)"
  by (simp add: month_days_def)

section \<open>Digits\<close>

fun digits :: "nat \<Rightarrow> int \<Rightarrow> string" where
  "digits 0 n = []"
| "digits (Suc w) n = digits w (n div 10) @ [digit_char (nat (n mod 10))]"

fun number_of :: "int \<Rightarrow> string \<Rightarrow> int option" where
  "number_of acc [] = Some acc"
| "number_of acc (c # cs) =
     (case digit_value c of None \<Rightarrow> None | Some d \<Rightarrow> number_of (10 * acc + int d) cs)"

lemma length_digits [simp]: "length (digits w n) = w"
  by (induction w arbitrary: n) simp_all

lemma digit_value_char: "n < 10 \<Longrightarrow> digit_value (digit_char n) = Some n"
  by (simp add: digit_value_def digit_char_def Let_def)

lemma number_of_append: "number_of acc (xs @ ys) = Option.bind (number_of acc xs) (\<lambda>n. number_of n ys)"
  by (induction acc xs rule: number_of.induct) (auto split: option.split)

lemma number_of_digits: "0 \<le> n \<Longrightarrow> n < 10 ^ w \<Longrightarrow> number_of 0 (digits w n) = Some n"
proof (induction w arbitrary: n)
  case (Suc w)
  have "n div 10 < 10 ^ w" "0 \<le> n div 10" using Suc.prems by simp_all
  with Suc.IH [of "n div 10"] show ?case by (simp add: number_of_append digit_value_char)
qed simp

lemma digits_are_digits: "c \<in> set (digits w n) \<Longrightarrow> digit_value c \<noteq> None"
  by (induction w arbitrary: n) (auto simp: digit_value_char)

text \<open>A fraction of a second: its nine digits without the zeros at the end.\<close>

definition trim_zeros :: "string \<Rightarrow> string" where
  "trim_zeros s = rev (dropWhile (\<lambda>c. c = CHR ''0'') (rev s))"

lemma trim_zeros_fill: "take (length s) (trim_zeros s @ replicate (length s) (CHR ''0'')) = s"
proof -
  define k where "k = length (takeWhile (\<lambda>c. c = CHR ''0'') (rev s))"
  have "takeWhile (\<lambda>c. c = CHR ''0'') (rev s) = replicate k (CHR ''0'')"
    unfolding k_def by (rule replicate_eqI) (auto dest: set_takeWhileD)
  moreover have "s = rev (dropWhile (\<lambda>c. c = CHR ''0'') (rev s)) @ rev (takeWhile (\<lambda>c. c = CHR ''0'') (rev s))"
    by (metis rev_append rev_rev_ident takeWhile_dropWhile_id)
  ultimately have s: "s = trim_zeros s @ replicate k (CHR ''0'')" by (simp add: trim_zeros_def)
  then have l: "length s = length (trim_zeros s) + k" by (metis length_append length_replicate)
  have "take (length s) (trim_zeros s @ replicate (length s) (CHR ''0'')) = trim_zeros s @ replicate k (CHR ''0'')"
    by (simp add: l)
  with s show ?thesis by simp
qed

lemma set_trim_zeros: "set (trim_zeros s) \<subseteq> set s"
  by (auto simp: trim_zeros_def dest: set_dropWhileD)

definition fraction :: "int \<Rightarrow> string" where
  "fraction ns = (if ns = 0 then [] else CHR ''.'' # trim_zeros (digits 9 ns))"

section \<open>RFC 3339\<close>

definition show_zone :: "int \<Rightarrow> string" where
  "show_zone off =
     (if off = 0 then ''Z''
      else (if off < 0 then CHR ''-'' else CHR ''+'') # digits 2 (\<bar>off\<bar> div 60) @ CHR '':'' # digits 2 (\<bar>off\<bar> mod 60))"

text \<open>
  \<open>Time.MarshalJSON\<close> of a time whose zone is \<open>off\<close> minutes east of UTC: years outside
  \<open>[0, 9999]\<close> and zones of a day or more are errors.
\<close>

definition day_ns :: int where
  "day_ns = 86400000000000"

definition date_text :: "int \<Rightarrow> nat \<Rightarrow> nat \<Rightarrow> string" where
  "date_text y m k = digits 4 y @ ''-'' @ digits 2 (int m) @ ''-'' @ digits 2 (int k)"

definition clock_text :: "int \<Rightarrow> string" where
  "clock_text s = digits 2 (s div 3600) @ '':'' @ digits 2 (s div 60 mod 60) @ '':'' @ digits 2 (s mod 60)"

definition format_time :: "int \<Rightarrow> time \<Rightarrow> string option" where
  "format_time off t =
     (let l = t + off * minute; (y, d) = year_day (l div day_ns); (m, k) = month_day (month_days (leap y)) d; ns = l mod day_ns
      in if y < 0 \<or> 9999 < y \<or> 1440 \<le> \<bar>off\<bar> then None
         else Some (date_text y m k @ ''T'' @ clock_text (ns div second) @ fraction (ns mod second) @ show_zone off))"

text \<open>
  \<open>Time.UnmarshalJSON\<close>: fixed positions, every number in its range, a fraction of any length of
  which nine digits count.
\<close>

definition number_in :: "string \<Rightarrow> int \<Rightarrow> int \<Rightarrow> int option" where
  "number_in s lo hi = Option.bind (number_of 0 s) (\<lambda>n. if lo \<le> n \<and> n \<le> hi then Some n else None)"

definition parse_date :: "string \<Rightarrow> int option" where
  "parse_date s =
     (if s ! 4 \<noteq> CHR ''-'' \<or> s ! 7 \<noteq> CHR ''-'' then None
      else Option.bind (number_in (take 4 s) 0 9999) (\<lambda>y.
           Option.bind (number_in (take 2 (drop 5 s)) 1 12) (\<lambda>m.
           let ms = month_days (leap y) in
           Option.bind (number_in (take 2 (drop 8 s)) 1 (int (ms ! nat (m - 1)))) (\<lambda>k.
             Some (year_start y + int (sum_list (take (nat (m - 1)) ms)) + k - 1)))))"

definition parse_clock :: "string \<Rightarrow> int option" where
  "parse_clock s =
     (if s ! 2 \<noteq> CHR '':'' \<or> s ! 5 \<noteq> CHR '':'' then None
      else Option.bind (number_in (take 2 s) 0 23) (\<lambda>hh.
           Option.bind (number_in (take 2 (drop 3 s)) 0 59) (\<lambda>mi.
           Option.bind (number_in (take 2 (drop 6 s)) 0 59) (\<lambda>ss. Some (3600 * hh + 60 * mi + ss)))))"

definition parse_fraction :: "string \<Rightarrow> (int \<times> string) option" where
  "parse_fraction s =
     (if s = [] \<or> hd s \<noteq> CHR ''.'' then Some (0, s)
      else (let ds = takeWhile (\<lambda>c. digit_value c \<noteq> None) (tl s); rest = dropWhile (\<lambda>c. digit_value c \<noteq> None) (tl s)
            in if ds = [] then None
               else map_option (\<lambda>n. (n, rest)) (number_of 0 (take 9 (ds @ replicate 9 (CHR ''0''))))))"

definition parse_zone :: "string \<Rightarrow> int option" where
  "parse_zone s =
     (if s = ''Z'' then Some 0
      else if length s \<noteq> 6 \<or> hd s \<notin> {CHR ''+'', CHR ''-''} \<or> s ! 3 \<noteq> CHR '':'' then None
      else Option.bind (number_in (take 2 (drop 1 s)) 0 23) (\<lambda>h.
           Option.bind (number_in (drop 4 s) 0 59) (\<lambda>m.
             Some ((if hd s = CHR ''-'' then -1 else 1) * (60 * h + m)))))"

definition parse_time :: "string \<Rightarrow> time option" where
  "parse_time s =
     (if length s < 19 \<or> s ! 10 \<noteq> CHR ''T'' then None
      else Option.bind (parse_date (take 10 s)) (\<lambda>day.
           Option.bind (parse_clock (take 8 (drop 11 s))) (\<lambda>sec.
           Option.bind (parse_fraction (drop 19 s)) (\<lambda>(ns, rest).
           Option.bind (parse_zone rest) (\<lambda>off. Some (day * day_ns + sec * second + ns - off * minute))))))"

section \<open>Round trip\<close>

lemma number_in_digits: "0 \<le> n \<Longrightarrow> n < 10 ^ w \<Longrightarrow> lo \<le> n \<Longrightarrow> n \<le> hi \<Longrightarrow> number_in (digits w n) lo hi = Some n"
  by (simp add: number_in_def number_of_digits)

lemma show_zone_start: "show_zone off \<noteq> []" "hd (show_zone off) \<in> {CHR ''Z'', CHR ''+'', CHR ''-''}"
  by (simp_all add: show_zone_def)

lemma length_texts [simp]: "length (date_text y m k) = 10" "length (clock_text s) = 8"
  by (simp_all add: date_text_def clock_text_def)

lemma parse_zone_show:
  assumes "\<bar>off\<bar> < 1440"
  shows "parse_zone (show_zone off) = Some off"
proof (cases "off = 0")
  case False
  let ?h = "\<bar>off\<bar> div 60" and ?m = "\<bar>off\<bar> mod 60"
  have h: "number_in (digits 2 ?h) 0 23 = Some ?h" using assms by (intro number_in_digits) auto
  have m: "number_in (digits 2 ?m) 0 59 = Some ?m" by (intro number_in_digits) (auto intro: order_less_trans [of _ 60])
  have "parse_zone (show_zone off) = Some ((if off < 0 then -1 else 1) * (60 * ?h + ?m))"
    using False h m by (simp add: show_zone_def parse_zone_def nth_append del: digits.simps)
  also have "60 * ?h + ?m = \<bar>off\<bar>" by (rule mult_div_mod_eq)
  finally show ?thesis by simp
qed (simp add: show_zone_def parse_zone_def)

lemma parse_fraction_show:
  assumes "0 \<le> ns" "ns < second"
  shows "parse_fraction (fraction ns @ show_zone off) = Some (ns, show_zone off)"
proof (cases "ns = 0")
  case True
  then show ?thesis using show_zone_start [of off] by (auto simp: fraction_def parse_fraction_def)
next
  case False
  let ?ds = "trim_zeros (digits 9 ns)"
  have d: "\<forall>c \<in> set ?ds. digit_value c \<noteq> None" using set_trim_zeros digits_are_digits by blast
  have nd: "digit_value (hd (show_zone off)) = None"
    using show_zone_start(2) [of off] by (auto simp: digit_value_def Let_def)
  have tw: "takeWhile (\<lambda>c. digit_value c \<noteq> None) (?ds @ show_zone off) = ?ds"
    "dropWhile (\<lambda>c. digit_value c \<noteq> None) (?ds @ show_zone off) = show_zone off"
    using d nd show_zone_start(1) [of off] by (cases "show_zone off"; simp add: takeWhile_append dropWhile_append)+
  have f: "take 9 (?ds @ replicate 9 (CHR ''0'')) = digits 9 ns"
    using trim_zeros_fill [of "digits 9 ns"] by simp
  have v: "number_of 0 (digits 9 ns) = Some ns" using assms by (simp add: number_of_digits del: digits.simps)
  have ne: "?ds \<noteq> []"
  proof
    assume "?ds = []"
    with f have "digits 9 ns = replicate 9 (CHR ''0'')" by simp
    then have "number_of 0 (replicate 9 (CHR ''0'')) = Some ns" using v by simp
    moreover have "number_of 0 (replicate 9 (CHR ''0'')) = Some 0" by code_simp
    ultimately show False using False by simp
  qed
  show ?thesis using False ne unfolding fraction_def parse_fraction_def by (simp only: if_False append_Cons list.sel list.distinct tw f v Let_def) simp
qed

lemma month_length: "m < 12 \<Longrightarrow> month_days lp ! m \<le> 31"
  by (simp add: month_days_def nth_Cons split: nat.split)

lemma parse_date_text:
  assumes "year_day n = (y, d)" "month_day (month_days (leap y)) d = (m, k)" "0 \<le> y" "y \<le> 9999"
  shows "parse_date (date_text y m k) = Some n"
proof -
  note Y = year_day_correct [OF assms(1)]
  have M: "1 \<le> m" "m \<le> 12" "1 \<le> k" "k \<le> month_days (leap y) ! (m - 1)" "sum_list (take (m - 1) (month_days (leap y))) + k = d + 1"
    using month_day_correct [OF _ assms(2)] Y(2) by (auto simp: sum_month_days month_days_def split: if_splits)
  have k: "k \<le> 31" using M(1,2,4) month_length [of "m - 1" "leap y"] by fastforce
  have i: "nat (int m - 1) = m - 1" using M(1) by simp
  have seps: "date_text y m k ! 4 = CHR ''-''" "date_text y m k ! 7 = CHR ''-''"
    by (simp_all add: date_text_def nth_append)
  have parts: "take 4 (date_text y m k) = digits 4 y" "take 2 (drop 5 (date_text y m k)) = digits 2 (int m)"
    "take 2 (drop 8 (date_text y m k)) = digits 2 (int k)"
    by (simp_all add: date_text_def)
  have numbers: "number_in (digits 4 y) 0 9999 = Some y" "number_in (digits 2 (int m)) 1 12 = Some (int m)"
    "number_in (digits 2 (int k)) 1 (int (month_days (leap y) ! (m - 1))) = Some (int k)"
    using assms(3,4) M k by (auto intro!: number_in_digits)
  have "parse_date (date_text y m k) = Some (year_start y + int (sum_list (take (m - 1) (month_days (leap y)))) + int k - 1)"
    unfolding parse_date_def parts by (simp add: seps numbers [simplified] i Let_def del: digits.simps)
  moreover have "year_start y + int (sum_list (take (m - 1) (month_days (leap y)))) + int k - 1 = n"
    using M(5) Y(1) by linarith
  ultimately show ?thesis by simp
qed

lemma parse_clock_text:
  assumes "0 \<le> s" "s < 86400"
  shows "parse_clock (clock_text s) = Some s"
proof -
  have seps: "clock_text s ! 2 = CHR '':''" "clock_text s ! 5 = CHR '':''"
    by (simp_all add: clock_text_def nth_append)
  have parts: "take 2 (clock_text s) = digits 2 (s div 3600)" "take 2 (drop 3 (clock_text s)) = digits 2 (s div 60 mod 60)"
    "take 2 (drop 6 (clock_text s)) = digits 2 (s mod 60)"
    by (simp_all add: clock_text_def)
  have "s div 60 mod 60 < 60" "s mod 60 < 60" "0 \<le> s div 60 mod 60" "0 \<le> s mod 60" by simp_all
  then have numbers: "number_in (digits 2 (s div 3600)) 0 23 = Some (s div 3600)"
    "number_in (digits 2 (s div 60 mod 60)) 0 59 = Some (s div 60 mod 60)" "number_in (digits 2 (s mod 60)) 0 59 = Some (s mod 60)"
    using assms by (auto intro!: number_in_digits)
  have d: "s div 3600 = s div 60 div 60" using assms(1) by (simp add: zdiv_zmult2_eq [symmetric])
  have "3600 * (s div 3600) + 60 * (s div 60 mod 60) + s mod 60 = s"
    using mult_div_mod_eq [of 60 s] mult_div_mod_eq [of 60 "s div 60"] d by linarith
  then show ?thesis unfolding parse_clock_def parts by (simp add: seps numbers del: digits.simps)
qed

lemma parse_format:
  assumes "format_time off t = Some s"
  shows "parse_time s = Some t"
proof -
  define l where "l = t + off * minute"
  define ns where "ns = l mod day_ns"
  obtain y d where yd: "year_day (l div day_ns) = (y, d)" by (meson surj_pair)
  obtain m k where mk: "month_day (month_days (leap y)) d = (m, k)" by (meson surj_pair)
  from assms have y: "0 \<le> y" "y \<le> 9999" "\<bar>off\<bar> < 1440"
    and s: "s = date_text y m k @ ''T'' @ clock_text (ns div second) @ fraction (ns mod second) @ show_zone off"
    by (auto simp: format_time_def Let_def yd mk l_def [symmetric] ns_def [symmetric] split: if_splits)
  have ns: "0 \<le> ns" "ns < 86400 * second" by (simp_all add: ns_def day_ns_def)
  then have sec: "0 \<le> ns div second" "ns div second < 86400" by simp_all
  have parts: "take 10 s = date_text y m k" "take 8 (drop 11 s) = clock_text (ns div second)"
    "drop 19 s = fraction (ns mod second) @ show_zone off" "s ! 10 = CHR ''T''" "\<not> length s < 19"
    by (simp_all add: s nth_append)
  have "parse_time s = Some (l div day_ns * day_ns + ns div second * second + ns mod second - off * minute)"
    unfolding parse_time_def parts
    by (simp add: parts(5) parse_date_text [OF yd mk y(1,2)] parse_clock_text [OF sec] parse_fraction_show parse_zone_show [OF y(3)])
  moreover have "l div day_ns * day_ns + ns div second * second + ns mod second - off * minute = t"
    using div_mult_mod_eq [of l day_ns] div_mult_mod_eq [of ns second] unfolding ns_def l_def by linarith
  ultimately show ?thesis by simp
qed

end
