(* ===== verification/Json.thy ===== *)
theory Json
  imports GoTime Models
begin

text \<open>
  The JSON form of rooms, players and spells (the tags of \<open>internal/models\<close>), as
  \<open>encoding/json\<close> writes and reads it: what Redis keeps, and what clients are sent.
\<close>

section \<open>Documents\<close>

text \<open>A number is an integer or any other literal. Strings are the unescaped bytes.\<close>

datatype json =
    JsonNull
  | JsonBool bool
  | JsonInt int
  | JsonNumber string
  | JsonString string
  | JsonArray "json list"
  | JsonObject "(string \<times> json) list"

text \<open>The length of the UTF-8 sequence at the start of a text, 0 if there is none.\<close>

definition byte_in :: "nat \<Rightarrow> nat \<Rightarrow> char \<Rightarrow> bool" where
  "byte_in lo hi c \<longleftrightarrow> lo \<le> (of_char c :: nat) \<and> (of_char c :: nat) \<le> hi"

definition rune_size :: "string \<Rightarrow> nat" where
  "rune_size s =
     (let cont = (\<lambda>i lo hi. i < length s \<and> byte_in lo hi (s ! i)); b = (\<lambda>lo hi. byte_in lo hi (hd s))
      in if s = [] then 0
         else if b 0 127 then 1
         else if b 194 223 \<and> cont 1 128 191 then 2
         else if (b 224 224 \<and> cont 1 160 191 \<or> b 237 237 \<and> cont 1 128 159 \<or> (b 225 236 \<or> b 238 239) \<and> cont 1 128 191) \<and> cont 2 128 191 then 3
         else if (b 240 240 \<and> cont 1 144 191 \<or> b 244 244 \<and> cont 1 128 143 \<or> b 241 243 \<and> cont 1 128 191) \<and> cont 2 128 191 \<and> cont 3 128 191
         then 4 else 0)"

text \<open>The encoder replaces every byte that is not UTF-8 by U+FFFD.\<close>

fun valid_text :: "string \<Rightarrow> string" where
  "valid_text [] = []"
| "valid_text (c # cs) =
     (let n = rune_size (c # cs)
      in if n = 0 then [CHR 0xEF, CHR 0xBF, CHR 0xBD] @ valid_text cs
         else take n (c # cs) @ valid_text (drop (n - 1) cs))"

text \<open>
  Names of fields match exactly or after folding their case, as \<open>foldName\<close> does: the long s and
  the Kelvin sign fold to ASCII letters.
\<close>

fun fold_name :: "string \<Rightarrow> string" where
  "fold_name [] = []"
| "fold_name (c # cs) =
     (if c = CHR 0xC5 \<and> take 1 cs = [CHR 0xBF] then CHR ''s'' # fold_name (drop 1 cs)
      else if c = CHR 0xE2 \<and> take 2 cs = [CHR 0x84, CHR 0xAA] then CHR ''k'' # fold_name (drop 2 cs)
      else (if byte_in 65 90 c then char_of (of_char c + 32 :: nat) else c) # fold_name cs)"

section \<open>Writing\<close>

text \<open>
  \<open>zone\<close> gives the zone of a time, in minutes east of UTC. A time that has no text makes the
  whole call fail. A nil slice is null.
\<close>

definition marshal_text :: "string \<Rightarrow> json" where
  "marshal_text s = JsonString (valid_text s)"

definition marshal_time :: "(time \<Rightarrow> int) \<Rightarrow> time \<Rightarrow> json option" where
  "marshal_time zone t = map_option JsonString (format_time (zone t) t)"

definition marshal_slice :: "('a \<Rightarrow> json option) \<Rightarrow> 'a slice \<Rightarrow> json option" where
  "marshal_slice enc xs = (case xs of None \<Rightarrow> Some JsonNull | Some ys \<Rightarrow> map_option JsonArray (those (map enc ys)))"

definition marshal_spell :: "(time \<Rightarrow> int) \<Rightarrow> summoner_spell \<Rightarrow> json option" where
  "marshal_spell zone s =
     map_option (\<lambda>t. JsonObject
       [(''name'', marshal_text (Name s)), (''isReady'', JsonBool (IsReady s)), (''baseCooldown'', JsonInt (BaseCooldown s)),
        (''cooldownEndTime'', t), (''remainingCooldown'', JsonInt (RemainingCooldown s))])
       (marshal_time zone (CooldownEndTime s))"

definition marshal_player :: "(time \<Rightarrow> int) \<Rightarrow> player \<Rightarrow> json option" where
  "marshal_player zone p =
     map_option (\<lambda>spells. JsonObject
       [(''champion'', marshal_text (Champion p)), (''championImage'', marshal_text (ChampionImage p)),
        (''gameName'', marshal_text (GameName p)), (''tagLine'', marshal_text (TagLine p)),
        (''championId'', JsonInt (ChampionId p)), (''summonerSpellHaste'', JsonInt (SummonerSpellHaste p)), (''spells'', spells)])
       (marshal_slice (marshal_spell zone) (Spells p))"

definition marshal_room :: "(time \<Rightarrow> int) \<Rightarrow> room \<Rightarrow> json option" where
  "marshal_room zone x =
     Option.bind (marshal_slice (marshal_player zone) (Players x)) (\<lambda>players.
       map_option (\<lambda>t. JsonObject [(''id'', marshal_text (Id x)), (''players'', players), (''lastUpdated'', t)])
         (marshal_time zone (LastUpdated x)))"

section \<open>Reading\<close>

text \<open>
  A field of a struct changes the struct by a value, or fails. Null keeps every value but a
  slice, which becomes nil. An object sets the fields that it names, in its order, and other
  names are ignored (a repeated name, which no writer produces, sets its field again).
\<close>

type_synonym 'r field = "json \<Rightarrow> 'r \<Rightarrow> 'r option"

definition text_field :: "(string \<Rightarrow> 'r \<Rightarrow> 'r) \<Rightarrow> 'r field" where
  "text_field upd v r = (case v of JsonNull \<Rightarrow> Some r | JsonString s \<Rightarrow> Some (upd s r) | _ \<Rightarrow> None)"

definition bool_field :: "(bool \<Rightarrow> 'r \<Rightarrow> 'r) \<Rightarrow> 'r field" where
  "bool_field upd v r = (case v of JsonNull \<Rightarrow> Some r | JsonBool b \<Rightarrow> Some (upd b r) | _ \<Rightarrow> None)"

definition int_field :: "(int \<Rightarrow> 'r \<Rightarrow> 'r) \<Rightarrow> 'r field" where
  "int_field upd v r = (case v of JsonNull \<Rightarrow> Some r | JsonInt i \<Rightarrow> if int64 i then Some (upd i r) else None | _ \<Rightarrow> None)"

definition time_field :: "(time \<Rightarrow> 'r \<Rightarrow> 'r) \<Rightarrow> 'r field" where
  "time_field upd v r =
     (case v of JsonNull \<Rightarrow> Some r | JsonString s \<Rightarrow> map_option (\<lambda>t. upd t r) (parse_time s) | _ \<Rightarrow> None)"

definition slice_field :: "(json \<Rightarrow> 'a option) \<Rightarrow> ('a slice \<Rightarrow> 'r \<Rightarrow> 'r) \<Rightarrow> 'r field" where
  "slice_field dec upd v r =
     (case v of
        JsonNull \<Rightarrow> Some (upd None r)
      | JsonArray vs \<Rightarrow> map_option (\<lambda>xs. upd (Some xs) r) (those (map dec vs))
      | _ \<Rightarrow> None)"

definition field_named :: "(string \<times> 'r field) list \<Rightarrow> string \<Rightarrow> 'r field option" where
  "field_named fs k =
     (case map_of fs k of
        Some fld \<Rightarrow> Some fld
      | None \<Rightarrow> map_option snd (find (\<lambda>(n, fld). fold_name n = fold_name k) fs))"

fun set_fields :: "(string \<times> 'r field) list \<Rightarrow> (string \<times> json) list \<Rightarrow> 'r \<Rightarrow> 'r option" where
  "set_fields fs [] r = Some r"
| "set_fields fs ((k, v) # kvs) r =
     (case field_named fs k of None \<Rightarrow> set_fields fs kvs r | Some fld \<Rightarrow> Option.bind (fld v r) (set_fields fs kvs))"

definition unmarshal_struct :: "(string \<times> 'r field) list \<Rightarrow> 'r \<Rightarrow> json \<Rightarrow> 'r option" where
  "unmarshal_struct fs zero v =
     (case v of JsonNull \<Rightarrow> Some zero | JsonObject kvs \<Rightarrow> set_fields fs kvs zero | _ \<Rightarrow> None)"

definition zero_spell :: summoner_spell where
  "zero_spell = \<lparr>Name = [], IsReady = False, BaseCooldown = 0, CooldownEndTime = zero_time, RemainingCooldown = 0\<rparr>"

definition spell_fields :: "(string \<times> summoner_spell field) list" where
  "spell_fields =
     [(''name'', text_field (\<lambda>a s. s\<lparr>Name := a\<rparr>)), (''isReady'', bool_field (\<lambda>a s. s\<lparr>IsReady := a\<rparr>)),
      (''baseCooldown'', int_field (\<lambda>a s. s\<lparr>BaseCooldown := a\<rparr>)), (''cooldownEndTime'', time_field (\<lambda>a s. s\<lparr>CooldownEndTime := a\<rparr>)),
      (''remainingCooldown'', int_field (\<lambda>a s. s\<lparr>RemainingCooldown := a\<rparr>))]"

definition unmarshal_spell :: "json \<Rightarrow> summoner_spell option" where
  "unmarshal_spell = unmarshal_struct spell_fields zero_spell"

definition zero_player :: player where
  "zero_player = \<lparr>Champion = [], ChampionImage = [], GameName = [], TagLine = [], ChampionId = 0, SummonerSpellHaste = 0, Spells = None\<rparr>"

definition player_fields :: "(string \<times> player field) list" where
  "player_fields =
     [(''champion'', text_field (\<lambda>a p. p\<lparr>Champion := a\<rparr>)), (''championImage'', text_field (\<lambda>a p. p\<lparr>ChampionImage := a\<rparr>)),
      (''gameName'', text_field (\<lambda>a p. p\<lparr>GameName := a\<rparr>)), (''tagLine'', text_field (\<lambda>a p. p\<lparr>TagLine := a\<rparr>)),
      (''championId'', int_field (\<lambda>a p. p\<lparr>ChampionId := a\<rparr>)), (''summonerSpellHaste'', int_field (\<lambda>a p. p\<lparr>SummonerSpellHaste := a\<rparr>)),
      (''spells'', slice_field unmarshal_spell (\<lambda>a p. p\<lparr>Spells := a\<rparr>))]"

definition unmarshal_player :: "json \<Rightarrow> player option" where
  "unmarshal_player = unmarshal_struct player_fields zero_player"

definition zero_room :: room where
  "zero_room = \<lparr>Id = [], Players = None, LastUpdated = zero_time\<rparr>"

definition room_fields :: "(string \<times> room field) list" where
  "room_fields =
     [(''id'', text_field (\<lambda>a x. x\<lparr>Id := a\<rparr>)), (''players'', slice_field unmarshal_player (\<lambda>a x. x\<lparr>Players := a\<rparr>)),
      (''lastUpdated'', time_field (\<lambda>a x. x\<lparr>LastUpdated := a\<rparr>))]"

definition unmarshal_room :: "json \<Rightarrow> room option" where
  "unmarshal_room = unmarshal_struct room_fields zero_room"

section \<open>Round trip\<close>

text \<open>What JSON can carry: texts in UTF-8 and integers of 64 bits.\<close>

definition json_text :: "string \<Rightarrow> bool" where
  "json_text s \<longleftrightarrow> valid_text s = s"

definition json_spell :: "summoner_spell \<Rightarrow> bool" where
  "json_spell s \<longleftrightarrow> json_text (Name s) \<and> int64 (BaseCooldown s) \<and> int64 (RemainingCooldown s)"

definition json_player :: "player \<Rightarrow> bool" where
  "json_player p \<longleftrightarrow> (\<forall>s \<in> {Champion p, ChampionImage p, GameName p, TagLine p}. json_text s) \<and>
     int64 (ChampionId p) \<and> int64 (SummonerSpellHaste p) \<and> (\<forall>s \<in> set (elems (Spells p)). json_spell s)"

definition json_room :: "room \<Rightarrow> bool" where
  "json_room x \<longleftrightarrow> json_text (Id x) \<and> (\<forall>p \<in> set (elems (Players x)). json_player p)"

lemmas json_reading = unmarshal_struct_def field_named_def marshal_text_def json_text_def
  text_field_def bool_field_def int_field_def

lemma time_roundtrip: "marshal_time zone t = Some j \<Longrightarrow> time_field upd j r = Some (upd t r)"
  by (auto simp: marshal_time_def time_field_def dest: parse_format)

lemma those_Some: "those (map enc xs) = Some js \<longleftrightarrow> list_all2 (\<lambda>x j. enc x = Some j) xs js"
  by (induction xs arbitrary: js) (auto simp: list_all2_Cons1 split: option.splits)

lemma slice_roundtrip:
  assumes "marshal_slice enc xs = Some j" "\<And>x k. x \<in> set (elems xs) \<Longrightarrow> enc x = Some k \<Longrightarrow> dec k = Some x"
  shows "slice_field dec upd j r = Some (upd xs r)"
proof (cases xs)
  case None
  with assms(1) show ?thesis by (simp add: marshal_slice_def slice_field_def)
next
  case (Some ys)
  with assms(1) obtain js where j: "j = JsonArray js" "those (map enc ys) = Some js" by (auto simp: marshal_slice_def)
  have "list_all2 (\<lambda>k x. dec k = Some x) js ys"
    using j(2) assms(2) Some by (auto simp: those_Some list_all2_conv_all_nth)
  then show ?thesis using j(1) Some by (simp add: slice_field_def those_Some [THEN iffD2])
qed

lemma spell_roundtrip: "marshal_spell zone s = Some j \<Longrightarrow> json_spell s \<Longrightarrow> unmarshal_spell j = Some s"
  by (auto simp: marshal_spell_def unmarshal_spell_def spell_fields_def json_spell_def json_reading zero_spell_def time_roundtrip)

lemma player_roundtrip:
  assumes "marshal_player zone p = Some j" "json_player p"
  shows "unmarshal_player j = Some p"
proof -
  obtain z where z: "marshal_slice (marshal_spell zone) (Spells p) = Some z"
    and j: "j = JsonObject
       [(''champion'', marshal_text (Champion p)), (''championImage'', marshal_text (ChampionImage p)),
        (''gameName'', marshal_text (GameName p)), (''tagLine'', marshal_text (TagLine p)),
        (''championId'', JsonInt (ChampionId p)), (''summonerSpellHaste'', JsonInt (SummonerSpellHaste p)), (''spells'', z)]"
    using assms(1) by (auto simp: marshal_player_def)
  have "slice_field unmarshal_spell (\<lambda>a p. p\<lparr>Spells := a\<rparr>) z q = Some (q\<lparr>Spells := Spells p\<rparr>)" for q :: player
    using slice_roundtrip [OF z, of unmarshal_spell "\<lambda>a p. p\<lparr>Spells := a\<rparr>" q] spell_roundtrip assms(2) by (auto simp: json_player_def)
  with j assms(2) show ?thesis
    by (simp add: unmarshal_player_def player_fields_def json_player_def json_reading zero_player_def)
qed

lemma room_roundtrip:
  assumes "marshal_room zone x = Some j" "json_room x"
  shows "unmarshal_room j = Some x"
proof -
  obtain z t where z: "marshal_slice (marshal_player zone) (Players x) = Some z" "marshal_time zone (LastUpdated x) = Some t"
    and j: "j = JsonObject [(''id'', marshal_text (Id x)), (''players'', z), (''lastUpdated'', t)]"
    using assms(1) by (auto simp: marshal_room_def bind_eq_Some_conv)
  have "slice_field unmarshal_player (\<lambda>a x. x\<lparr>Players := a\<rparr>) z y = Some (y\<lparr>Players := Players x\<rparr>)" for y :: room
    using slice_roundtrip [OF z(1), of unmarshal_player "\<lambda>a x. x\<lparr>Players := a\<rparr>" y] player_roundtrip assms(2) by (auto simp: json_room_def)
  with j assms(2) z(2) show ?thesis
    by (simp add: unmarshal_room_def room_fields_def json_room_def json_reading zero_room_def time_roundtrip)
qed

text \<open>An object is read by the fields that the struct has.\<close>

lemma set_fields_known: "set_fields fs kvs r = set_fields fs (filter (\<lambda>(k, v). field_named fs k \<noteq> None) kvs) r"
proof (induction fs kvs r rule: set_fields.induct)
  case (2 fs k v kvs r)
  then show ?case by (cases "field_named fs k"; cases "the (field_named fs k) v r") simp_all
qed simp

text \<open>Marshalling fails only for a time without a text.\<close>

definition room_times :: "room \<Rightarrow> time list" where
  "room_times x = LastUpdated x # concat (map (\<lambda>p. map CooldownEndTime (elems (Spells p))) (elems (Players x)))"

lemma marshal_slice_None: "marshal_slice enc xs = None \<longleftrightarrow> (\<exists>x \<in> set (elems xs). enc x = None)"
proof -
  have "those (map enc ys) = None \<longleftrightarrow> (\<exists>x \<in> set ys. enc x = None)" for ys
    by (induction ys) (auto split: option.splits)
  then show ?thesis by (cases xs) (simp_all add: marshal_slice_def)
qed

lemma marshal_room_None: "marshal_room zone x = None \<longleftrightarrow> (\<exists>t \<in> set (room_times x). format_time (zone t) t = None)"
  by (auto simp: marshal_room_def marshal_player_def marshal_spell_def marshal_time_def marshal_slice_None room_times_def bind_eq_None_conv)

section \<open>Properties\<close>

text \<open>
  C16: a room survives its JSON form, as Redis keeps it and clients receive it: whatever its
  times are, in any zone, reading what was written gives the same room, with every nil or empty
  slice as it was, and fields that this version does not know, anywhere in the document, change
  nothing. Writing fails only for a time that RFC 3339 has no text for.
\<close>

theorem room_survives_its_json:
  assumes "json_room x"
  shows "case marshal_room zone x of
      None \<Rightarrow> \<exists>t \<in> set (room_times x). format_time (zone t) t = None
    | Some j \<Rightarrow> unmarshal_room j = Some x \<and>
        (\<forall>kvs. filter (\<lambda>(k, v). field_named room_fields k \<noteq> None) kvs = (case j of JsonObject kvs0 \<Rightarrow> kvs0 | _ \<Rightarrow> []) \<longrightarrow>
          unmarshal_room (JsonObject kvs) = Some x)"
proof (cases "marshal_room zone x")
  case None
  then show ?thesis using marshal_room_None [of zone x] by simp
next
  case (Some j)
  then obtain kvs0 where j: "j = JsonObject kvs0" by (auto simp: marshal_room_def bind_eq_Some_conv)
  have "unmarshal_room (JsonObject kvs) = Some x" if "filter (\<lambda>(k, v). field_named room_fields k \<noteq> None) kvs = kvs0" for kvs
    using room_roundtrip [OF Some assms] set_fields_known [of room_fields kvs] that
    by (simp add: j unmarshal_room_def unmarshal_struct_def)
  with Some j room_roundtrip [OF Some assms] show ?thesis by simp
qed

definition ex_json_room :: room where
  "ex_json_room = \<lparr>Id = ''7-1'', Players = Some
     [\<lparr>Champion = ''Ahri'', ChampionImage = [], GameName = ''me'', TagLine = ''EUW'', ChampionId = 103, SummonerSpellHaste = 18,
       Spells = Some [\<lparr>Name = ''Flash'', IsReady = False, BaseCooldown = 300, CooldownEndTime = 63850000000123456789, RemainingCooldown = 254\<rparr>]\<rparr>,
      \<lparr>Champion = ''Lux'', ChampionImage = [], GameName = ''you'', TagLine = [], ChampionId = 99, SummonerSpellHaste = 18, Spells = None\<rparr>],
     LastUpdated = 63850000000000000000\<rparr>"

theorem room_survives_its_json_witness:
  "format_time 120 63850000000123456789 = Some ''2024-04-29T17:06:40.123456789+02:00'' \<and>
   map_option unmarshal_room (marshal_room (\<lambda>t. 120) ex_json_room) = Some (Some ex_json_room)"
proof -
  have "json_room ex_json_room" by code_simp
  note r = room_survives_its_json [OF this, of "\<lambda>t. 120"]
  have "marshal_room (\<lambda>t. 120) ex_json_room \<noteq> None" by code_simp
  then obtain j where j: "marshal_room (\<lambda>t. 120) ex_json_room = Some j" by blast
  have "format_time 120 63850000000123456789 = Some ''2024-04-29T17:06:40.123456789+02:00''" by code_simp
  with r j show ?thesis by simp
qed

end
