(* ===== verification/ApiDocs.thy ===== *)
theory ApiDocs
  imports Server Json
begin

text \<open>
  The Swagger documentation of the API (\<open>docs/docs.go\<close>), and how the answers of the server meet
  it before its middleware.
\<close>

section \<open>The documentation\<close>

datatype schema = StringSchema | IntegerSchema | BooleanSchema | ArraySchema schema | RefSchema string

record doc_response =
  doc_code :: int
  doc_description :: string
  doc_schema :: "schema option"

record doc_parameter =
  par_name :: string
  par_in :: string
  par_description :: string
  par_required :: bool
  par_schema :: schema

record doc_operation =
  op_path :: string
  op_method :: string
  op_description :: string
  op_consumes :: "string list"
  op_produces :: "string list"
  op_tags :: "string list"
  op_summary :: string
  op_parameters :: "doc_parameter list"
  op_responses :: "doc_response list"

abbreviation (input) failure :: "int \<Rightarrow> string \<Rightarrow> doc_response" where
  "failure code t \<equiv> \<lparr>doc_code = code, doc_description = t, doc_schema = Some StringSchema\<rparr>"

abbreviation (input) room_id_parameter :: doc_parameter where
  "room_id_parameter \<equiv> \<lparr>par_name = ''roomId'', par_in = ''path'', par_description = ''Room ID'', par_required = True, par_schema = StringSchema\<rparr>"

definition doc_current_room :: doc_operation where
  "doc_current_room = \<lparr>op_path = ''/current-room'', op_method = ''get'',
     op_description = ''Returns the room currently synchronized with the League Client.'',
     op_consumes = [], op_produces = [''application/json''], op_tags = [''rooms''], op_summary = ''Get current room'', op_parameters = [],
     op_responses =
       [\<lparr>doc_code = 200, doc_description = ''OK'', doc_schema = Some (RefSchema ''dto.CurrentRoomResponse'')\<rparr>,
        failure 404 ''Not Found'', failure 405 ''Method Not Allowed'']\<rparr>"

definition doc_health :: doc_operation where
  "doc_health = \<lparr>op_path = ''/health'', op_method = ''get'',
     op_description = ''Returns OK when the application process is running.'',
     op_consumes = [], op_produces = [''application/json''], op_tags = [''health''], op_summary = ''Health check'', op_parameters = [],
     op_responses =
       [\<lparr>doc_code = 200, doc_description = ''OK'', doc_schema = Some (RefSchema ''handlers.HealthResponse'')\<rparr>,
        failure 405 ''Method Not Allowed'']\<rparr>"

definition doc_ready :: doc_operation where
  "doc_ready = \<lparr>op_path = ''/ready'', op_method = ''get'',
     op_description = ''Checks whether PostgreSQL and Redis are available.'',
     op_consumes = [], op_produces = [''application/json''], op_tags = [''health''], op_summary = ''Readiness check'', op_parameters = [],
     op_responses =
       [\<lparr>doc_code = 200, doc_description = ''OK'', doc_schema = Some (RefSchema ''handlers.ReadinessResponse'')\<rparr>,
        failure 405 ''Method Not Allowed'',
        \<lparr>doc_code = 503, doc_description = ''Service Unavailable'', doc_schema = Some (RefSchema ''handlers.ReadinessResponse'')\<rparr>]\<rparr>"

definition doc_room :: doc_operation where
  "doc_room = \<lparr>op_path = ''/rooms/{roomId}'', op_method = ''get'',
     op_description = ''Returns a room with its players and summoner spell cooldowns.'',
     op_consumes = [], op_produces = [''application/json''], op_tags = [''rooms''], op_summary = ''Get room'',
     op_parameters = [room_id_parameter],
     op_responses =
       [\<lparr>doc_code = 200, doc_description = ''OK'', doc_schema = Some (RefSchema ''models.Room'')\<rparr>,
        failure 404 ''Not Found'', failure 500 ''Internal Server Error'']\<rparr>"

definition doc_add_player :: doc_operation where
  "doc_add_player = \<lparr>op_path = ''/rooms/{roomId}/players'', op_method = ''post'',
     op_description = ''Adds a player to an existing room.'',
     op_consumes = [''application/json''], op_produces = [''application/json''], op_tags = [''rooms''], op_summary = ''Add player'',
     op_parameters =
       [room_id_parameter,
        \<lparr>par_name = ''request'', par_in = ''body'', par_description = ''Player data'', par_required = True,
         par_schema = RefSchema ''dto.CreatePlayerRequest''\<rparr>],
     op_responses =
       [\<lparr>doc_code = 201, doc_description = ''Created'', doc_schema = None\<rparr>,
        failure 400 ''Bad Request'', failure 404 ''Not Found'', failure 405 ''Method Not Allowed'',
        failure 500 ''Internal Server Error'']\<rparr>"

definition doc_toggle_spell :: doc_operation where
  "doc_toggle_spell = \<lparr>op_path = ''/rooms/{roomId}/spells/toggle'', op_method = ''post'',
     op_description = ''Starts a cooldown for a ready spell or resets an active cooldown.'',
     op_consumes = [''application/json''], op_produces = [''application/json''], op_tags = [''rooms''], op_summary = ''Toggle summoner spell'',
     op_parameters =
       [room_id_parameter,
        \<lparr>par_name = ''request'', par_in = ''body'', par_description = ''Spell toggle data'', par_required = True,
         par_schema = RefSchema ''dto.ToggleSpellRequest''\<rparr>],
     op_responses =
       [\<lparr>doc_code = 200, doc_description = ''OK'', doc_schema = None\<rparr>,
        failure 400 ''Bad Request'', failure 404 ''Not Found'', failure 405 ''Method Not Allowed'',
        failure 500 ''Internal Server Error'']\<rparr>"

definition doc_paths :: "doc_operation list" where
  "doc_paths = [doc_current_room, doc_health, doc_ready, doc_room, doc_add_player, doc_toggle_spell]"

text \<open>The properties of the objects, with their examples.\<close>

type_synonym doc_object = "(string \<times> schema \<times> string option) list"

definition doc_CreatePlayerRequest :: doc_object where
  "doc_CreatePlayerRequest = [(''champion'', StringSchema, Some ''Ahri'')]"

definition doc_CurrentRoomResponse :: doc_object where
  "doc_CurrentRoomResponse = [(''roomId'', StringSchema, Some ''7936545340-100'')]"

definition doc_ToggleSpellRequest :: doc_object where
  "doc_ToggleSpellRequest =
     [(''gameName'', StringSchema, Some ''PlayerOne''), (''spell'', StringSchema, Some ''Flash''), (''tagLine'', StringSchema, Some ''EUW'')]"

definition doc_HealthResponse :: doc_object where
  "doc_HealthResponse = [(''status'', StringSchema, Some ''ok'')]"

definition doc_ReadinessResponse :: doc_object where
  "doc_ReadinessResponse =
     [(''postgres'', StringSchema, Some ''ok''), (''redis'', StringSchema, Some ''ok''), (''status'', StringSchema, Some ''ok'')]"

definition doc_Player :: doc_object where
  "doc_Player =
     [(''champion'', StringSchema, None), (''championId'', IntegerSchema, None), (''gameName'', StringSchema, None),
      (''spells'', ArraySchema (RefSchema ''models.SummonerSpell''), None), (''summonerSpellHaste'', IntegerSchema, None),
      (''tagLine'', StringSchema, None)]"

definition doc_Room :: doc_object where
  "doc_Room =
     [(''id'', StringSchema, None), (''lastUpdated'', StringSchema, None),
      (''players'', ArraySchema (RefSchema ''models.Player''), None)]"

definition doc_SummonerSpell :: doc_object where
  "doc_SummonerSpell =
     [(''baseCooldown'', IntegerSchema, None), (''cooldownEndTime'', StringSchema, None), (''isReady'', BooleanSchema, None),
      (''name'', StringSchema, None), (''remainingCooldown'', IntegerSchema, None)]"

definition doc_definitions :: "(string \<times> doc_object) list" where
  "doc_definitions =
     [(''dto.CreatePlayerRequest'', doc_CreatePlayerRequest), (''dto.CurrentRoomResponse'', doc_CurrentRoomResponse),
      (''dto.ToggleSpellRequest'', doc_ToggleSpellRequest), (''handlers.HealthResponse'', doc_HealthResponse),
      (''handlers.ReadinessResponse'', doc_ReadinessResponse), (''models.Player'', doc_Player), (''models.Room'', doc_Room),
      (''models.SummonerSpell'', doc_SummonerSpell)]"

text \<open>The template, whose other fields are filled from the record.\<close>

definition docTemplate :: "doc_operation list \<times> (string \<times> doc_object) list" where
  "docTemplate = (doc_paths, doc_definitions)"

record swagger_info =
  sw_Version :: string
  sw_Host :: string
  sw_BasePath :: string
  sw_Schemes :: "string list"
  sw_Title :: string
  sw_Description :: string
  sw_InfoInstanceName :: string
  sw_SwaggerTemplate :: "doc_operation list \<times> (string \<times> doc_object) list"
  sw_LeftDelim :: string
  sw_RightDelim :: string

definition SwaggerInfo :: swagger_info where
  "SwaggerInfo = \<lparr>sw_Version = ''1.0'', sw_Host = ''localhost:8080'', sw_BasePath = ''/'', sw_Schemes = [''http''],
     sw_Title = ''LoL Timer API'',
     sw_Description = ''API for tracking League of Legends summoner spell cooldowns.'' @ [CHR 0x0A] @
       ''Rooms are synchronized with the League Client and updated in real time.'' @ [CHR 0x0A] @
       ''PostgreSQL is used for persistence and Redis for caching.'',
     sw_InfoInstanceName = ''swagger'', sw_SwaggerTemplate = docTemplate, sw_LeftDelim = ''{{'', sw_RightDelim = ''}}''\<rparr>"

section \<open>What it promises\<close>

text \<open>A parameter of a path is a segment that reaches the server: browsers and servers remove the dots.\<close>

definition template_matches :: "string \<Rightarrow> string \<Rightarrow> bool" where
  "template_matches tmpl path =
     list_all2 (\<lambda>t s. if t = ''{roomId}'' then s \<notin> {[], ''.'', ''..''} else s = t) (split_at (CHR ''/'') tmpl) (split_at (CHR ''/'') path)"

definition documented_method :: "doc_operation \<Rightarrow> string" where
  "documented_method op = (if op_method op = ''get'' then ''GET'' else ''POST'')"

text \<open>
  A document of a schema has every property that is documented, each of its own schema; it may
  have others. A nil slice is null, which stands for the empty array.
\<close>

fun conforms :: "json \<Rightarrow> schema \<Rightarrow> bool" where
  "conforms (JsonString s) sch \<longleftrightarrow> sch = StringSchema"
| "conforms (JsonInt i) sch \<longleftrightarrow> sch = IntegerSchema"
| "conforms (JsonBool b) sch \<longleftrightarrow> sch = BooleanSchema"
| "conforms (JsonArray vs) sch \<longleftrightarrow> (case sch of ArraySchema item \<Rightarrow> \<forall>v \<in> set vs. conforms v item | _ \<Rightarrow> False)"
| "conforms (JsonObject kvs) sch \<longleftrightarrow>
     (case sch of
        RefSchema n \<Rightarrow>
          (case map_of doc_definitions n of
             None \<Rightarrow> False
           | Some props \<Rightarrow> set (map fst props) \<subseteq> set (map fst kvs) \<and>
               (\<forall>kv \<in> set kvs. case map_of props (fst kv) of None \<Rightarrow> True | Some (item, ex) \<Rightarrow> conforms (snd kv) item))
      | _ \<Rightarrow> False)"
| "conforms JsonNull sch \<longleftrightarrow> (\<exists>item. sch = ArraySchema item)"
| "conforms (JsonNumber s) sch \<longleftrightarrow> False"

definition marshal_current_room :: "string \<Rightarrow> json" where
  "marshal_current_room i = JsonObject [(''roomId'', marshal_text i)]"

definition marshal_health :: "string \<Rightarrow> json" where
  "marshal_health status = JsonObject [(''status'', marshal_text status)]"

definition marshal_readiness :: "string \<Rightarrow> string \<Rightarrow> string \<Rightarrow> json" where
  "marshal_readiness status pg redis =
     JsonObject [(''status'', marshal_text status), (''postgres'', marshal_text pg), (''redis'', marshal_text redis)]"

definition body_json :: "(time \<Rightarrow> int) \<Rightarrow> http_body \<Rightarrow> json option" where
  "body_json zone b =
     (case b of
        TextBody t \<Rightarrow> None
      | RoomBody x \<Rightarrow> marshal_room zone x
      | CurrentRoomBody i \<Rightarrow> Some (marshal_current_room i)
      | HealthBody s \<Rightarrow> Some (marshal_health s)
      | ReadinessBody s pg redis \<Rightarrow> Some (marshal_readiness s pg redis))"

text \<open>A documented string is the text of an error, an object the JSON form of the answer.\<close>

definition body_fits :: "(time \<Rightarrow> int) \<Rightarrow> schema option \<Rightarrow> http_body list \<Rightarrow> bool" where
  "body_fits zone sch bs =
     (case sch of
        None \<Rightarrow> bs = []
      | Some StringSchema \<Rightarrow> (\<exists>t. bs = [TextBody t])
      | Some s \<Rightarrow> (\<exists>b. bs = [b] \<and> (\<forall>t. b \<noteq> TextBody t) \<and> (case body_json zone b of None \<Rightarrow> True | Some j \<Rightarrow> conforms j s)))"

definition answers :: "(time \<Rightarrow> int) \<Rightarrow> doc_operation \<Rightarrow> http_response \<Rightarrow> bool" where
  "answers zone op w \<longleftrightarrow>
     (\<exists>d \<in> set (op_responses op). resp_status w = Some (doc_code d) \<and> body_fits zone (doc_schema d) (resp_body w))"

lemmas doc_objects = doc_definitions_def doc_CreatePlayerRequest_def doc_CurrentRoomResponse_def doc_ToggleSpellRequest_def
  doc_HealthResponse_def doc_ReadinessResponse_def doc_Player_def doc_Room_def doc_SummonerSpell_def

lemma conforms_spell: "marshal_spell zone s = Some j \<Longrightarrow> conforms j (RefSchema ''models.SummonerSpell'')"
  by (auto simp: marshal_spell_def marshal_time_def marshal_text_def doc_objects)

lemma conforms_slice:
  assumes "marshal_slice enc xs = Some j" "\<And>x k. enc x = Some k \<Longrightarrow> conforms k item"
  shows "conforms j (ArraySchema item)"
proof (cases xs)
  case (Some ys)
  with assms(1) obtain js where js: "j = JsonArray js" "list_all2 (\<lambda>x k. enc x = Some k) ys js"
    by (auto simp: marshal_slice_def those_Some)
  have "conforms k item" if "k \<in> set js" for k
    using js(2) assms(2) that by (auto simp: list_all2_conv_all_nth in_set_conv_nth)
  with js(1) show ?thesis by simp
qed (use assms(1) in \<open>simp add: marshal_slice_def\<close>)

lemma conforms_player: "marshal_player zone p = Some j \<Longrightarrow> conforms j (RefSchema ''models.Player'')"
  using conforms_slice [of "marshal_spell zone" "Spells p" _ "RefSchema ''models.SummonerSpell''"] conforms_spell
  by (auto simp: marshal_player_def marshal_text_def doc_objects)

lemma conforms_room: "marshal_room zone x = Some j \<Longrightarrow> conforms j (RefSchema ''models.Room'')"
  using conforms_slice [of "marshal_player zone" "Players x" _ "RefSchema ''models.Player''"] conforms_player
  by (auto simp: marshal_room_def marshal_time_def marshal_text_def bind_eq_Some_conv doc_objects)

text \<open>The one field of an answer that the documentation does not know.\<close>

lemma docs_miss_the_champion_image:
  assumes "marshal_player zone p = Some j"
  shows "\<exists>kvs. j = JsonObject kvs \<and> set (map fst kvs) - set (map fst doc_Player) = {''championImage''}"
  using assms by (auto simp: marshal_player_def doc_Player_def)

section \<open>What the server answers\<close>

lemma clean_path_parts:
  "\<forall>p \<in> set ps. p \<notin> {[], ''.'', ''..''} \<Longrightarrow> clean_parts acc ps = rev acc @ ps"
  by (induction ps arbitrary: acc) simp_all

lemma split_at_last: "\<exists>w ws. split_at sep (s @ [sep]) = w # ws @ [[]]"
proof (induction s)
  case (Cons c cs)
  then obtain w ws where e: "split_at sep (cs @ [sep]) = w # ws @ [[]]" by blast
  show ?case
  proof (cases "c = sep")
    case True
    with e have "split_at sep ((c # cs) @ [sep]) = [] # (w # ws) @ [[]]" by simp
    then show ?thesis by blast
  next
    case False
    with e have "split_at sep ((c # cs) @ [sep]) = (c # w) # ws @ [[]]" by simp
    then show ?thesis by blast
  qed
qed simp

lemma cleanPath_clean:
  assumes "split_at (CHR ''/'') rest = ps" "\<forall>p \<in> set ps. p \<notin> {[], ''.'', ''..''}"
  shows "cleanPath (CHR ''/'' # rest) = CHR ''/'' # rest"
proof -
  have j: "join_with ''/'' ps = rest" using split_at_join [of "CHR ''/''" rest] assms(1) by simp
  have ne: "rest \<noteq> []"
  proof
    assume "rest = []"
    with assms(1) have "ps = [[]]" by simp
    with assms(2) show False by simp
  qed
  have l: "last rest \<noteq> CHR ''/''"
  proof
    assume "last rest = CHR ''/''"
    then have "rest = butlast rest @ ''/''" using ne by (metis append_butlast_last_id)
    then have "[] \<in> set (split_at (CHR ''/'') rest)" using split_at_last [of "CHR ''/''" "butlast rest"] by (metis in_set_conv_decomp append_Cons)
    with assms(2) show False unfolding assms(1) by blast
  qed
  show ?thesis using ne l j clean_path_parts [OF assms(2), of "[]"] assms(1) by (simp add: cleanPath_def path_Clean_def)
qed

text \<open>Each documented path reaches its handler.\<close>

lemma mux_reaches:
  assumes "URLPath req = CHR ''/'' # rest" "\<forall>p \<in> set (split_at (CHR ''/'') rest). p \<notin> {[], ''.'', ''..''}"
    and "rest \<notin> {''rooms'', ''swagger''}" "best_match (CHR ''/'' # rest) (app_routes r lib env) = Some (pat, h)"
  shows "ServeMux redirect (app_routes r lib env) req sh = h req sh"
  using cleanPath_clean [OF refl assms(2)] assms(1,3,4) by (simp add: ServeMux_def app_routes_def Let_def)

lemma mux_rooms:
  assumes "URLPath req = ''/rooms/'' @ s" "\<forall>p \<in> set (split_at (CHR ''/'') s). p \<notin> {[], ''.'', ''..''}"
  shows "ServeMux redirect (app_routes r lib env) req sh =
    on_rooms (HandleRooms r (re_now env) (re_saved env) (re_enc env)) req sh"
proof -
  have "split_at (CHR ''/'') (''rooms/'' @ s) = ''rooms'' # split_at (CHR ''/'') s" by simp
  moreover have "best_match (''/rooms/'' @ s) (app_routes r lib env) =
      Some (''/rooms/'', on_rooms (HandleRooms r (re_now env) (re_saved env) (re_enc env)))"
    by (simp add: app_routes_def matches_def HasPrefix_def)
  ultimately show ?thesis using mux_reaches [of req "''rooms/'' @ s"] assms by simp
qed

lemma mux_others:
  "URLPath req = ''/current-room'' \<Longrightarrow> ServeMux redirect (app_routes r lib env) req sh = on_rooms (http_GetCurrentRoom (re_enc env)) req sh"
  "URLPath req = ''/health'' \<Longrightarrow> ServeMux redirect (app_routes r lib env) req sh = on_rooms (Health (re_enc env)) req sh"
  "URLPath req = ''/ready'' \<Longrightarrow> ServeMux redirect (app_routes r lib env) req sh = on_rooms (Ready (re_pg env) (re_redis env) (re_enc env)) req sh"
  using mux_reaches [of req "''current-room''" r lib env "''/current-room''" "on_rooms (http_GetCurrentRoom (re_enc env))" redirect sh]
    mux_reaches [of req "''health''" r lib env "''/health''" "on_rooms (Health (re_enc env))" redirect sh]
    mux_reaches [of req "''ready''" r lib env "''/ready''" "on_rooms (Ready (re_pg env) (re_redis env) (re_enc env))" redirect sh]
  by (simp_all add: app_routes_def matches_def HasPrefix_def)

text \<open>The answers of the handlers.\<close>

lemma respond_simps:
  "resp_status (respond [WriteHeader code]) = Some code" "resp_body (respond [WriteHeader code]) = []"
  "resp_status (respond [SetHeader k v, WriteBody b]) = Some 200" "resp_body (respond [SetHeader k v, WriteBody b]) = [b]"
  "resp_status (respond (writeJSON code b NoFault)) = Some code" "resp_body (respond (writeJSON code b NoFault)) = [b]"
  by (simp_all add: respond_def start_response_def empty_response_def writeJSON_def encode_json_def)

lemma answers_failure:
  "failure code t \<in> set (op_responses op) \<Longrightarrow> answers zone op (respond (http_Error msg code))"
  unfolding answers_def by (intro bexI [of _ "failure code t"]) (simp_all add: http_Error_status body_fits_def)

lemmas doc_operations = doc_current_room_def doc_health_def doc_ready_def doc_room_def doc_add_player_def doc_toggle_spell_def

lemma room_answers:
  assumes "http_GetRoom r NoFault req st = (st', acts, p)"
  shows "answers zone doc_room (respond acts)"
proof (cases "snd (GetRoomSnapshot r (getRoomIdFromPath req) st)")
  case (Inl e)
  then have "acts = http_Error ''Failed to get room'' 500" using assms by (auto simp: http_GetRoom_def split: prod.splits)
  then show ?thesis by (auto simp: doc_room_def intro!: answers_failure)
next
  case (Inr q)
  show ?thesis
  proof (cases q)
    case None
    then have "acts = http_Error ''Room not found'' 404" using Inr assms by (auto simp: http_GetRoom_def split: prod.splits)
    then show ?thesis by (auto simp: doc_room_def intro!: answers_failure)
  next
    case (Some x)
    then have "acts = [SetHeader ''Content-Type'' ''application/json'', WriteBody (RoomBody x)]"
      using Inr assms by (auto simp: http_GetRoom_def encode_json_def split: prod.splits)
    then show ?thesis
      by (auto simp: answers_def doc_room_def respond_simps body_fits_def body_json_def conforms_room split: option.split)
  qed
qed

lemma add_player_answers:
  assumes "http_AddPlayer r saved req st = (st', acts, p)" "Method req = ''POST''"
  shows "answers zone doc_add_player (respond acts)"
proof -
  have "failure 400 ''Bad Request'' \<in> set (op_responses doc_add_player)" "failure 404 ''Not Found'' \<in> set (op_responses doc_add_player)"
    "failure 500 ''Internal Server Error'' \<in> set (op_responses doc_add_player)"
    by (simp_all add: doc_add_player_def)
  note fails = this [THEN answers_failure]
  have "answers zone doc_add_player (respond [WriteHeader 201])" by (simp add: answers_def doc_add_player_def respond_simps body_fits_def)
  with assms fails show ?thesis
    unfolding http_AddPlayer_def Let_def by (auto split: sum.splits prod.splits if_splits)
qed

lemma toggle_spell_answers:
  assumes "http_ToggleSpell r now saved req st = (st', acts, False)" "Method req = ''POST''"
  shows "answers zone doc_toggle_spell (respond acts)"
proof -
  have "failure 400 ''Bad Request'' \<in> set (op_responses doc_toggle_spell)" "failure 404 ''Not Found'' \<in> set (op_responses doc_toggle_spell)"
    "failure 500 ''Internal Server Error'' \<in> set (op_responses doc_toggle_spell)"
    by (simp_all add: doc_toggle_spell_def)
  note fails = this [THEN answers_failure]
  have "answers zone doc_toggle_spell (respond [WriteHeader 200])" by (simp add: answers_def doc_toggle_spell_def respond_simps body_fits_def)
  with assms fails show ?thesis
    unfolding http_ToggleSpell_def by (auto split: sum.splits prod.splits if_splits option.splits)
qed

lemma current_room_answers:
  assumes "http_GetCurrentRoom NoFault req st = (st', acts, p)" "Method req = ''GET''"
  shows "\<not> p \<and> answers zone doc_current_room (respond acts)"
proof (cases "GetCurrentRoomID st = []")
  case True
  then have "acts = http_Error ''Current room not found'' 404 \<and> \<not> p" using assms by (auto simp: http_GetCurrentRoom_def)
  then show ?thesis by (auto simp: doc_current_room_def intro!: answers_failure)
next
  case False
  then have "acts = [SetHeader ''Content-Type'' ''application/json'', WriteBody (CurrentRoomBody (GetCurrentRoomID st))] \<and> \<not> p"
    using assms by (auto simp: http_GetCurrentRoom_def encode_json_def)
  then show ?thesis
    by (auto simp: answers_def doc_current_room_def respond_simps body_fits_def body_json_def marshal_current_room_def marshal_text_def doc_objects)
qed

lemma health_answers:
  assumes "Health NoFault req st = (st', acts, p)" "Method req = ''GET''"
  shows "\<not> p \<and> answers zone doc_health (respond acts)"
  using assms
  by (auto simp: Health_def answers_def doc_health_def respond_simps body_fits_def body_json_def marshal_health_def marshal_text_def doc_objects)

lemma ready_answers:
  assumes "Ready pg redis NoFault req st = (st', acts, p)" "Method req = ''GET''"
  shows "\<not> p \<and> answers zone doc_ready (respond acts)"
proof -
  obtain s p1 r1 code where "acts = writeJSON code (ReadinessBody s p1 r1) NoFault \<and> \<not> p" "code = 200 \<or> code = 503"
    using assms by (auto simp: Ready_def Let_def split: if_splits)
  then show ?thesis
    by (auto simp: answers_def doc_ready_def respond_simps body_fits_def body_json_def marshal_readiness_def marshal_text_def doc_objects)
qed

lemma template_paths:
  "template_matches ''/current-room'' path \<Longrightarrow> path = ''/current-room''" "template_matches ''/health'' path \<Longrightarrow> path = ''/health''"
  "template_matches ''/ready'' path \<Longrightarrow> path = ''/ready''"
  "template_matches ''/rooms/{roomId}'' path \<Longrightarrow>
    \<exists>i. path = ''/rooms/'' @ i \<and> i \<notin> {[], ''.'', ''..''} \<and> CHR ''/'' \<notin> set i"
  "template_matches ''/rooms/{roomId}/players'' path \<Longrightarrow>
    \<exists>i. path = ''/rooms/'' @ i @ ''/players'' \<and> i \<notin> {[], ''.'', ''..''} \<and> CHR ''/'' \<notin> set i"
  "template_matches ''/rooms/{roomId}/spells/toggle'' path \<Longrightarrow>
    \<exists>i. path = ''/rooms/'' @ i @ ''/spells/toggle'' \<and> i \<notin> {[], ''.'', ''..''} \<and> CHR ''/'' \<notin> set i"
proof -
  note join = split_at_join [of "CHR ''/''" path] and words = split_at_words [of _ "CHR ''/''" path]
  show "template_matches ''/current-room'' path \<Longrightarrow> path = ''/current-room''" "template_matches ''/health'' path \<Longrightarrow> path = ''/health''"
    "template_matches ''/ready'' path \<Longrightarrow> path = ''/ready''"
    using join by (auto simp: template_matches_def list_all2_Cons1)
  show "template_matches ''/rooms/{roomId}'' path \<Longrightarrow>
    \<exists>i. path = ''/rooms/'' @ i \<and> i \<notin> {[], ''.'', ''..''} \<and> CHR ''/'' \<notin> set i"
    "template_matches ''/rooms/{roomId}/players'' path \<Longrightarrow>
    \<exists>i. path = ''/rooms/'' @ i @ ''/players'' \<and> i \<notin> {[], ''.'', ''..''} \<and> CHR ''/'' \<notin> set i"
    "template_matches ''/rooms/{roomId}/spells/toggle'' path \<Longrightarrow>
    \<exists>i. path = ''/rooms/'' @ i @ ''/spells/toggle'' \<and> i \<notin> {[], ''.'', ''..''} \<and> CHR ''/'' \<notin> set i"
    using join words by (fastforce simp: template_matches_def list_all2_Cons1)+
qed

text \<open>A request for a documented path is handled by the handler of that operation.\<close>

lemma room_paths:
  assumes "URLPath req = ''/rooms/'' @ i @ rest" "i \<notin> {[], ''.'', ''..''}" "CHR ''/'' \<notin> set i"
    and "rest \<in> {[], ''/players'', ''/spells/toggle''}"
  shows "ServeMux redirect (app_routes r lib env) req (st, h) = on_rooms
     (\<lambda>req st. if rest = [] then (if Method req = ''GET'' then http_GetRoom r (re_enc env) req st else (st, http_NotFound, False))
       else if rest = ''/players'' then http_AddPlayer r (re_saved env) req st
       else http_ToggleSpell r (re_now env) (re_saved env) req st) req (st, h)"
proof -
  have parts: "split_at (CHR ''/'') (i @ rest) = i # (if rest = [] then [] else if rest = ''/players'' then [''players''] else [''spells'', ''toggle''])"
    using assms(3,4) split_at_word [OF assms(3)] split_at_cons [OF assms(3), of "''players''"] split_at_cons [OF assms(3), of "''spells/toggle''"]
    by auto
  have "ServeMux redirect (app_routes r lib env) req (st, h) =
      on_rooms (HandleRooms r (re_now env) (re_saved env) (re_enc env)) req (st, h)"
    by (rule mux_rooms [OF assms(1)]) (use assms(2) parts in auto)
  moreover have "TrimPrefix ''/rooms/'' (URLPath req) = i @ rest" unfolding assms(1) by (rule TrimPrefix_append)
  ultimately show ?thesis using assms(4) parts by (auto simp: on_rooms_def HandleRooms_def)
qed

text \<open>An answer as it is documented: to another method it is a refusal.\<close>

definition documented_answer :: "(time \<Rightarrow> int) \<Rightarrow> doc_operation \<Rightarrow> http_request \<Rightarrow> rw_action list \<times> bool \<Rightarrow> bool" where
  "documented_answer zone op req = (\<lambda>(acts, panicked). \<not> panicked \<and>
     (if Method req = documented_method op then answers zone op (respond acts)
      else resp_status (respond acts) = Some (if 405 \<in> set (map doc_code (op_responses op)) then 405 else 404)))"

lemma methods:
  "documented_method doc_current_room = ''GET''" "documented_method doc_health = ''GET''" "documented_method doc_ready = ''GET''"
  "documented_method doc_room = ''GET''" "documented_method doc_add_player = ''POST''" "documented_method doc_toggle_spell = ''POST''"
  by (simp_all add: documented_method_def doc_operations)

lemma refusals:
  "405 \<in> doc_code ` set (op_responses doc_current_room)" "405 \<in> doc_code ` set (op_responses doc_health)"
  "405 \<in> doc_code ` set (op_responses doc_ready)" "405 \<notin> doc_code ` set (op_responses doc_room)"
  "405 \<in> doc_code ` set (op_responses doc_add_player)" "405 \<in> doc_code ` set (op_responses doc_toggle_spell)"
  by (simp_all add: doc_operations)

lemma others_documented:
  "documented_answer zone doc_current_room req (snd (http_GetCurrentRoom NoFault req st))"
  "documented_answer zone doc_health req (snd (Health NoFault req st))"
  "documented_answer zone doc_ready req (snd (Ready pg redis NoFault req st))"
proof -
  show "documented_answer zone doc_current_room req (snd (http_GetCurrentRoom NoFault req st))"
  proof (cases "Method req = ''GET''")
    case True
    obtain st' acts p where h: "http_GetCurrentRoom NoFault req st = (st', acts, p)" by (metis prod_cases3)
    from current_room_answers [OF h True] True show ?thesis by (simp add: documented_answer_def methods h)
  qed (simp add: documented_answer_def methods http_GetCurrentRoom_def http_Error_status refusals)
  show "documented_answer zone doc_health req (snd (Health NoFault req st))"
  proof (cases "Method req = ''GET''")
    case True
    obtain st' acts p where h: "Health NoFault req st = (st', acts, p)" by (metis prod_cases3)
    from health_answers [OF h True] True show ?thesis by (simp add: documented_answer_def methods h)
  qed (simp add: documented_answer_def methods Health_def http_Error_status refusals)
  show "documented_answer zone doc_ready req (snd (Ready pg redis NoFault req st))"
  proof (cases "Method req = ''GET''")
    case True
    obtain st' acts p where h: "Ready pg redis NoFault req st = (st', acts, p)" by (metis prod_cases3)
    from ready_answers [OF h True] True show ?thesis by (simp add: documented_answer_def methods h)
  qed (simp add: documented_answer_def methods Ready_def http_Error_status refusals)
qed

lemma rooms_documented:
  "documented_answer zone doc_room req (snd (if Method req = ''GET'' then http_GetRoom r NoFault req st else (st, http_NotFound, False)))"
  "documented_answer zone doc_add_player req (snd (http_AddPlayer r saved req st))"
  "ToggleSpellByRiotId r now saved (getRoomIdFromPath req) gn tg sp st = Some res \<Longrightarrow>
    decode_toggle_spell (Body req) = Inr \<lparr>ReqGameName = gn, ReqTagLine = tg, ReqSpell = sp\<rparr> \<or> isl (decode_toggle_spell (Body req)) \<Longrightarrow>
    documented_answer zone doc_toggle_spell req (snd (http_ToggleSpell r now saved req st))"
proof -
  show "documented_answer zone doc_room req (snd (if Method req = ''GET'' then http_GetRoom r NoFault req st else (st, http_NotFound, False)))"
  proof (cases "Method req = ''GET''")
    case True
    obtain st' acts p where h: "http_GetRoom r NoFault req st = (st', acts, p)" by (metis prod_cases3)
    moreover have "\<not> p" using h by (auto simp: http_GetRoom_def Let_def split: prod.splits sum.splits option.splits)
    ultimately show ?thesis using room_answers [OF h] True by (simp add: documented_answer_def methods)
  qed (simp add: documented_answer_def methods http_NotFound_def http_Error_status refusals)
  show "documented_answer zone doc_add_player req (snd (http_AddPlayer r saved req st))"
  proof (cases "Method req = ''POST''")
    case True
    obtain st' acts p where h: "http_AddPlayer r saved req st = (st', acts, p)" by (metis prod_cases3)
    moreover have "\<not> p" using h by (auto simp: http_AddPlayer_def Let_def split: prod.splits sum.splits if_splits)
    ultimately show ?thesis using add_player_answers [OF h True] True by (simp add: documented_answer_def methods)
  qed (simp add: documented_answer_def methods http_AddPlayer_def http_Error_status refusals)
  assume t: "ToggleSpellByRiotId r now saved (getRoomIdFromPath req) gn tg sp st = Some res"
    "decode_toggle_spell (Body req) = Inr \<lparr>ReqGameName = gn, ReqTagLine = tg, ReqSpell = sp\<rparr> \<or> isl (decode_toggle_spell (Body req))"
  show "documented_answer zone doc_toggle_spell req (snd (http_ToggleSpell r now saved req st))"
  proof (cases "Method req = ''POST''")
    case True
    obtain st' acts p where h: "http_ToggleSpell r now saved req st = (st', acts, p)" by (metis prod_cases3)
    moreover have "\<not> p" using h t by (auto simp: http_ToggleSpell_def split: prod.splits sum.splits if_splits option.splits)
    ultimately show ?thesis using toggle_spell_answers [of r now saved req st st' acts] True by (simp add: documented_answer_def methods)
  qed (simp add: documented_answer_def methods http_ToggleSpell_def http_Error_status refusals)
qed

lemma toggle_documented:
  assumes "room_service r view I f g" "service_inv view I st" "0 \<le> now"
  shows "documented_answer zone doc_toggle_spell req (snd (http_ToggleSpell r now saved req st))"
proof -
  obtain gn tg sp where d: "decode_toggle_spell (Body req) = Inr \<lparr>ReqGameName = gn, ReqTagLine = tg, ReqSpell = sp\<rparr> \<or> isl (decode_toggle_spell (Body req))"
    by (cases "decode_toggle_spell (Body req)") (simp, metis (mono_tags) toggle_spell_request.cases)
  obtain st' res where "ToggleSpellByRiotId r now saved (getRoomIdFromPath req) gn tg sp st = Some (st', res)"
    using room_service.toggle_defined [OF assms] by blast
  from rooms_documented(3) [OF this d] show ?thesis .
qed

section \<open>Properties\<close>



end
