(* ===== verification/Delivery.thy ===== *)
theory Delivery
  imports Pipeline DeadLetter "HOL-Library.Sublist"
begin

text \<open>
  A game event from its forming to its end: the outbox and the relay of the server, the stream of
  game events, the consumer with its failure handling, the dead-letter stream and the replay
  command (\<open>Pipeline\<close>, \<open>DeadLetter\<close>), each at its own pace and with its own failures. What is
  relied on of the two streams is what \<open>internal/messaging/jetstream.go\<close> and
  \<open>jetstream_consumer.go\<close> ask of JetStream: a message is stored at the next sequence unless its
  identifier is known, and stays until it is settled; every delivery names its sequence. That old
  messages are dropped at the age limits of the streams (7 and 30 days) is left out.
\<close>

section \<open>The streams\<close>

definition StreamGameEvents :: string where
  "StreamGameEvents = ''GAME_EVENTS''"

type_synonym message = "string \<times> string \<times> js_payload"

abbreviation msg_id :: "message \<Rightarrow> string" where
  "msg_id m \<equiv> fst (snd m)"

text \<open>
  What a stream makes of published messages. The duplicates window is the server's: a message
  whose identifier the stream holds may be recognised or stored again.
\<close>

inductive stores :: "message list \<Rightarrow> message list \<Rightarrow> message list \<Rightarrow> bool" where
  none: "stores log [] log"
| store: "stores (log @ [m]) ms log' \<Longrightarrow> stores log (m # ms) log'"
| duplicate: "msg_id m \<in> msg_id ` set log \<Longrightarrow> stores log ms log' \<Longrightarrow> stores log (m # ms) log'"

lemma stores_appends: "stores log ms log' \<Longrightarrow> \<exists>new. log' = log @ new \<and> set new \<subseteq> set ms"
proof (induction rule: stores.induct)
  case (store log m ms log')
  then obtain new where "log' = log @ m # new" "set new \<subseteq> set ms" by auto
  then show ?case by (intro exI [of _ "m # new"]) auto
qed auto

lemma stores_ids: "stores log ms log' \<Longrightarrow> msg_id ` set ms \<subseteq> msg_id ` set log'"
proof (induction rule: stores.induct)
  case (store log m ms log')
  from stores_appends [OF store.hyps] store.IH show ?case by auto
next
  case (duplicate m log ms log')
  from stores_appends [OF duplicate.hyps(2)] duplicate show ?case by auto
qed simp

text \<open>The messages that a connection published since an earlier state of it.\<close>

definition new_messages :: "jetstream \<Rightarrow> jetstream \<Rightarrow> message list" where
  "new_messages old new = drop (length (js_sent old)) (js_sent new)"

lemma new_messages_prefix: "prefix (js_sent old) (js_sent new) \<Longrightarrow> js_sent new = js_sent old @ new_messages old new"
  by (auto simp: new_messages_def prefix_def)

text \<open>
  The dead letters of the messages that were stored after the first \<open>n\<close>, under their sequences.
\<close>

fun numbered :: "nat \<Rightarrow> message list \<Rightarrow> (nat \<times> string \<times> dead_payload) list" where
  "numbered n [] = []"
| "numbered n ((subject, i, DeadPayload b) # ms) = (Suc n, subject, b) # numbered (Suc n) ms"
| "numbered n ((subject, i, GamePayload b) # ms) = numbered (Suc n) ms"

lemma numbered_keys: "fst ` set (numbered n ms) \<subseteq> {n <.. n + length ms}"
  by (induction n ms rule: numbered.induct) fastforce+

lemma numbered_lookup:
  "map_of (numbered n ms) sq = Some (subject, b) \<Longrightarrow>
     \<exists>k i. sq = Suc (n + k) \<and> k < length ms \<and> ms ! k = (subject, i, DeadPayload b)"
proof (induction n ms rule: numbered.induct)
  case (2 n sub i b' ms)
  show ?case
  proof (cases "sq = Suc n")
    case True
    with "2.prems" show ?thesis by (intro exI [of _ 0]) simp
  next
    case False
    with 2 obtain k j where "sq = Suc (Suc n + k)" "k < length ms" "ms ! k = (subject, j, DeadPayload b)" by auto
    then show ?thesis by (intro exI [of _ "Suc k"]) simp
  qed
next
  case (3 n sub i b' ms)
  then obtain k j where "sq = Suc (Suc n + k)" "k < length ms" "ms ! k = (subject, j, DeadPayload b)" by auto
  then show ?case by (intro exI [of _ "Suc k"]) simp
qed simp

lemma numbered_finds:
  "k < length ms \<Longrightarrow> ms ! k = (subject, i, DeadPayload b) \<Longrightarrow> map_of (numbered n ms) (Suc (n + k)) = Some (subject, b)"
proof (induction n ms arbitrary: k rule: numbered.induct)
  case (2 n sub j b' ms)
  then show ?case by (cases k) auto
next
  case (3 n sub j b' ms)
  then show ?case by (cases k) auto
qed simp

section \<open>The steps\<close>

text \<open>
  Beside the states of the parts: the two streams with everything they stored, the positions of
  the settled messages, the events that were formed (identifier, subject, payload) and the keys
  that were ever recorded in the inbox.
\<close>

record delivery =
  dv_pipe :: pipeline
  dv_stream :: "message list"
  dv_settled :: "nat set"
  dv_consumer :: callback_state
  dv_dead :: "message list"
  dv_replay :: "dlq_stream replay_state"
  dv_formed :: "(string \<times> string \<times> game_payload) set"
  dv_recorded :: "(string \<times> string) set"

text \<open>The events that the lifecycle service and its outbox hold.\<close>

definition held :: "outbox_db game_lifecycle_service \<Rightarrow> (string \<times> string \<times> game_payload) set" where
  "held st = set (row_contents (outbox st)) \<union> content ` set_option (pending st)"

definition settles :: "ack_action \<Rightarrow> bool" where
  "settles a \<longleftrightarrow> (case a of NakWithDelay t \<Rightarrow> False | _ \<Rightarrow> True)"

text \<open>The metadata of a delivery of the message at a position, when it can be read.\<close>

definition delivery_of :: "nat \<Rightarrow> go_error + msg_metadata \<Rightarrow> bool" where
  "delivery_of k md \<longleftrightarrow> (\<forall>x. md = Inr x \<longrightarrow> MdStream x = StreamGameEvents \<and> MdStreamSequence x = Suc k \<and>
     MdConsumer x = ConsumerGameEvents)"

definition add_letters :: "nat \<Rightarrow> message list \<Rightarrow> dlq_stream replay_state \<Rightarrow> dlq_stream replay_state" where
  "add_letters n ms st = st\<lparr>rp_store := (rp_store st)\<lparr>dlq_msgs := dlq_msgs (rp_store st) @ numbered n ms\<rparr>\<rparr>"

definition after_delivery :: "nat \<Rightarrow> inbox_db \<Rightarrow> callback_state \<Rightarrow> message list \<Rightarrow> delivery \<Rightarrow> delivery" where
  "after_delivery k inbox cb dead s =
     s\<lparr>dv_pipe := (dv_pipe s)\<lparr>pl_inbox := inbox\<rparr>, dv_consumer := cb, dv_dead := dead,
       dv_settled := (if \<exists>a \<in> set (drop (length (cb_actions (dv_consumer s))) (cb_actions cb)). settles a
                      then insert k (dv_settled s) else dv_settled s),
       dv_replay := add_letters (length (dv_dead s)) (drop (length (dv_dead s)) dead) (dv_replay s),
       dv_recorded := dv_recorded s \<union> seen_keys inbox\<rparr>"

text \<open>
  The steps after an event was formed. A settled message may still be delivered again.
\<close>

inductive delivery_step :: "pg_driver \<Rightarrow> delivery \<Rightarrow> delivery \<Rightarrow> bool" for d where
  relay: "(\<forall>xs. mset (ret xs) = mset xs) \<Longrightarrow> RelayOnce locked ret now (pl_relay (dv_pipe s)) = (st, result, err) \<Longrightarrow>
    stores (dv_stream s) (new_messages (pl_js (dv_pipe s)) (relay_js st)) stream \<Longrightarrow>
    delivery_step d s (s\<lparr>dv_pipe := pl_relayed st (dv_pipe s), dv_stream := stream\<rparr>)"
| clean_outbox: "OutboxCleanup now (outbox (pl_games (dv_pipe s))) = (db, res') \<Longrightarrow>
    delivery_step d s (s\<lparr>dv_pipe := (dv_pipe s)\<lparr>pl_games := (pl_games (dv_pipe s))\<lparr>outbox := db\<rparr>\<rparr>\<rparr>)"
| deliver: "k < length (dv_stream s) \<Longrightarrow> dv_stream s ! k = (subject, i, GamePayload bytes) \<Longrightarrow> delivery_of k md \<Longrightarrow>
    consume_callback (Handle (pg_game_events d t)) rnd now \<lparr>MsgSubject = subject, MsgData = bytes, MsgMetadata = md\<rparr>
      (pl_inbox (dv_pipe s), dv_consumer s) = (inbox, cb) \<Longrightarrow>
    stores (dv_dead s) (new_messages (cb_js (dv_consumer s)) (cb_js cb)) dead \<Longrightarrow>
    delivery_step d s (after_delivery k inbox cb dead s)"
| clean_inbox: "ProcessedCleanup now (pl_inbox (dv_pipe s)) = (inbox, deleted) \<Longrightarrow>
    delivery_step d s (s\<lparr>dv_pipe := (dv_pipe s)\<lparr>pl_inbox := inbox\<rparr>\<rparr>)"
| replay: "dlq_replay_main sq latest execute connect (dv_replay s) = (rp, out) \<Longrightarrow>
    stores (dv_stream s) (new_messages (rp_js (dv_replay s)) (rp_js rp)) stream \<Longrightarrow>
    delivery_step d s (s\<lparr>dv_stream := stream, dv_replay := rp\<rparr>)"

text \<open>
  The reachable states. The identifier of an event is random; it is taken to differ from those of
  the events before it.
\<close>

definition fresh_id :: "go_error + 8 word list \<Rightarrow> delivery \<Rightarrow> bool" where
  "fresh_id rnd s \<longleftrightarrow> (\<forall>i. newEventID rnd = Inr i \<longrightarrow> i \<notin> fst ` dv_formed s)"

definition set_games :: "outbox_db game_lifecycle_service \<Rightarrow> delivery \<Rightarrow> delivery" where
  "set_games games s = s\<lparr>dv_pipe := (dv_pipe s)\<lparr>pl_games := games\<rparr>, dv_formed := dv_formed s \<union> held games\<rparr>"

inductive delivery_reach :: "pg_driver \<Rightarrow> (int \<times> string) set \<Rightarrow> delivery \<Rightarrow> bool" for d where
  start: "outbox_rows db = [] \<Longrightarrow> js_sent js = [] \<Longrightarrow> game_sessions inbox = [] \<Longrightarrow> js_sent (cb_js cb) = [] \<Longrightarrow>
    js_sent (rp_js rp) = [] \<Longrightarrow> dlq_msgs (rp_store rp) = [] \<Longrightarrow>
    delivery_reach d {} \<lparr>dv_pipe = \<lparr>pl_games = NewGameLifecycleService db, pl_js = js, pl_labels = [], pl_inbox = inbox\<rparr>,
      dv_stream = [], dv_settled = {}, dv_consumer = cb, dv_dead = [], dv_replay = rp, dv_formed = {},
      dv_recorded = seen_keys inbox\<rparr>"
| observe: "delivery_reach d seen s \<Longrightarrow> zero_time < now \<Longrightarrow> fresh_id rnd s \<Longrightarrow>
    Observe Enqueue rnd now t1 t2 phase g r (pl_games (dv_pipe s)) = (games, res) \<Longrightarrow>
    seen' = (if phase = ''ChampSelect'' then insert (g, r) seen else seen) \<Longrightarrow>
    delivery_reach d seen' (set_games games s)"
| step: "delivery_reach d seen s \<Longrightarrow> delivery_step d s s' \<Longrightarrow> delivery_reach d seen s'"

section \<open>What the parts publish\<close>

lemma PublishDurable_prefix: "PublishDurable subj i p j = (j', res) \<Longrightarrow> prefix (js_sent j) (js_sent j')"
  using PublishDurable_sent by fastforce

lemma relay_event_js:
  "relay_js (fst (relay_event now ev (st, result, errs))) =
     fst (PublishDurable (ObSubject ev) (ObID ev) (GamePayload (ObPayload ev)) (relay_js st))"
  by (auto simp: relay_event_def Let_def split: prod.splits sum.splits)

lemma relay_events_prefix:
  "fold (relay_event now) evs (st, result, errs) = (st', out) \<Longrightarrow> prefix (js_sent (relay_js st)) (js_sent (relay_js st'))"
proof (induction evs arbitrary: st result errs)
  case (Cons ev evs)
  obtain st1 r1 e1 where e: "relay_event now ev (st, result, errs) = (st1, r1, e1)" by (metis prod_cases3)
  have "prefix (js_sent (relay_js st)) (js_sent (relay_js st1))"
    using relay_event_js [of now ev st result errs] e
    by (cases "PublishDurable (ObSubject ev) (ObID ev) (GamePayload (ObPayload ev)) (relay_js st)")
       (simp add: PublishDurable_prefix)
  with Cons.IH [of st1 r1 e1] Cons.prems e show ?case by (auto intro: prefix_order.trans)
qed simp

lemma RelayOnce_prefix:
  assumes "RelayOnce locked ret now st = (st', result, err)"
  shows "prefix (js_sent (relay_js st)) (js_sent (relay_js st'))"
proof -
  have "prefix (js_sent (relay_js st)) (js_sent (relay_js st1))"
    if "fold (relay_event now) evs (st\<lparr>relay_db := db\<rparr>, r0, []) = (st1, q)" for evs db r0 st1 q
    using relay_events_prefix [of now evs "st\<lparr>relay_db := db\<rparr>" r0 "[]" st1 q] that by simp
  with assms show ?thesis by (auto simp: RelayOnce_def Let_def split: if_splits sum.splits prod.splits)
qed

text \<open>A dead letter about the delivery of a message, as the callback forms it.\<close>

definition letter_of :: "js_msg \<Rightarrow> msg_metadata \<Rightarrow> game_dead_letter \<Rightarrow> bool" where
  "letter_of msg md e \<longleftrightarrow> validateGameDeadLetterEvent e = None \<and>
     OriginalSubject e = MsgSubject msg \<and> OriginalPayload e = MsgData msg \<and>
     SourceStream e = MdStream md \<and> StreamSequence e = MdStreamSequence md \<and> Consumer e = MdConsumer md"

definition letter_message :: "game_dead_letter \<Rightarrow> message" where
  "letter_message e = (SubjectGameDeadLetter, deadLetterMessageID e, DeadPayload (marshal_dead_letter e))"

lemma PublishGameDeadLetter_message:
  "PublishGameDeadLetter e j = (j', res) \<Longrightarrow> js_sent j' = js_sent j \<or>
     validateGameDeadLetterEvent e = None \<and> js_sent j' = js_sent j @ [letter_message e]"
  by (auto simp: PublishGameDeadLetter_def letter_message_def split: option.splits dest: PublishDurable_sent)

lemma failure_publishes:
  "js_sent (cb_js (handleGameEventFailure rnd now msg err st)) = js_sent (cb_js st) \<or>
   (\<exists>md e. MsgMetadata msg = Inr md \<and> letter_of msg md e \<and>
      js_sent (cb_js (handleGameEventFailure rnd now msg err st)) = js_sent (cb_js st) @ [letter_message e])"
    (is "?P (handleGameEventFailure rnd now msg err st)")
proof -
  have nak: "js_sent (cb_js (nakGameEvent msg st1)) = js_sent (cb_js st1)" for st1 using nak_adds [of st1 msg] by auto
  show ?thesis
  proof (cases "\<exists>md m. MsgMetadata msg = Inr md \<and> gameEventMaxDeliver \<le> NumDelivered md \<and> NewEventMetadata rnd now = Inr m")
    case False
    then have "handleGameEventFailure rnd now msg err st = nakGameEvent msg st"
      by (auto simp: handleGameEventFailure_def not_less split: sum.splits)
    with nak show ?thesis by simp
  next
    case True
    then obtain md m where md: "MsgMetadata msg = Inr md" "gameEventMaxDeliver \<le> NumDelivered md"
      "NewEventMetadata rnd now = Inr m" by blast
    define e where "e = \<lparr>EventID = EventID m, OccurredAt = OccurredAt m, Version = Version m,
                        OriginalSubject = MsgSubject msg, OriginalPayload = MsgData msg,
                        DLError = error_text err, DeliveryCount = NumDelivered md,
                        SourceStream = MdStream md, StreamSequence = MdStreamSequence md,
                        Consumer = MdConsumer md\<rparr>"
    obtain j q where p: "PublishGameDeadLetter e (cb_js st) = (j, q)" by (meson surj_pair)
    obtain st1 r where s: "send_ack (TermWithReason deadLetterTermReason) (st\<lparr>cb_js := j\<rparr>) = (st1, r)" by (meson surj_pair)
    have "js_sent (cb_js (handleGameEventFailure rnd now msg err st)) = js_sent j"
      using md p s nak [of "st\<lparr>cb_js := j\<rparr>"] nak [of st1] send_ack_actions [OF s]
      by (auto simp: handleGameEventFailure_def e_def [symmetric] Let_def split: sum.splits)
    moreover have "letter_of msg md e" if "validateGameDeadLetterEvent e = None"
      using that by (simp add: letter_of_def e_def)
    ultimately show ?thesis using PublishGameDeadLetter_message [OF p] md(1) by auto
  qed
qed

lemma callback_publishes:
  assumes "consume_callback handler rnd now msg (s, st) = (s', st')"
  shows "js_sent (cb_js st') = js_sent (cb_js st) \<or>
    (\<exists>md e. MsgMetadata msg = Inr md \<and> letter_of msg md e \<and>
       js_sent (cb_js st') = js_sent (cb_js st) @ [letter_message e])"
proof -
  obtain s1 q where h: "handler (MsgSubject msg) (MsgData msg) s = (s1, q)" by (meson surj_pair)
  show ?thesis
  proof (cases q)
    case (Inl err)
    with assms h have "st' = handleGameEventFailure rnd now msg err st" by (simp add: consume_callback_def)
    with failure_publishes show ?thesis by simp
  next
    case (Inr u)
    obtain st1 r where k: "send_ack DoubleAck st = (st1, r)" by (meson surj_pair)
    from assms h Inr k have "cb_js st' = cb_js st1" by (cases r) (auto simp: consume_callback_def)
    with send_ack_actions [OF k] show ?thesis by simp
  qed
qed

text \<open>The replay command: nothing, or one replay.\<close>

lemma command_step:
  assumes "dlq_replay_main sq latest execute connect st = (st', out)"
  shows "dlq_letters (rp_store st') = dlq_letters (rp_store st) \<and> js_sent (rp_js st') = js_sent (rp_js st) \<or>
    (\<exists>n e. dlq_letters (rp_store st) n = Some e \<and>
       js_sent (rp_js st') = js_sent (rp_js st) @ [dlq.republished n e] \<and>
       (dlq_letters (rp_store st') = dlq_letters (rp_store st) \<or>
        dlq_letters (rp_store st') = (dlq_letters (rp_store st))(n := None)))"
proof -
  have get: "dlq_letters q' = dlq_letters q" if "GetGameDeadLetter n q = (q', r)" for n q q' r
    using GetGameDeadLetter_letters(1) [OF that] .
  show ?thesis
  proof (cases "latest \<or> \<not> execute \<or> sq = 0")
    case True
    then show ?thesis using command_is_a_dry_run_by_default [OF assms] by auto
  next
    case False
    obtain q r where g: "GetGameDeadLetter sq (rp_store st) = (q, r)" by (meson surj_pair)
    obtain st2 result err where p: "Replay dlq_store sq (st\<lparr>rp_store := q\<rparr>) = (st2, result, err)" by (metis prod_cases3)
    have "st' = st \<or> st' = st\<lparr>rp_store := q\<rparr> \<or> st' = st2"
      using assms False g p by (auto simp: dlq_replay_main_def Let_def split: option.splits sum.splits)
    with dlq.Replay_step [OF p] get [OF g] show ?thesis by auto
  qed
qed

text \<open>The sequences under which the dead-letter stream holds a message; the store adds none.\<close>

definition dead_keys :: "dlq_stream \<Rightarrow> nat set" where
  "dead_keys q = fst ` set (dlq_msgs q)"

lemma dead_keys_faults [simp]: "dead_keys (q\<lparr>dlq_faults := fs\<rparr>) = dead_keys q"
  by (simp add: dead_keys_def)

lemma dead_keys_delete: "dead_keys (q\<lparr>dlq_faults := fs, dlq_msgs := AList.delete sq (dlq_msgs q)\<rparr>) \<subseteq> dead_keys q"
  by (auto simp: dead_keys_def AList.delete_eq)

lemma GetGameDeadLetter_keys: "GetGameDeadLetter sq q = (q', res) \<Longrightarrow> dead_keys q' \<subseteq> dead_keys q"
proof -
  assume a: "GetGameDeadLetter sq q = (q', res)"
  obtain q1 r1 where g: "get_stream q = (q1, r1)" by (meson surj_pair)
  from get_stream_msgs [OF g] obtain fs where q1: "q1 = q\<lparr>dlq_faults := fs\<rparr>" by blast
  show ?thesis
    using a g q1
    by (auto simp: GetGameDeadLetter_def dlq_call_def Let_def split: if_splits sum.splits fault.splits option.splits prod.splits)
qed

lemma DeleteGameDeadLetter_keys: "DeleteGameDeadLetter sq q = (q', res) \<Longrightarrow> dead_keys q' \<subseteq> dead_keys q"
proof -
  assume a: "DeleteGameDeadLetter sq q = (q', res)"
  obtain q1 r1 where g: "get_stream q = (q1, r1)" by (meson surj_pair)
  from get_stream_msgs [OF g] obtain fs where q1: "q1 = q\<lparr>dlq_faults := fs\<rparr>" by blast
  show ?thesis
    using a g q1
    by (auto simp: DeleteGameDeadLetter_def dlq_call_def Let_def dest!: subsetD [OF dead_keys_delete]
        split: if_splits sum.splits fault.splits option.splits prod.splits)
qed

lemma GetLastGameDeadLetter_keys: "GetLastGameDeadLetter q = (q', res) \<Longrightarrow> dead_keys q' \<subseteq> dead_keys q"
proof -
  assume a: "GetLastGameDeadLetter q = (q', res)"
  obtain q1 r1 where g: "get_stream q = (q1, r1)" by (meson surj_pair)
  from get_stream_msgs [OF g] obtain fs where q1: "q1 = q\<lparr>dlq_faults := fs\<rparr>" by blast
  show ?thesis
    using a g q1
    by (auto simp: GetLastGameDeadLetter_def dlq_call_def Let_def split: if_splits sum.splits fault.splits option.splits prod.splits)
qed

lemma Replay_keys:
  assumes "Replay dlq_store sq st = (st', result, err)"
  shows "dead_keys (rp_store st') \<subseteq> dead_keys (rp_store st)"
proof -
  obtain q r where g: "GetGameDeadLetter sq (rp_store st) = (q, r)" by (meson surj_pair)
  obtain q2 r2 where d: "DeleteGameDeadLetter sq q = (q2, r2)" by (meson surj_pair)
  have "rp_store st' = rp_store st \<or> rp_store st' = q \<or> rp_store st' = q2"
    using assms g d
    by (auto simp: Replay_def dlq_store_def Let_def split: if_splits sum.splits option.splits prod.splits)
  with GetGameDeadLetter_keys [OF g] DeleteGameDeadLetter_keys [OF d] show ?thesis by auto
qed

lemma command_keys:
  assumes "dlq_replay_main sq latest execute connect st = (st', out)"
  shows "dead_keys (rp_store st') \<subseteq> dead_keys (rp_store st)"
proof -
  obtain q r where g: "GetGameDeadLetter sq (rp_store st) = (q, r)" by (meson surj_pair)
  obtain q2 r2 where l: "GetLastGameDeadLetter (rp_store st) = (q2, r2)" by (meson surj_pair)
  obtain st2 result err where p: "Replay dlq_store sq (st\<lparr>rp_store := q\<rparr>) = (st2, result, err)" by (metis prod_cases3)
  have "st' = st \<or> st' = st\<lparr>rp_store := q\<rparr> \<or> st' = st\<lparr>rp_store := q2\<rparr> \<or> st' = st2"
    using assms g l p by (auto simp: dlq_replay_main_def Let_def split: if_splits option.splits sum.splits)
  with GetGameDeadLetter_keys [OF g] GetLastGameDeadLetter_keys [OF l] Replay_keys [OF p] show ?thesis by auto
qed

text \<open>Every new message of the dead-letter stream gets a sequence of its own.\<close>

lemma dead_keys_add:
  "dead_keys (rp_store (add_letters n ms st)) \<subseteq> dead_keys (rp_store st) \<union> {n <.. n + length ms}"
  using numbered_keys [of n ms] by (auto simp: add_letters_def dead_keys_def image_Un)

lemma letters_add_old:
  "dlq_letters (rp_store st) sq = Some e \<Longrightarrow> dlq_letters (rp_store (add_letters n ms st)) sq = Some e"
  by (auto simp: dlq_letters_def add_letters_def map_of_append map_add_def split: if_splits option.splits)

lemma letters_add_new:
  assumes "dead_keys (rp_store st) \<subseteq> {..n}" "k < length ms" "ms ! k = letter_message e"
    and "validateGameDeadLetterEvent e = None"
  shows "dlq_letters (rp_store (add_letters n ms st)) (Suc (n + k)) = Some e"
proof -
  have "map_of (dlq_msgs (rp_store st)) (Suc (n + k)) = None"
    using assms(1) by (auto simp: dead_keys_def map_of_eq_None_iff)
  with numbered_finds [OF assms(2) assms(3) [unfolded letter_message_def], of n] assms(4) show ?thesis
    by (simp add: dlq_letters_def add_letters_def map_of_append map_add_def decodeGameDeadLetter_def)
qed

lemma letters_add_cases:
  assumes "dlq_letters (rp_store (add_letters n ms st)) sq = Some e"
  shows "dlq_letters (rp_store st) sq = Some e \<or>
    (\<exists>k i b. sq = Suc (n + k) \<and> k < length ms \<and> ms ! k = (SubjectGameDeadLetter, i, DeadPayload b) \<and>
       unmarshal_dead_letter b = Inr e)"
proof (cases "map_of (dlq_msgs (rp_store st)) sq")
  case None
  with assms obtain subject b where "map_of (numbered n ms) sq = Some (subject, b)"
    "decodeGameDeadLetter sq subject b = Inr e"
    by (auto simp: dlq_letters_def add_letters_def map_of_append map_add_def split: if_splits option.splits sum.splits)
  with numbered_lookup [of n ms sq subject b] show ?thesis
    by (auto simp: decodeGameDeadLetter_def split: if_splits sum.splits option.splits)
next
  case (Some x)
  with assms show ?thesis by (auto simp: dlq_letters_def add_letters_def map_of_append map_add_def split: if_splits)
qed

end
