(* ===== verification/NoLoss.thy ===== *)
theory NoLoss
  imports Delivery
begin

text \<open>
  No game event is lost: the invariants of the delivery of game events (\<open>Delivery\<close>). One says that
  what was formed waits in the server or was published, the other that what a stream stored is
  still there, was recorded by the consumer, or is a dead letter that can be replayed or was.
\<close>

section \<open>Nothing is lost between the service and the stream\<close>

fun message_of :: "string \<times> string \<times> game_payload \<Rightarrow> message" where
  "message_of (i, subject, bytes) = (subject, i, GamePayload bytes)"

definition row_content :: "outbox_row \<Rightarrow> string \<times> string \<times> game_payload" where
  "row_content x = (row_id x, row_subject x, row_payload x)"

lemma row_contents_eq: "row_contents db = map row_content (outbox_rows db)"
  by (simp add: row_contents_def row_content_def)

lemma message_of_row [simp]: "message_of (row_content x) = row_message x"
  by (simp add: row_content_def row_message_def)

text \<open>An event that has not left the server yet.\<close>

definition waiting :: "outbox_db game_lifecycle_service \<Rightarrow> string \<times> string \<times> game_payload \<Rightarrow> bool" where
  "waiting st c \<longleftrightarrow> (\<exists>e. pending st = Some e \<and> content e = c) \<or>
     (\<exists>x \<in> set (outbox_rows (outbox st)). row_published_at x = None \<and> row_content x = c)"

definition sent_inv :: "(string \<times> string \<times> game_payload) set \<Rightarrow> outbox_db game_lifecycle_service \<Rightarrow> jetstream \<Rightarrow> bool" where
  "sent_inv F st js \<longleftrightarrow> outbox_inv (outbox st) \<and> held st \<subseteq> F \<and>
     (\<forall>c \<in> F. \<forall>c' \<in> F. fst c = fst c' \<longrightarrow> c = c') \<and> (\<forall>c \<in> F. CHR '':'' \<notin> set (fst c)) \<and>
     (\<forall>x \<in> set (outbox_rows (outbox st)). row_published_at x \<noteq> None \<longrightarrow> row_message x \<in> set (js_sent js)) \<and>
     (\<forall>c \<in> F. waiting st c \<or> message_of c \<in> set (js_sent js)) \<and>
     set (js_sent js) \<subseteq> message_of ` F"

lemma sent_invD:
  assumes "sent_inv F st js"
  shows "outbox_inv (outbox st)" "held st \<subseteq> F" "c \<in> F \<Longrightarrow> c' \<in> F \<Longrightarrow> fst c = fst c' \<Longrightarrow> c = c'"
    "c \<in> F \<Longrightarrow> CHR '':'' \<notin> set (fst c)"
    "x \<in> set (outbox_rows (outbox st)) \<Longrightarrow> row_published_at x \<noteq> None \<Longrightarrow> row_message x \<in> set (js_sent js)"
    "c \<in> F \<Longrightarrow> waiting st c \<or> message_of c \<in> set (js_sent js)" "set (js_sent js) \<subseteq> message_of ` F"
  using assms unfolding sent_inv_def by blast+

text \<open>A held event waits, unless its row is published and so its message was sent.\<close>

lemma held_waiting:
  assumes "c \<in> held st"
    and "\<And>x. x \<in> set (outbox_rows (outbox st)) \<Longrightarrow> row_published_at x \<noteq> None \<Longrightarrow> row_message x \<in> M"
  shows "waiting st c \<or> message_of c \<in> M"
  using assms by (fastforce simp: held_def waiting_def row_contents_eq)

lemma waiting_held: "waiting st c \<Longrightarrow> c \<in> held st"
  by (auto simp: held_def waiting_def row_contents_eq)

text \<open>Event identifiers contain no colon, the identifiers of replays do.\<close>

lemma hex_digit_colon:
  assumes "n < 16"
  shows "hex_digit n \<noteq> CHR '':''"
proof -
  have "of_char (hex_digit n) \<noteq> (58 :: nat)" using assms by (auto simp: hex_digit_def)
  moreover have "of_char (CHR '':'') = (58 :: nat)" by simp
  ultimately show ?thesis by metis
qed

lemma hex_byte_colon: "CHR '':'' \<notin> set (hex_byte b)"
proof -
  have "unat (b AND 0x0F) \<le> unat (0x0F :: 8 word)" using word_and_le1 [of b "0x0F"] by (simp add: word_le_nat_alt)
  moreover have "unat (b AND 0xF0) < 16 * 16" using unsigned_less [of "b AND 0xF0"] by simp
  then have "unat (b AND 0xF0) div 16 < 16" by (rule less_mult_imp_div_less)
  ultimately show ?thesis using hex_digit_colon [of "unat (b AND 0xF0) div 16"] hex_digit_colon [of "unat (b AND 0x0F)"]
    by (auto simp: hex_byte_def)
qed

lemma newEventID_colon: "newEventID rnd = Inr i \<Longrightarrow> CHR '':'' \<notin> set i"
  using hex_byte_colon by (auto simp: newEventID_def uuid_text_def hex_bytes_def split: sum.splits)

lemma replay_id_colon: "CHR '':'' \<in> set (deadLetterReplayMessageID e n)"
  by (simp add: deadLetterReplayMessageID_def)

subsection \<open>An observation\<close>

lemma Enqueue_rows_kept:
  assumes "Enqueue e t db = (db', res)"
  shows "set (outbox_rows db) \<subseteq> set (outbox_rows db')"
    and "x \<in> set (outbox_rows db') \<Longrightarrow> row_published_at x \<noteq> None \<Longrightarrow> x \<in> set (outbox_rows db)"
  using Enqueue_rows(1) [OF assms] insert_row_cases [of e t "outbox_rows db"] by auto

lemma Observe_rows_kept:
  assumes "Observe Enqueue rnd now t1 t2 phase g r st = (st', res)"
  shows "set (outbox_rows (outbox st)) \<subseteq> set (outbox_rows (outbox st'))"
    and "x \<in> set (outbox_rows (outbox st')) \<Longrightarrow> row_published_at x \<noteq> None \<Longrightarrow> x \<in> set (outbox_rows (outbox st))"
proof -
  let ?I = "\<lambda>db. set (outbox_rows (outbox st)) \<subseteq> set (outbox_rows db) \<and>
    (\<forall>x \<in> set (outbox_rows db). row_published_at x \<noteq> None \<longrightarrow> x \<in> set (outbox_rows (outbox st)))"
  have "?I db'" if "Enqueue e t db = (db', q)" "?I db" for e t db db' q
    using Enqueue_rows_kept [OF that(1)] that(2) by blast
  from Observe_outbox [of _ _ _ _ _ _ _ _ _ _ _ ?I, OF assms _ this]
  show "set (outbox_rows (outbox st)) \<subseteq> set (outbox_rows (outbox st'))"
    "x \<in> set (outbox_rows (outbox st')) \<Longrightarrow> row_published_at x \<noteq> None \<Longrightarrow> x \<in> set (outbox_rows (outbox st))" by auto
qed

lemma observe_sent:
  assumes inv: "sent_inv F st js" and fresh: "\<forall>i. newEventID rnd = Inr i \<longrightarrow> i \<notin> fst ` F"
    and o: "Observe Enqueue rnd now t1 t2 phase g r st = (st', res)"
  shows "sent_inv (F \<union> held st') st' js"
proof -
  note iv = sent_invD [OF inv]
  define new where "new c \<longleftrightarrow> (\<exists>t tr m ev. tracker_Observe phase g r (tracker st) = (t, Some tr) \<and>
     NewEventMetadata rnd now = Inr m \<and> newGameOutboxEvent tr m = Inr ev \<and> c = content ev)" for c
  have new: "newEventID rnd = Inr (fst c)" "new c' \<Longrightarrow> c = c'" if "new c" for c c'
    using that by (auto simp: new_def content_def NewEventMetadata_def newGameOutboxEvent_def Let_def split: sum.splits if_splits)
  have new_id: "fst c \<notin> fst ` F" "CHR '':'' \<notin> set (fst c)" if "new c" for c
    using new(1) [OF that] fresh newEventID_colon by blast+
  have "pg_outbox.every_event (\<lambda>c. c \<in> F) st"
    using iv(2) by (auto simp: pg_outbox.every_event_def held_def)
  then have "pg_outbox.every_event (\<lambda>c. c \<in> F \<or> new c) st" by (simp add: pg_outbox.every_event_def)
  then have "pg_outbox.every_event (\<lambda>c. c \<in> F \<or> new c) st'"
    using pg_outbox.every_event_Observe [OF o, of "\<lambda>c. c \<in> F \<or> new c"] unfolding new_def by blast
  then have held: "c \<in> F \<or> new c" if "c \<in> held st'" for c
    using that by (auto simp: pg_outbox.every_event_def held_def)
  have una: "pg_outbox.unambiguous st"
    unfolding pg_outbox.unambiguous_def
  proof (intro allI impI ballI)
    fix e c assume "pending st = Some e" "c \<in> set (row_contents (outbox st))" "fst c = ObID e"
    then show "c = content e" using iv(2) by (intro iv(3)) (auto simp: held_def content_def)
  qed
  have "pg_outbox.fresh rnd st"
    unfolding pg_outbox.fresh_def
  proof (intro allI impI conjI)
    fix i assume "newEventID rnd = Inr i"
    with fresh have i: "i \<notin> fst ` F" by blast
    have "fst ` set (row_contents (outbox st)) \<subseteq> fst ` F" using iv(2) by (auto simp: held_def)
    with i show "i \<notin> fst ` set (row_contents (outbox st))" by blast
    fix e assume "pending st = Some e"
    then have "content e \<in> F" using iv(2) by (auto simp: held_def)
    then have "fst (content e) \<in> fst ` F" by (rule imageI)
    with i show "ObID e \<noteq> i" by (auto simp: content_def)
  qed
  note step = pg_outbox.Observe_step [OF o una this]
  have pub: "row_message x \<in> set (js_sent js)" if "x \<in> set (outbox_rows (outbox st'))" "row_published_at x \<noteq> None" for x
    using Observe_rows_kept(2) [OF o that] iv(5) that(2) by blast
  have kept: "c \<in> held st'" if "waiting st c" for c
    using that Observe_rows_kept(1) [OF o] step(2)
    by (fastforce simp: waiting_def held_def row_contents_eq pg_outbox.secured_def)
  have "waiting st' c \<or> message_of c \<in> set (js_sent js)" if "c \<in> F \<union> held st'" for c
  proof (cases "c \<in> held st'")
    case True
    then show ?thesis by (rule held_waiting) (rule pub)
  next
    case False
    with that iv(6) [of c] kept show ?thesis by blast
  qed
  moreover have "c = c'" if c: "c \<in> F \<union> held st'" "c' \<in> F \<union> held st'" "fst c = fst c'" for c c'
  proof -
    consider "c \<in> F" "c' \<in> F" | "new c" "new c'" | "c \<in> F" "new c'" | "new c" "c' \<in> F" using c(1,2) held by blast
    then show ?thesis
    proof cases
      case 3
      with new_id(1) [of c'] c(3) show ?thesis by (metis imageI)
    next
      case 4
      with new_id(1) [of c] c(3) show ?thesis by (metis imageI)
    qed (use iv(3) new(2) c(3) in blast)+
  qed
  moreover have "CHR '':'' \<notin> set (fst c)" if "c \<in> F \<union> held st'" for c
    using that held iv(4) new_id(2) by blast
  moreover have "outbox_inv (outbox st')"
    using Observe_outbox [of _ _ _ _ _ _ _ _ _ _ _ outbox_inv, OF o iv(1)] outbox_inv_Enqueue by blast
  ultimately show ?thesis using pub iv(7) unfolding sent_inv_def by (intro conjI ballI impI) blast+
qed

subsection \<open>A relay cycle and a cleanup\<close>

lemma relay_sent:
  assumes inv: "sent_inv F (pl_games s) (pl_js s)" and perm: "\<forall>xs. mset (ret xs) = mset xs"
    and r: "RelayOnce locked ret now (pl_relay s) = (st, result, err)"
  shows "sent_inv F (pl_games (pl_relayed st s)) (pl_js (pl_relayed st s))"
proof -
  note iv = sent_invD [OF inv]
  let ?db = "outbox (pl_games s)"
  have p: "\<And>xs. mset (ret xs) = mset xs" using perm by blast
  have i: "outbox_inv (relay_db (pl_relay s))" using iv(1) by (simp add: pl_relay_def)
  have rel: "list_all2 (relay_rel now (js_sent (relay_js st))) (outbox_rows ?db) (outbox_rows (relay_db st))"
    using RelayOnce_step(1) [OF i p r] by (simp add: pl_relay_def)
  have g: "list_all2 row_grows (outbox_rows ?db) (outbox_rows (relay_db st))"
    using rel by (rule list_all2_mono) (simp add: relay_rel_def)
  have old: "set (js_sent (pl_js s)) \<subseteq> set (js_sent (relay_js st))"
    using set_mono_prefix [OF RelayOnce_prefix [OF r]] by (simp add: pl_relay_def)
  have new: "set (js_sent (relay_js st)) \<subseteq> row_message ` set (outbox_rows ?db) \<union> set (js_sent (pl_js s))"
    using RelayOnce_sent [OF p r] by (simp add: pl_relay_def)
  have same: "row_contents (relay_db st) = row_contents ?db" by (rule row_contents_grows [OF g])
  have rows: "row_message ` set (outbox_rows ?db) \<subseteq> message_of ` F"
    using iv(2) by (force simp: held_def row_contents_eq)
  have published: "row_message y \<in> set (js_sent (relay_js st))"
    if y: "y \<in> set (outbox_rows (relay_db st))" "row_published_at y \<noteq> None" for y
  proof -
    from rel y(1) obtain x where x: "x \<in> set (outbox_rows ?db)" "relay_rel now (js_sent (relay_js st)) x y"
      by (metis in_set_conv_nth list_all2_conv_all_nth)
    then have eq: "row_message y = row_message x" by (simp add: relay_rel_def row_grows_def row_message_def)
    show ?thesis
    proof (cases "row_published_at x")
      case None
      with x(2) y(2) eq show ?thesis by (auto simp: relay_rel_def row_message_def)
    next
      case (Some t)
      with iv(5) [OF x(1)] old eq show ?thesis by auto
    qed
  qed
  have held: "held ((pl_games s)\<lparr>outbox := relay_db st\<rparr>) = held (pl_games s)" by (simp add: held_def same)
  have "waiting ((pl_games s)\<lparr>outbox := relay_db st\<rparr>) c \<or> message_of c \<in> set (js_sent (relay_js st))" if "c \<in> F" for c
  proof (cases "c \<in> held (pl_games s)")
    case True
    then have "c \<in> held ((pl_games s)\<lparr>outbox := relay_db st\<rparr>)" by (simp add: held)
    then show ?thesis by (rule held_waiting) (use published in simp)
  next
    case False
    with iv(6) [OF that] waiting_held old show ?thesis by blast
  qed
  moreover have "outbox_inv (relay_db st)" using outbox_inv_grows [OF iv(1) g] .
  moreover have "set (js_sent (relay_js st)) \<subseteq> message_of ` F" using new rows iv(7) by blast
  ultimately show ?thesis
    using published iv(2-4) unfolding sent_inv_def pl_relayed_def by (simp add: held)
qed

lemma OutboxCleanup_unpublished:
  assumes "OutboxCleanup now db = (db', res)" "x \<in> set (outbox_rows db)" "row_published_at x = None"
  shows "x \<in> set (outbox_rows db')"
  using assms
  by (auto simp: OutboxCleanup_def DeletePublishedBefore_def published_before_def split: if_splits sum.splits prod.splits
      dest!: exec_stmt_cases(1))

lemma clean_sent:
  assumes inv: "sent_inv F st js" and c: "OutboxCleanup now (outbox st) = (db, res)"
  shows "sent_inv F (st\<lparr>outbox := db\<rparr>) js"
proof -
  note iv = sent_invD [OF inv]
  from OutboxCleanup_rows [OF c] obtain P where p: "outbox_rows db = filter P (outbox_rows (outbox st))" by blast
  have sub: "set (outbox_rows db) \<subseteq> set (outbox_rows (outbox st))" by (auto simp: p)
  then have "held (st\<lparr>outbox := db\<rparr>) \<subseteq> F" using iv(2) by (auto simp: held_def row_contents_eq)
  moreover have "waiting (st\<lparr>outbox := db\<rparr>) c" if "waiting st c" for c
    using that OutboxCleanup_unpublished [OF c] by (auto simp: waiting_def)
  moreover have "outbox_inv db" by (rule outbox_inv_filter [OF iv(1) p])
  ultimately show ?thesis using iv(3-7) sub unfolding sent_inv_def
    by (intro conjI ballI impI) (simp_all, blast+)
qed

section \<open>Nothing is lost between the streams\<close>

text \<open>A dead letter about the message at a position of the stream of game events.\<close>

definition sourced :: "message list \<Rightarrow> nat \<Rightarrow> game_dead_letter \<Rightarrow> bool" where
  "sourced stream k e \<longleftrightarrow> k < length stream \<and> validateGameDeadLetterEvent e = None \<and>
     (\<exists>i. stream ! k = (OriginalSubject e, i, GamePayload (OriginalPayload e))) \<and>
     SourceStream e = StreamGameEvents \<and> StreamSequence e = Suc k \<and> Consumer e = ConsumerGameEvents"

definition letter_at :: "message list \<Rightarrow> message list \<Rightarrow> nat \<Rightarrow> nat \<Rightarrow> game_dead_letter \<Rightarrow> bool" where
  "letter_at stream dead n k e \<longleftrightarrow> n < length dead \<and> dead ! n = letter_message e \<and> sourced stream k e"

text \<open>A message at a later position that a replay of the letter published.\<close>

definition replayed :: "message list \<Rightarrow> nat \<Rightarrow> nat \<Rightarrow> game_dead_letter \<Rightarrow> bool" where
  "replayed stream n k e \<longleftrightarrow> (\<exists>k'. k < k' \<and> k' < length stream \<and> stream ! k' = dlq.republished (Suc n) e)"

definition handled :: "pg_driver \<Rightarrow> (string \<times> string) set \<Rightarrow> message \<Rightarrow> bool" where
  "handled d recorded m \<longleftrightarrow> (\<exists>subject i bytes ev. m = (subject, i, GamePayload bytes) \<and>
     accepted subject bytes = Some ev \<and> event_key d ev \<in> recorded)"

text \<open>
  Where the messages of the stream of game events come from: the relay, or the replay of a dead
  letter about an earlier position.
\<close>

definition origins :: "message list \<Rightarrow> message list \<Rightarrow> message list \<Rightarrow> bool" where
  "origins sent stream dead \<longleftrightarrow> (\<forall>k < length stream. stream ! k \<in> set sent \<or>
     (\<exists>n k0 e. k0 < k \<and> letter_at stream dead n k0 e \<and> stream ! k = dlq.republished (Suc n) e))"

definition letters_ok :: "message list \<Rightarrow> message list \<Rightarrow> callback_state \<Rightarrow> dlq_stream \<Rightarrow> bool" where
  "letters_ok stream dead cb q \<longleftrightarrow> (\<forall>n < length dead. \<exists>k e. letter_at stream dead n k e) \<and>
     (\<forall>m \<in> set (js_sent (cb_js cb)). msg_id m \<in> msg_id ` set dead \<and> (\<exists>k e. sourced stream k e \<and> m = letter_message e)) \<and>
     dead_keys q \<subseteq> {..length dead} \<and>
     (\<forall>sq e. dlq_letters q sq = Some e \<longrightarrow> (\<exists>n k. sq = Suc n \<and> letter_at stream dead n k e)) \<and>
     (\<forall>n k e. letter_at stream dead n k e \<longrightarrow> dlq_letters q (Suc n) = Some e \<or> replayed stream n k e)"

definition log_inv :: "pg_driver \<Rightarrow> delivery \<Rightarrow> bool" where
  "log_inv d s \<longleftrightarrow> msg_id ` set (js_sent (pl_js (dv_pipe s))) \<subseteq> msg_id ` set (dv_stream s) \<and>
     origins (js_sent (pl_js (dv_pipe s))) (dv_stream s) (dv_dead s) \<and>
     letters_ok (dv_stream s) (dv_dead s) (dv_consumer s) (rp_store (dv_replay s)) \<and>
     (\<forall>k \<in> dv_settled s. k < length (dv_stream s) \<and> (handled d (dv_recorded s) (dv_stream s ! k) \<or>
        (\<exists>n e. letter_at (dv_stream s) (dv_dead s) n k e)))"

lemma sourced_append: "sourced stream k e \<Longrightarrow> sourced (stream @ new) k e"
  by (auto simp: sourced_def nth_append)

lemma letter_at_append: "letter_at stream dead n k e \<Longrightarrow> letter_at (stream @ new) (dead @ extra) n k e"
  by (simp add: letter_at_def sourced_append nth_append)

lemma replayed_append: "replayed stream n k e \<Longrightarrow> replayed (stream @ new) n k e"
  unfolding replayed_def by (metis length_append nth_append trans_less_add1)

lemma letter_message_inject [simp]: "letter_message e = letter_message e' \<longleftrightarrow> e = e'"
  unfolding letter_message_def by (metis dead_letter_roundtrip js_payload.inject(2) prod.inject sum.inject(2))

lemma letter_at_unique: "letter_at stream dead n k e \<Longrightarrow> letter_at stream' dead n k' e' \<Longrightarrow> e' = e \<and> k' = k"
  by (auto simp: letter_at_def sourced_def)

text \<open>A letter at an index keeps its source when the streams grow.\<close>

lemma letter_at_older:
  assumes "letter_at (stream @ new) dead n k e" "letter_at stream dead n k' e'"
  shows "letter_at stream dead n k e"
  using letter_at_unique [OF assms] assms(2) by simp

lemma origins_append:
  assumes "origins sent stream dead" "set sent \<subseteq> set sent'"
    and "\<And>m. m \<in> set new \<Longrightarrow> m \<in> set sent' \<or>
       (\<exists>n k e. letter_at stream dead n k e \<and> m = dlq.republished (Suc n) e)"
  shows "origins sent' (stream @ new) (dead @ extra)"
  unfolding origins_def
proof (intro allI impI)
  fix k assume k: "k < length (stream @ new)"
  show "(stream @ new) ! k \<in> set sent' \<or> (\<exists>n k0 e. k0 < k \<and> letter_at (stream @ new) (dead @ extra) n k0 e \<and>
      (stream @ new) ! k = dlq.republished (Suc n) e)"
  proof (cases "k < length stream")
    case True
    with assms(1) have "stream ! k \<in> set sent \<or>
       (\<exists>n k0 e. k0 < k \<and> letter_at stream dead n k0 e \<and> stream ! k = dlq.republished (Suc n) e)"
      by (simp add: origins_def)
    with True assms(2) letter_at_append show ?thesis by (auto simp: nth_append) blast
  next
    case False
    with k have "(stream @ new) ! k \<in> set new" by (simp add: nth_append)
    from assms(3) [OF this] show ?thesis
    proof (elim disjE exE conjE)
      fix n k0 e assume l: "letter_at stream dead n k0 e" "(stream @ new) ! k = dlq.republished (Suc n) e"
      have "k0 < k" using l(1) False by (simp add: letter_at_def sourced_def)
      with l letter_at_append show ?thesis by blast
    qed simp
  qed
qed

text \<open>A replay of a letter is in the stream as soon as its identifier is.\<close>

lemma replay_found:
  assumes "origins sent stream dead" "letter_at stream dead n k e"
    and "deadLetterReplayMessageID e (Suc n) \<in> msg_id ` set stream"
    and "\<And>m. m \<in> set sent \<Longrightarrow> CHR '':'' \<notin> set (msg_id m)"
  shows "replayed stream n k e"
proof -
  from assms(3) obtain k' where k': "k' < length stream" "msg_id (stream ! k') = deadLetterReplayMessageID e (Suc n)"
    by (metis imageE in_set_conv_nth)
  have "stream ! k' \<notin> set sent" using assms(4) [of "stream ! k'"] k'(2) replay_id_colon by metis
  with assms(1) k'(1) obtain n' k0 e' where o: "k0 < k'" "letter_at stream dead n' k0 e'"
    "stream ! k' = dlq.republished (Suc n') e'"
    unfolding origins_def by blast
  then have "deadLetterReplayMessageID e' (Suc n') = deadLetterReplayMessageID e (Suc n)"
    using k'(2) by (simp add: dlq.republished_def)
  then have "n' = n" by (simp add: deadLetterReplayMessageID_def append_sep_inject_right)
  with letter_at_unique [OF assms(2)] o k'(1) show ?thesis unfolding replayed_def by blast
qed

section \<open>The steps keep the logs\<close>

lemma letters_okD:
  assumes "letters_ok stream dead cb q"
  shows "n < length dead \<Longrightarrow> \<exists>k e. letter_at stream dead n k e"
    "m \<in> set (js_sent (cb_js cb)) \<Longrightarrow> msg_id m \<in> msg_id ` set dead"
    "m \<in> set (js_sent (cb_js cb)) \<Longrightarrow> \<exists>k e. sourced stream k e \<and> m = letter_message e"
    "dead_keys q \<subseteq> {..length dead}"
    "dlq_letters q sq = Some e \<Longrightarrow> \<exists>n k. sq = Suc n \<and> letter_at stream dead n k e"
    "letter_at stream dead n k e \<Longrightarrow> dlq_letters q (Suc n) = Some e \<or> replayed stream n k e"
  using assms unfolding letters_ok_def by blast+

lemma letters_okI:
  assumes "\<And>n. n < length dead \<Longrightarrow> \<exists>k e. letter_at stream dead n k e"
    and "\<And>m. m \<in> set (js_sent (cb_js cb)) \<Longrightarrow> msg_id m \<in> msg_id ` set dead"
    and "\<And>m. m \<in> set (js_sent (cb_js cb)) \<Longrightarrow> \<exists>k e. sourced stream k e \<and> m = letter_message e"
    and "dead_keys q \<subseteq> {..length dead}"
    and "\<And>sq e. dlq_letters q sq = Some e \<Longrightarrow> \<exists>n k. sq = Suc n \<and> letter_at stream dead n k e"
    and "\<And>n k e. letter_at stream dead n k e \<Longrightarrow> dlq_letters q (Suc n) = Some e \<or> replayed stream n k e"
  shows "letters_ok stream dead cb q"
  using assms unfolding letters_ok_def by blast

lemma letters_ok_stream:
  assumes "letters_ok stream dead cb q"
  shows "letters_ok (stream @ new) dead cb q"
proof (rule letters_okI)
  note l = letters_okD [OF assms]
  have up: "letter_at (stream @ new) dead n k e" if "letter_at stream dead n k e" for n k e
    using letter_at_append [OF that, of new "[]"] by simp
  show "\<exists>k e. letter_at (stream @ new) dead n k e" if "n < length dead" for n
    using l(1) [OF that] up by blast
  show "msg_id m \<in> msg_id ` set dead" if "m \<in> set (js_sent (cb_js cb))" for m by (rule l(2) [OF that])
  show "\<exists>k e. sourced (stream @ new) k e \<and> m = letter_message e" if "m \<in> set (js_sent (cb_js cb))" for m
    using l(3) [OF that] sourced_append by blast
  show "dead_keys q \<subseteq> {..length dead}" by (rule l(4))
  show "\<exists>n k. sq = Suc n \<and> letter_at (stream @ new) dead n k e" if "dlq_letters q sq = Some e" for sq e
    using l(5) [OF that] up by blast
  show "dlq_letters q (Suc n) = Some e \<or> replayed (stream @ new) n k e" if a: "letter_at (stream @ new) dead n k e" for n k e
  proof -
    from a have "n < length dead" by (simp add: letter_at_def)
    from l(1) [OF this] have "letter_at stream dead n k e" using letter_at_older [OF a] by blast
    from l(6) [OF this] replayed_append show ?thesis by blast
  qed
qed

lemma settled_append:
  assumes "k < length stream \<and> (handled d rec (stream ! k) \<or> (\<exists>n e. letter_at stream dead n k e))" "rec \<subseteq> rec'"
  shows "k < length (stream @ new) \<and> (handled d rec' ((stream @ new) ! k) \<or> (\<exists>n e. letter_at (stream @ new) (dead @ extra) n k e))"
  using assms letter_at_append by (fastforce simp: nth_append handled_def)

lemma log_inv_relay:
  assumes inv: "log_inv d s" and pre: "prefix (js_sent (pl_js (dv_pipe s))) (js_sent js)"
    and st: "stores (dv_stream s) (new_messages (pl_js (dv_pipe s)) js) stream"
    and p: "pl_js p = js"
  shows "log_inv d (s\<lparr>dv_pipe := p, dv_stream := stream\<rparr>)"
proof -
  let ?sent = "js_sent (pl_js (dv_pipe s))"
  from stores_appends [OF st] obtain new where new: "stream = dv_stream s @ new" "set new \<subseteq> set (new_messages (pl_js (dv_pipe s)) js)"
    by blast
  note sent = new_messages_prefix [OF pre]
  have "origins (js_sent js) (dv_stream s @ new) (dv_dead s @ [])"
  proof (rule origins_append)
    show "origins ?sent (dv_stream s) (dv_dead s)" using inv by (simp add: log_inv_def)
  qed (use sent new(2) in auto)
  moreover have "msg_id ` set (js_sent js) \<subseteq> msg_id ` set stream"
    using inv stores_ids [OF st] sent new(1) by (auto simp: log_inv_def image_Un)
  moreover have "letters_ok (dv_stream s @ new) (dv_dead s) (dv_consumer s) (rp_store (dv_replay s))"
    using inv by (intro letters_ok_stream) (simp add: log_inv_def)
  moreover have "k < length stream \<and> (handled d (dv_recorded s) (stream ! k) \<or> (\<exists>n e. letter_at stream (dv_dead s) n k e))"
    if "k \<in> dv_settled s" for k
    using settled_append [of k "dv_stream s" d "dv_recorded s" "dv_dead s" "dv_recorded s" new "[]"] inv that new(1)
    by (auto simp: log_inv_def)
  ultimately show ?thesis by (simp add: log_inv_def new(1) p)
qed

lemma letters_ok_store:
  assumes ok: "letters_ok stream dead cb q" and keys: "dead_keys q' \<subseteq> dead_keys q"
    and q': "dlq_letters q' = dlq_letters q \<or> (\<exists>n k e. dlq_letters q' = (dlq_letters q)(Suc n := None) \<and>
               letter_at stream dead n k e \<and> replayed stream n k e)"
  shows "letters_ok stream dead cb q'"
proof (rule letters_okI)
  note l = letters_okD [OF ok]
  show "dead_keys q' \<subseteq> {..length dead}" using keys l(4) by blast
  show "\<exists>n k. sq = Suc n \<and> letter_at stream dead n k e" if "dlq_letters q' sq = Some e" for sq e
    using that q' l(5) [of sq e] by (auto split: if_splits)
  show "dlq_letters q' (Suc n) = Some e \<or> replayed stream n k e" if a: "letter_at stream dead n k e" for n k e
    using q'
  proof (elim disjE exE conjE)
    fix n' k' e' assume x: "dlq_letters q' = (dlq_letters q)(Suc n' := None)" "letter_at stream dead n' k' e'" "replayed stream n' k' e'"
    show ?thesis
    proof (cases "n' = n")
      case True
      with letter_at_unique [OF a] x(2,3) show ?thesis by blast
    next
      case False
      with x(1) l(6) [OF a] show ?thesis by simp
    qed
  qed (use l(6) [OF a] in simp)
qed (use letters_okD(1-3) [OF ok] in blast)+

lemma log_inv_replay:
  assumes inv: "log_inv d s" and plain: "\<And>m. m \<in> set (js_sent (pl_js (dv_pipe s))) \<Longrightarrow> CHR '':'' \<notin> set (msg_id m)"
    and run: "dlq_replay_main sq latest execute connect (dv_replay s) = (rp, out)"
    and st: "stores (dv_stream s) (new_messages (rp_js (dv_replay s)) (rp_js rp)) stream"
  shows "log_inv d (s\<lparr>dv_stream := stream, dv_replay := rp\<rparr>)"
proof -
  let ?sent = "js_sent (pl_js (dv_pipe s))" and ?q = "rp_store (dv_replay s)"
  have i: "msg_id ` set ?sent \<subseteq> msg_id ` set (dv_stream s)" "origins ?sent (dv_stream s) (dv_dead s)"
    "letters_ok (dv_stream s) (dv_dead s) (dv_consumer s) ?q" using inv by (simp_all add: log_inv_def)
  from stores_appends [OF st] obtain new where new: "stream = dv_stream s @ new"
    "set new \<subseteq> set (new_messages (rp_js (dv_replay s)) (rp_js rp))" by blast
  note cmd = command_step [OF run]
  have origin: "\<exists>n k e. letter_at (dv_stream s) (dv_dead s) n k e \<and> m = dlq.republished (Suc n) e" if "m \<in> set new" for m
    using cmd that new(2) letters_okD(5) [OF i(3)] by (fastforce simp: new_messages_def)
  have o: "origins ?sent (dv_stream s @ new) (dv_dead s @ [])" by (rule origins_append [OF i(2)]) (use origin in auto)
  then have o': "origins ?sent stream (dv_dead s)" by (simp add: new(1))
  have ok: "letters_ok stream (dv_dead s) (dv_consumer s) ?q" unfolding new(1) by (rule letters_ok_stream [OF i(3)])
  have "dlq_letters (rp_store rp) = dlq_letters ?q \<or> (\<exists>n k e. dlq_letters (rp_store rp) = (dlq_letters ?q)(Suc n := None) \<and>
      letter_at stream (dv_dead s) n k e \<and> replayed stream n k e)"
    using cmd
  proof (elim disjE exE conjE)
    fix n e assume c: "dlq_letters ?q n = Some e" "js_sent (rp_js rp) = js_sent (rp_js (dv_replay s)) @ [dlq.republished n e]"
      "dlq_letters (rp_store rp) = (dlq_letters ?q)(n := None)"
    from letters_okD(5) [OF ok c(1)] obtain n' k where l: "n = Suc n'" "letter_at stream (dv_dead s) n' k e" by blast
    have "msg_id (dlq.republished n e) \<in> msg_id ` set stream"
      using stores_ids [OF st] c(2) by (simp add: new_messages_def)
    then have "replayed stream n' k e"
      using replay_found [OF o' l(2) _ plain] l(1) by (simp add: dlq.republished_def)
    with l c(3) show ?thesis by blast
  qed blast+
  from letters_ok_store [OF ok command_keys [OF run] this]
  have "letters_ok stream (dv_dead s) (dv_consumer s) (rp_store rp)" .
  moreover have "k < length stream \<and> (handled d (dv_recorded s) (stream ! k) \<or> (\<exists>n e. letter_at stream (dv_dead s) n k e))"
    if "k \<in> dv_settled s" for k
    using settled_append [of k "dv_stream s" d "dv_recorded s" "dv_dead s" "dv_recorded s" new "[]"] inv that new(1)
    by (auto simp: log_inv_def)
  ultimately show ?thesis using i(1) o' new(1) by (auto simp: log_inv_def)
qed

text \<open>
  A delivery: the dead letter that the callback publishes is about the message's position, and a
  message is settled only when its event was recorded or such a letter is stored.
\<close>

lemma delivered_letter:
  assumes "stream ! k = (subject, i, GamePayload bytes)" "k < length stream" "delivery_of k md"
    and "letter_of \<lparr>MsgSubject = subject, MsgData = bytes, MsgMetadata = md\<rparr> x e" "md = Inr x"
  shows "sourced stream k e"
  using assms by (simp add: sourced_def letter_of_def delivery_of_def)

lemma letters_ok_deliver:
  assumes ok: "letters_ok stream dead cb (rp_store rp)"
    and k: "stream ! k = (subject, i, GamePayload bytes)" "k < length stream" "delivery_of k md"
    and c: "consume_callback handler rnd now \<lparr>MsgSubject = subject, MsgData = bytes, MsgMetadata = md\<rparr> (a, cb) = (a', cb')"
    and st: "stores dead (new_messages (cb_js cb) (cb_js cb')) dead'"
  shows "letters_ok stream dead' cb' (rp_store (add_letters (length dead) (drop (length dead) dead') rp))"
proof (rule letters_okI)
  note l = letters_okD [OF ok]
  let ?msgs = "new_messages (cb_js cb) (cb_js cb')"
  from stores_appends [OF st] obtain new where new: "dead' = dead @ new" "set new \<subseteq> set ?msgs" by blast
  have sent: "js_sent (cb_js cb') = js_sent (cb_js cb) @ ?msgs" "m \<in> set ?msgs \<Longrightarrow> \<exists>e. sourced stream k e \<and> m = letter_message e" for m
    using callback_publishes [OF c] delivered_letter [OF k] by (auto simp: new_messages_def)
  have up: "letter_at stream dead' n k e" if "letter_at stream dead n k e" for n k e
    using letter_at_append [OF that, of "[]" new] by (simp add: new(1))
  have added: "\<exists>e. letter_at stream dead' (length dead + j) k e" if "j < length new" for j
  proof -
    from that new(2) sent(2) [of "new ! j"] obtain e where "sourced stream k e" "new ! j = letter_message e"
      by (meson nth_mem subsetD)
    with that show ?thesis by (auto simp: letter_at_def new(1))
  qed
  show "\<exists>k e. letter_at stream dead' n k e" if n: "n < length dead'" for n
  proof (cases "n < length dead")
    case True
    with l(1) up show ?thesis by blast
  next
    case False
    with n new(1) obtain j where "n = length dead + j" "j < length new" by (metis add_less_cancel_left le_add_diff_inverse length_append not_less)
    with added show ?thesis by blast
  qed
  show "msg_id m \<in> msg_id ` set dead'" if "m \<in> set (js_sent (cb_js cb'))" for m
    using that l(2) [of m] stores_ids [OF st] sent(1) by (auto simp: new(1))
  show "\<exists>k e. sourced stream k e \<and> m = letter_message e" if "m \<in> set (js_sent (cb_js cb'))" for m
  proof -
    from that sent(1) have "m \<in> set (js_sent (cb_js cb)) \<or> m \<in> set ?msgs" by (metis Un_iff set_append)
    with l(3) sent(2) show ?thesis by blast
  qed
  show "dead_keys (rp_store (add_letters (length dead) (drop (length dead) dead') rp)) \<subseteq> {..length dead'}"
    using dead_keys_add [of "length dead" new rp] l(4) by (fastforce simp: new(1))
  show "\<exists>n k. sq = Suc n \<and> letter_at stream dead' n k e"
    if "dlq_letters (rp_store (add_letters (length dead) (drop (length dead) dead') rp)) sq = Some e" for sq e
    using letters_add_cases [OF that]
  proof (elim disjE exE conjE)
    assume "dlq_letters (rp_store rp) sq = Some e"
    with l(5) up show ?thesis by blast
  next
    fix j i b assume j: "sq = Suc (length dead + j)" "j < length (drop (length dead) dead')"
      "drop (length dead) dead' ! j = (SubjectGameDeadLetter, i, DeadPayload b)" "unmarshal_dead_letter b = Inr e"
    then obtain e' where e': "letter_at stream dead' (length dead + j) k e'" using added [of j] by (auto simp: new(1))
    then have "e' = e" using j(2-4) by (auto simp: letter_at_def letter_message_def new(1))
    with e' j(1) show ?thesis by blast
  qed
  show "dlq_letters (rp_store (add_letters (length dead) (drop (length dead) dead') rp)) (Suc n) = Some e \<or> replayed stream n k e"
    if x: "letter_at stream dead' n k e" for n k e
  proof (cases "n < length dead")
    case True
    with x have "letter_at stream dead n k e" by (simp add: letter_at_def new(1) nth_append)
    from l(6) [OF this] letters_add_old show ?thesis by blast
  next
    case False
    with x have "n - length dead < length new" "new ! (n - length dead) = letter_message e" "validateGameDeadLetterEvent e = None"
      by (auto simp: letter_at_def new(1) nth_append sourced_def)
    from letters_add_new [OF l(4) this] False show ?thesis by (simp add: new(1))
  qed
qed

lemma log_inv_deliver:
  assumes inv: "log_inv d s"
    and k: "dv_stream s ! k = (subject, i, GamePayload bytes)" "k < length (dv_stream s)" "delivery_of k md"
    and c: "consume_callback (Handle (pg_game_events d t)) rnd now \<lparr>MsgSubject = subject, MsgData = bytes, MsgMetadata = md\<rparr>
              (pl_inbox (dv_pipe s), dv_consumer s) = (inbox, cb)"
    and st: "stores (dv_dead s) (new_messages (cb_js (dv_consumer s)) (cb_js cb)) dead"
  shows "log_inv d (after_delivery k inbox cb dead s)"
proof -
  let ?stream = "dv_stream s" and ?h = "Handle (pg_game_events d t)"
  let ?s = "after_delivery k inbox cb dead s"
  have i: "origins (js_sent (pl_js (dv_pipe s))) ?stream (dv_dead s)"
    "letters_ok ?stream (dv_dead s) (dv_consumer s) (rp_store (dv_replay s))" using inv by (simp_all add: log_inv_def)
  from stores_appends [OF st] obtain new where new: "dead = dv_dead s @ new" by blast
  have ok: "letters_ok ?stream dead cb (rp_store (dv_replay ?s))"
    using letters_ok_deliver [OF i(2) k c st] by (simp add: after_delivery_def)
  have "origins (js_sent (pl_js (dv_pipe s))) (?stream @ []) (dv_dead s @ new)" by (rule origins_append [OF i(1)]) auto
  then have o: "origins (js_sent (pl_js (dv_pipe s))) ?stream dead" by (simp add: new)
  have old: "j < length ?stream \<and> (handled d (dv_recorded ?s) (?stream ! j) \<or> (\<exists>n e. letter_at ?stream dead n j e))"
    if "j \<in> dv_settled s" for j
    using settled_append [of j ?stream d "dv_recorded s" "dv_dead s" "dv_recorded ?s" "[]" new] inv that
    by (auto simp: log_inv_def new after_delivery_def)
  from callback_actions [OF c] obtain as where as: "cb_actions cb = cb_actions (dv_consumer s) @ as"
    "DoubleAck \<in> set as \<Longrightarrow> ?h subject bytes (pl_inbox (dv_pipe s)) = (inbox, Inr ())"
    "TermWithReason reason \<in> set as \<Longrightarrow> \<exists>x err. md = Inr x \<and>
       dead_lettered \<lparr>MsgSubject = subject, MsgData = bytes, MsgMetadata = md\<rparr> x err (cb_js cb)" for reason
    by fastforce
  have "handled d (dv_recorded ?s) (?stream ! k) \<or> (\<exists>n e. letter_at ?stream dead n k e)"
    if a: "a \<in> set as" "settles a" for a
  proof (cases a)
    case DoubleAck
    with as(2) a(1) have "?h subject bytes (pl_inbox (dv_pipe s)) = (inbox, Inr ())" by simp
    from pg_inbox.Handle_once(2) [OF this refl] k(1) show ?thesis by (auto simp: handled_def after_delivery_def)
  next
    case (TermWithReason reason)
    with as(3) a(1) obtain x err where x: "md = Inr x"
      "dead_lettered \<lparr>MsgSubject = subject, MsgData = bytes, MsgMetadata = md\<rparr> x err (cb_js cb)" by blast
    then obtain e where e: "letter_message e \<in> set (js_sent (cb_js cb))" "SourceStream e = MdStream x" "StreamSequence e = MdStreamSequence x"
      unfolding dead_lettered_def letter_message_def by blast
    then have se: "SourceStream e = StreamGameEvents" "StreamSequence e = Suc k" using k(3) x(1) by (simp_all add: delivery_of_def)
    from letters_okD(2) [OF ok e(1)] obtain n where n: "n < length dead" "msg_id (dead ! n) = deadLetterMessageID e"
      by (metis (no_types, lifting) fst_conv imageE in_set_conv_nth letter_message_def snd_conv)
    from letters_okD(1) [OF ok n(1)] obtain k' e' where l: "letter_at ?stream dead n k' e'" by blast
    then have e': "SourceStream e' = StreamGameEvents" "StreamSequence e' = Suc k'" "deadLetterMessageID e' = deadLetterMessageID e"
      using n(2) by (auto simp: letter_at_def letter_message_def sourced_def)
    have "CHR '':'' \<notin> set StreamGameEvents" by (simp add: StreamGameEvents_def)
    with deadLetterMessageID_inject [of e' e] e' se have "k' = k" by simp
    with l show ?thesis by blast
  qed (use a in \<open>simp add: settles_def\<close>)
  with old k(2) as(1)
  have "\<forall>j \<in> dv_settled ?s. j < length ?stream \<and> (handled d (dv_recorded ?s) (?stream ! j) \<or> (\<exists>n e. letter_at ?stream dead n j e))"
    by (auto simp: after_delivery_def)
  with inv o ok show ?thesis by (simp add: log_inv_def after_delivery_def)
qed

section \<open>Every reachable state\<close>

lemma sent_inv_start:
  assumes "outbox_rows db = []" "js_sent js = []"
  shows "sent_inv {} (NewGameLifecycleService db) js"
  using assms by (simp add: sent_inv_def outbox_inv_def held_def row_contents_def NewGameLifecycleService_def)

lemma step_sent:
  assumes "delivery_step d s s'" "sent_inv (dv_formed s) (pl_games (dv_pipe s)) (pl_js (dv_pipe s))"
  shows "sent_inv (dv_formed s') (pl_games (dv_pipe s')) (pl_js (dv_pipe s'))"
  using assms(1)
proof cases
  case (relay ret locked now st result err stream)
  with relay_sent [OF assms(2) relay(2,3)] show ?thesis by simp
next
  case (clean_outbox now db res')
  with clean_sent [OF assms(2) clean_outbox(2)] show ?thesis by simp
qed (use assms(2) in \<open>simp_all add: after_delivery_def\<close>)

lemma delivery_sent: "delivery_reach d seen s \<Longrightarrow> sent_inv (dv_formed s) (pl_games (dv_pipe s)) (pl_js (dv_pipe s))"
proof (induction rule: delivery_reach.induct)
  case (start db js inbox cb rp)
  then show ?case by (simp add: sent_inv_start)
next
  case (observe seen s now rnd t1 t2 phase g r games res seen')
  with observe_sent [OF observe.IH _ observe.hyps(4)] show ?case by (simp add: set_games_def fresh_id_def)
qed (rule step_sent)

lemma sent_plain:
  assumes "sent_inv F st js" "m \<in> set (js_sent js)"
  shows "CHR '':'' \<notin> set (msg_id m)"
  using sent_invD(4,7) [OF assms(1)] assms(2) by fastforce

lemma step_logs:
  assumes "delivery_step d s s'" "log_inv d s" "sent_inv (dv_formed s) (pl_games (dv_pipe s)) (pl_js (dv_pipe s))"
  shows "log_inv d s'"
  using assms(1)
proof cases
  case (relay ret locked now st result err stream)
  have "prefix (js_sent (pl_js (dv_pipe s))) (js_sent (relay_js st))"
    using RelayOnce_prefix [OF relay(3)] by (simp add: pl_relay_def)
  from log_inv_relay [OF assms(2) this relay(4)] relay(1) show ?thesis by (simp add: pl_relayed_def)
next
  case (deliver k subject i bytes md t rnd now inbox cb dead)
  with assms(2) show ?thesis by (auto intro: log_inv_deliver)
next
  case (replay sq latest execute connect rp out stream)
  with log_inv_replay [OF assms(2) sent_plain [OF assms(3)] replay(2,3)] show ?thesis by simp
qed (use assms(2) in \<open>simp_all add: log_inv_def\<close>)

lemma delivery_logs: "delivery_reach d seen s \<Longrightarrow> log_inv d s"
proof (induction rule: delivery_reach.induct)
  case (start db js inbox cb rp)
  have "dlq_letters (rp_store rp) sq = None" for sq using start(6) by (simp add: dlq_letters_def)
  with start have "letters_ok [] [] cb (rp_store rp)"
    by (intro letters_okI) (simp_all add: dead_keys_def letter_at_def)
  with start show ?case by (simp add: log_inv_def origins_def)
next
  case (step seen s s')
  from step_logs [OF step.hyps(2) step.IH delivery_sent [OF step.hyps(1)]] show ?case .
qed (simp add: log_inv_def set_games_def)

text \<open>What the stream holds, replays included, the relay sent: so the server's guarantees hold.\<close>

lemma stream_sent:
  "origins sent stream dead \<Longrightarrow> k < length stream \<Longrightarrow> stream ! k = (subject, i, p) \<Longrightarrow> \<exists>j. (subject, j, p) \<in> set sent"
proof (induction k arbitrary: i rule: less_induct)
  case (less k)
  consider (relayed) "stream ! k \<in> set sent"
    | (replayed) n k0 e where "k0 < k" "letter_at stream dead n k0 e" "stream ! k = dlq.republished (Suc n) e"
    using less.prems(1,2) unfolding origins_def by blast
  then show ?case
  proof cases
    case relayed
    with less.prems(3) show ?thesis by auto
  next
    case replayed
    then obtain j where "stream ! k0 = (subject, j, p)"
      using less.prems(3) by (auto simp: letter_at_def sourced_def dlq.republished_def)
    with less.IH [OF replayed(1) less.prems(1)] replayed(1) less.prems(2) show ?thesis by simp
  qed
qed

lemma callback_inbox:
  "consume_callback handler rnd now msg (a, cb) = (a', cb') \<Longrightarrow> a' = fst (handler (MsgSubject msg) (MsgData msg) a)"
  by (auto simp: consume_callback_def split: prod.splits sum.splits)

lemma delivered_handled:
  assumes "log_inv d s" "k < length (dv_stream s)" "dv_stream s ! k = (subject, i, GamePayload bytes)"
    and "consume_callback (Handle (pg_game_events d t)) rnd now \<lparr>MsgSubject = subject, MsgData = bytes, MsgMetadata = md\<rparr>
           (pl_inbox (dv_pipe s), cb) = (inbox, cb')"
  shows "\<exists>j out. (subject, j, GamePayload bytes) \<in> set (js_sent (pl_js (dv_pipe s))) \<and>
    Handle (pg_game_events d t) subject bytes (pl_inbox (dv_pipe s)) = (inbox, out)"
proof -
  have "origins (js_sent (pl_js (dv_pipe s))) (dv_stream s) (dv_dead s)" using assms(1) by (simp add: log_inv_def)
  from stream_sent [OF this assms(2,3)] callback_inbox [OF assms(4)] show ?thesis
    by (metis js_msg.select_convs(1,2) prod.collapse)
qed

lemma step_pipeline:
  assumes "delivery_step d s s'" "log_inv d s" "pipeline_reach d seen (dv_pipe s)"
  shows "pipeline_reach d seen (dv_pipe s')"
  using assms(1)
proof cases
  case (relay ret locked now st result err stream)
  with pipeline_reach.relay [OF assms(3) relay(2,3)] show ?thesis by simp
next
  case (clean_outbox now db res')
  with pipeline_reach.clean_outbox [OF assms(3) clean_outbox(2)] show ?thesis by simp
next
  case (deliver k subject i bytes md t rnd now inbox cb dead)
  from delivered_handled [OF assms(2) deliver(2,3,5)] pipeline_reach.deliver [OF assms(3)] deliver(1) show ?thesis
    by (auto simp: after_delivery_def)
next
  case (clean_inbox now inbox deleted)
  with pipeline_reach.clean_inbox [OF assms(3) clean_inbox(2)] show ?thesis by simp
qed (use assms(3) in simp)

lemma delivery_pipeline: "delivery_reach d seen s \<Longrightarrow> pipeline_reach d seen (dv_pipe s)"
proof (induction rule: delivery_reach.induct)
  case (start db js inbox cb rp)
  then show ?case by (simp add: pipeline_reach.start)
next
  case (observe seen s now rnd t1 t2 phase g r games res seen')
  from pipeline_reach.observe [OF observe.IH observe.hyps(2,4,5)] show ?case by (simp add: set_games_def)
next
  case (step seen s s')
  from step_pipeline [OF step.hyps(2) delivery_logs [OF step.hyps(1)] step.IH] show ?case .
qed

text \<open>
  What becomes of a message of the stream: unsettled, recorded, or a dead letter in the store;
  a letter that left the store was replayed to a later position, which is one of the three.
\<close>

lemma stored_message_safe:
  assumes inv: "log_inv d s"
  shows "k < length (dv_stream s) \<Longrightarrow> dv_stream s ! k = (subject, i, GamePayload bytes) \<Longrightarrow>
    (\<exists>k j. k < length (dv_stream s) \<and> k \<notin> dv_settled s \<and> dv_stream s ! k = (subject, j, GamePayload bytes)) \<or>
    (\<exists>ev. accepted subject bytes = Some ev \<and> event_key d ev \<in> dv_recorded s) \<or>
    (\<exists>n e. dlq_letters (rp_store (dv_replay s)) n = Some e \<and> OriginalSubject e = subject \<and> OriginalPayload e = bytes)"
proof (induction "length (dv_stream s) - k" arbitrary: k i rule: less_induct)
  case less
  consider "k \<notin> dv_settled s" | "handled d (dv_recorded s) (dv_stream s ! k)"
    | (letter) n e where "letter_at (dv_stream s) (dv_dead s) n k e" using inv unfolding log_inv_def by blast
  then show ?case
  proof cases
    case letter
    have "letters_ok (dv_stream s) (dv_dead s) (dv_consumer s) (rp_store (dv_replay s))" using inv by (simp add: log_inv_def)
    from letters_okD(6) [OF this letter] have l: "dlq_letters (rp_store (dv_replay s)) (Suc n) = Some e \<or> replayed (dv_stream s) n k e" .
    have e: "OriginalSubject e = subject" "OriginalPayload e = bytes"
      using letter less.prems(2) by (auto simp: letter_at_def sourced_def)
    show ?thesis
    proof (cases "replayed (dv_stream s) n k e")
      case True
      then obtain k' where k': "k < k'" "k' < length (dv_stream s)" "dv_stream s ! k' = dlq.republished (Suc n) e"
        unfolding replayed_def by blast
      then show ?thesis using less.hyps [of k' "deadLetterReplayMessageID e (Suc n)"] less.prems(1) e
        by (simp add: dlq.republished_def)
    next
      case False
      with l e show ?thesis by blast
    qed
  qed (use less.prems in \<open>auto simp: handled_def\<close>)
qed

lemma formed_event_safe:
  assumes "delivery_reach d seen s" "(i, subject, bytes) \<in> dv_formed s"
  shows "waiting (pl_games (dv_pipe s)) (i, subject, bytes) \<or>
    (\<exists>k < length (dv_stream s). \<exists>j. dv_stream s ! k = (subject, j, GamePayload bytes))"
proof -
  note sent = delivery_sent [OF assms(1)]
  have inv: "log_inv d s" by (rule delivery_logs [OF assms(1)])
  consider "waiting (pl_games (dv_pipe s)) (i, subject, bytes)" | "(subject, i, GamePayload bytes) \<in> set (js_sent (pl_js (dv_pipe s)))"
    using sent_invD(6) [OF sent assms(2)] by auto
  then show ?thesis
  proof cases
    case 2
    then have "i \<in> msg_id ` set (dv_stream s)" using inv by (force simp: log_inv_def)
    then obtain k where k: "k < length (dv_stream s)" "msg_id (dv_stream s ! k) = i" by (metis imageE in_set_conv_nth)
    have plain: "CHR '':'' \<notin> set i" using sent_invD(4) [OF sent assms(2)] by simp
    have "dv_stream s ! k \<noteq> dlq.republished n e" for n e
      using k(2) plain replay_id_colon by (auto simp: dlq.republished_def)
    with inv k(1) have "dv_stream s ! k \<in> set (js_sent (pl_js (dv_pipe s)))"
      unfolding log_inv_def origins_def by blast
    then obtain c where c: "c \<in> dv_formed s" "dv_stream s ! k = message_of c" using sent_invD(7) [OF sent] by blast
    then have "c = (i, subject, bytes)" using sent_invD(3) [OF sent c(1) assms(2)] k(2) by (cases c) simp
    with c(2) k(1) show ?thesis by auto
  qed blast
qed

section \<open>An example run\<close>

text \<open>
  A game is selected and starts, its event is relayed, and it is delivered for the fifth time
  when the transaction of the inbox cannot begin: the event becomes a dead letter.
\<close>

definition ex_dv0 :: delivery where
  "ex_dv0 = \<lparr>dv_pipe = ex_pipe0\<lparr>pl_inbox := ex_inbox\<lparr>inbox_faults := [FailBefore not_found]\<rparr>\<rparr>, dv_stream = [],
     dv_settled = {}, dv_consumer = ex_callback, dv_dead = [], dv_replay = ex_replay\<lparr>rp_store := \<lparr>dlq_msgs = [], dlq_faults = []\<rparr>\<rparr>,
     dv_formed = {}, dv_recorded = {}\<rparr>"

definition ex_dv1 :: delivery where
  "ex_dv1 = set_games (pl_games ex_pipe1) ex_dv0"

definition ex_dv2 :: delivery where
  "ex_dv2 = set_games (pl_games ex_pipe2) ex_dv1"

definition ex_dv3 :: delivery where
  "ex_dv3 = (let st = fst (RelayOnce (\<lambda>_. False) id 10 (pl_relay (dv_pipe ex_dv2)))
     in ex_dv2\<lparr>dv_pipe := pl_relayed st (dv_pipe ex_dv2),
          dv_stream := dv_stream ex_dv2 @ new_messages (pl_js (dv_pipe ex_dv2)) (relay_js st)\<rparr>)"

definition ex_delivered :: "nat \<Rightarrow> nat \<Rightarrow> delivery \<Rightarrow> inbox_db \<times> callback_state" where
  "ex_delivered k n s = consume_callback (Handle (pg_game_events ex_driver 11)) ex_rnd 12
     \<lparr>MsgSubject = SubjectGameStarted, MsgData = ex_bytes,
      MsgMetadata = Inr \<lparr>NumDelivered = n, MdStream = StreamGameEvents, MdStreamSequence = Suc k, MdConsumer = ConsumerGameEvents\<rparr>\<rparr>
     (pl_inbox (dv_pipe s), dv_consumer s)"

definition ex_settle :: "nat \<Rightarrow> nat \<Rightarrow> delivery \<Rightarrow> delivery" where
  "ex_settle k n s = after_delivery k (fst (ex_delivered k n s)) (snd (ex_delivered k n s))
     (dv_dead s @ new_messages (cb_js (dv_consumer s)) (cb_js (snd (ex_delivered k n s)))) s"

definition ex_dv4 :: delivery where
  "ex_dv4 = ex_settle 0 5 ex_dv3"

lemma stores_all: "stores log ms (log @ ms)"
proof (induction ms arbitrary: log)
  case (Cons m ms)
  from Cons [of "log @ [m]"] show ?case by (auto intro: stores.store)
qed (simp add: stores.none)

lemma ex_dv2_reach: "delivery_reach ex_driver {(7, ''7-1'')} ex_dv2"
proof -
  have r: "ex_dv0 = \<lparr>dv_pipe = \<lparr>pl_games = NewGameLifecycleService \<lparr>outbox_rows = [], outbox_faults = []\<rparr>,
      pl_js = \<lparr>js_sent = [], js_replies = []\<rparr>, pl_labels = [], pl_inbox = ex_inbox\<lparr>inbox_faults := [FailBefore not_found]\<rparr>\<rparr>,
      dv_stream = [], dv_settled = {}, dv_consumer = ex_callback, dv_dead = [],
      dv_replay = ex_replay\<lparr>rp_store := \<lparr>dlq_msgs = [], dlq_faults = []\<rparr>\<rparr>, dv_formed = {},
      dv_recorded = seen_keys (ex_inbox\<lparr>inbox_faults := [FailBefore not_found]\<rparr>)\<rparr>"
    by (simp add: ex_dv0_def ex_pipe0_def ex_inbox_def seen_keys_def)
  have r0: "delivery_reach ex_driver {} ex_dv0"
    unfolding r by (rule delivery_reach.start) (simp_all add: ex_inbox_def ex_callback_def ex_replay_def)
  have g0: "pl_games (dv_pipe ex_dv0) = pl_games ex_pipe0" by (simp add: ex_dv0_def)
  have r1: "delivery_reach ex_driver {(7, ''7-1'')} ex_dv1"
    unfolding ex_dv1_def
    by (rule delivery_reach.observe [OF r0, where now = 5 and rnd = ex_rnd and ?t1.0 = 6 and ?t2.0 = 6 and phase = "''ChampSelect''" and g = 7 and r = "''7-1''"])
       (simp_all add: g0 ex_pipe1_def prod_eq_iff fresh_id_def, simp add: ex_dv0_def)
  have "held (pl_games ex_pipe1) = {}" by code_simp
  then have f: "dv_formed ex_dv1 = {}" by (simp add: ex_dv1_def ex_dv0_def set_games_def)
  have g1: "pl_games (dv_pipe ex_dv1) = pl_games ex_pipe1" by (simp add: ex_dv1_def set_games_def)
  show ?thesis
    unfolding ex_dv2_def
    by (rule delivery_reach.observe [OF r1, where now = 8 and rnd = ex_rnd and ?t1.0 = 9 and ?t2.0 = 9 and phase = "''InProgress''" and g = 0 and r = "[]"])
       (simp_all add: f g1 ex_pipe2_def prod_eq_iff fresh_id_def)
qed

lemma ex_dv3_reach: "delivery_reach ex_driver {(7, ''7-1'')} ex_dv3"
proof -
  obtain st result err where r: "RelayOnce (\<lambda>_. False) id 10 (pl_relay (dv_pipe ex_dv2)) = (st, result, err)"
    by (metis prod_cases3)
  show ?thesis unfolding ex_dv3_def r by (simp, rule delivery_reach.step [OF ex_dv2_reach delivery_step.relay [OF _ r stores_all]]) simp
qed

lemma ex_settle_reach:
  assumes "delivery_reach ex_driver seen s" "k < length (dv_stream s)" "dv_stream s ! k = (SubjectGameStarted, i, GamePayload ex_bytes)"
  shows "delivery_reach ex_driver seen (ex_settle k n s)"
  unfolding ex_settle_def
  by (rule delivery_reach.step [OF assms(1) delivery_step.deliver [OF assms(2,3) _ _ stores_all, where md = "Inr \<lparr>NumDelivered = n, MdStream = StreamGameEvents,
      MdStreamSequence = Suc k, MdConsumer = ConsumerGameEvents\<rparr>"]])
     (simp_all add: delivery_of_def ex_delivered_def)

definition ex_id :: string where
  "ex_id = row_id (hd (outbox_rows (outbox (pl_games ex_pipe2))))"

lemma ex_pipe3_message: "js_sent (pl_js ex_pipe3) = [(SubjectGameStarted, ex_id, GamePayload ex_bytes)]"
  by code_simp

lemma ex_pipe2_held: "row_contents (outbox (pl_games ex_pipe2)) = [(ex_id, SubjectGameStarted, ex_bytes)]"
  by code_simp

lemma ex_pipe3_rows:
  "map row_published_at (outbox_rows (outbox (pl_games ex_pipe3))) = [Some 10]" "pending (pl_games ex_pipe3) = None"
  by code_simp+

lemma ex_poison:
  "let (inbox, cb) = consume_callback (Handle (pg_game_events ex_driver 11)) ex_rnd 12
     \<lparr>MsgSubject = SubjectGameStarted, MsgData = ex_bytes,
      MsgMetadata = Inr \<lparr>NumDelivered = 5, MdStream = StreamGameEvents, MdStreamSequence = 1, MdConsumer = ConsumerGameEvents\<rparr>\<rparr>
     (ex_inbox\<lparr>inbox_faults := [FailBefore not_found]\<rparr>, ex_callback)
   in processed_events inbox = [] \<and> inbox_faults inbox = [] \<and> cb_actions cb = [TermWithReason deadLetterTermReason]"
  by code_simp

text \<open>The relay of this run is that of the pipeline's example.\<close>

lemma ex_dv3_parts:
  "pl_games (dv_pipe ex_dv3) = pl_games ex_pipe3" "dv_stream ex_dv3 = [(SubjectGameStarted, ex_id, GamePayload ex_bytes)]"
  "pl_inbox (dv_pipe ex_dv3) = ex_inbox\<lparr>inbox_faults := [FailBefore not_found]\<rparr>" "dv_consumer ex_dv3 = ex_callback"
  "(ex_id, SubjectGameStarted, ex_bytes) \<in> dv_formed ex_dv3" "dv_recorded ex_dv3 = {}"
proof -
  have d2: "pl_games (dv_pipe ex_dv2) = pl_games ex_pipe2" "pl_js (dv_pipe ex_dv2) = pl_js ex_pipe0"
    "pl_labels (dv_pipe ex_dv2) = pl_labels ex_pipe0" "dv_stream ex_dv2 = []" "dv_consumer ex_dv2 = ex_callback"
    "pl_inbox (dv_pipe ex_dv2) = ex_inbox\<lparr>inbox_faults := [FailBefore not_found]\<rparr>" "dv_recorded ex_dv2 = {}"
    by (simp_all add: ex_dv2_def ex_dv1_def ex_dv0_def set_games_def)
  have p2: "pl_js ex_pipe2 = pl_js ex_pipe0" "pl_labels ex_pipe2 = pl_labels ex_pipe0" "js_sent (pl_js ex_pipe0) = []"
    by (simp_all add: ex_pipe2_def ex_pipe1_def ex_pipe0_def)
  have same: "pl_relay (dv_pipe ex_dv2) = pl_relay ex_pipe2" by (simp add: pl_relay_def d2 p2)
  show "pl_games (dv_pipe ex_dv3) = pl_games ex_pipe3"
    by (simp add: ex_dv3_def ex_pipe3_def same Let_def pl_relayed_def d2)
  show "dv_stream ex_dv3 = [(SubjectGameStarted, ex_id, GamePayload ex_bytes)]"
    using ex_pipe3_message by (simp add: ex_dv3_def ex_pipe3_def same Let_def pl_relayed_def d2 p2 new_messages_def)
  show "pl_inbox (dv_pipe ex_dv3) = ex_inbox\<lparr>inbox_faults := [FailBefore not_found]\<rparr>" "dv_consumer ex_dv3 = ex_callback"
    "dv_recorded ex_dv3 = {}" by (simp_all add: ex_dv3_def Let_def pl_relayed_def d2)
  show "(ex_id, SubjectGameStarted, ex_bytes) \<in> dv_formed ex_dv3"
    by (simp add: ex_dv3_def Let_def ex_dv2_def set_games_def held_def ex_pipe2_held)
qed

lemma ex_dv4_state:
  "(ex_id, SubjectGameStarted, ex_bytes) \<in> dv_formed ex_dv4" "dv_recorded ex_dv4 = {}" "0 \<in> dv_settled ex_dv4"
  "dv_stream ex_dv4 = [(SubjectGameStarted, ex_id, GamePayload ex_bytes)]" "pl_games (dv_pipe ex_dv4) = pl_games ex_pipe3"
  "seen_keys (pl_inbox (dv_pipe ex_dv4)) = {}" "inbox_faults (pl_inbox (dv_pipe ex_dv4)) = []"
  "dlq_faults (rp_store (dv_replay ex_dv4)) = []" "js_replies (rp_js (dv_replay ex_dv4)) = []"
proof -
  obtain inbox cb where c: "ex_delivered 0 5 ex_dv3 = (inbox, cb)" by (meson surj_pair)
  with ex_poison have p: "processed_events inbox = []" "inbox_faults inbox = []" "cb_actions cb = [TermWithReason deadLetterTermReason]"
    by (auto simp: ex_delivered_def ex_dv3_parts)
  have "dv_replay ex_dv3 = ex_replay\<lparr>rp_store := \<lparr>dlq_msgs = [], dlq_faults = []\<rparr>\<rparr>"
    by (simp add: ex_dv3_def Let_def ex_dv2_def ex_dv1_def ex_dv0_def set_games_def)
  moreover have "cb_actions ex_callback = []" by (simp add: ex_callback_def)
  ultimately show "(ex_id, SubjectGameStarted, ex_bytes) \<in> dv_formed ex_dv4" "dv_recorded ex_dv4 = {}" "0 \<in> dv_settled ex_dv4"
    "dv_stream ex_dv4 = [(SubjectGameStarted, ex_id, GamePayload ex_bytes)]" "pl_games (dv_pipe ex_dv4) = pl_games ex_pipe3"
    "seen_keys (pl_inbox (dv_pipe ex_dv4)) = {}" "inbox_faults (pl_inbox (dv_pipe ex_dv4)) = []"
    "dlq_faults (rp_store (dv_replay ex_dv4)) = []" "js_replies (rp_js (dv_replay ex_dv4)) = []"
    using p by (simp_all add: add_letters_def ex_replay_def ex_dv4_def ex_settle_def after_delivery_def c ex_dv3_parts settles_def seen_keys_def)
qed

lemma ex_dv4_waiting: "\<not> waiting (pl_games (dv_pipe ex_dv4)) c"
proof -
  obtain x where "outbox_rows (outbox (pl_games ex_pipe3)) = [x]" "row_published_at x = Some 10"
    using ex_pipe3_rows(1) by (auto simp: map_eq_Cons_conv)
  then show ?thesis using ex_pipe3_rows(2) by (simp add: waiting_def ex_dv4_state)
qed

lemma ex_dv4_reach: "delivery_reach ex_driver {(7, ''7-1'')} ex_dv4"
  unfolding ex_dv4_def by (rule ex_settle_reach [OF ex_dv3_reach]) (simp_all add: ex_dv3_parts)

section \<open>Properties\<close>

text \<open>
  No game event is lost on its way through the whole server. Whatever fails in the outbox, the
  relay, the publications, the transactions, the acknowledgements and the replays, and however the
  parts interleave, an event that the lifecycle service formed is pending or unpublished in its
  outbox, or a message with its subject and payload is unsettled in the stream, or its key was
  recorded by the consumer, or a dead letter with its subject and payload can be loaded for replay.
\<close>

theorem no_game_event_is_lost:
  assumes "delivery_reach d seen s" "(i, subject, bytes) \<in> dv_formed s"
  shows "waiting (pl_games (dv_pipe s)) (i, subject, bytes) \<or>
    (\<exists>k j. k < length (dv_stream s) \<and> k \<notin> dv_settled s \<and> dv_stream s ! k = (subject, j, GamePayload bytes)) \<or>
    (\<exists>ev. accepted subject bytes = Some ev \<and> event_key d ev \<in> dv_recorded s) \<or>
    (\<exists>n e. dlq_letters (rp_store (dv_replay s)) n = Some e \<and> OriginalSubject e = subject \<and> OriginalPayload e = bytes)"
  using formed_event_safe [OF assms] stored_message_safe [OF delivery_logs [OF assms(1)]] by blast

theorem no_game_event_is_lost_witness:
  "\<exists>n e. dlq_letters (rp_store (dv_replay ex_dv4)) n = Some e \<and> OriginalSubject e = SubjectGameStarted \<and>
     OriginalPayload e = ex_bytes"
  using no_game_event_is_lost [OF ex_dv4_reach ex_dv4_state(1)] ex_dv4_waiting ex_dv4_state(2-4) by auto

end
