(* ===== verification/Recovery.thy ===== *)
theory Recovery
  imports NoLoss
begin

text \<open>
  The way back from the dead-letter stream: when the services answer again, the replay command
  and one delivery bring a dead letter's event into the sessions.
\<close>

section \<open>A replay when the services answer\<close>

lemma dlq_call_ok:
  "dlq_faults q = [] \<Longrightarrow> dlq_call wrap op q = (case op q of (q2, Inl e) \<Rightarrow> (q2, Inl (wrap e)) | (q2, Inr a) \<Rightarrow> (q2, Inr a))"
  by (cases q) (simp add: dlq_call_def Let_def)

lemma get_stream_ok: "dlq_faults q = [] \<Longrightarrow> get_stream q = (q, Inr ())"
  by (simp add: get_stream_def dlq_call_ok)

lemma letter_stored:
  assumes "dlq_letters q n = Some e"
  obtains subject bytes where "n \<noteq> 0" "map_of (dlq_msgs q) n = Some (subject, bytes)" "decodeGameDeadLetter n subject bytes = Inr e"
  using assms by (auto simp: dlq_letters_def split: if_splits option.splits sum.splits)

lemma GetGameDeadLetter_ok:
  assumes "dlq_letters q n = Some e" "dlq_faults q = []"
  shows "GetGameDeadLetter n q = (q, Inr e)"
  using assms(1) by (rule letter_stored) (simp add: GetGameDeadLetter_def get_stream_ok dlq_call_ok assms(2))

lemma DeleteGameDeadLetter_ok:
  assumes "dlq_letters q n = Some e" "dlq_faults q = []"
  shows "DeleteGameDeadLetter n q = (q\<lparr>dlq_msgs := AList.delete n (dlq_msgs q)\<rparr>, Inr ())"
  using assms(1) by (rule letter_stored) (simp add: DeleteGameDeadLetter_def get_stream_ok dlq_call_ok assms(2))

lemma Replay_ok:
  assumes l: "dlq_letters (rp_store st) n = Some e" "dlq_faults (rp_store st) = []" "js_replies (rp_js st) = []"
    and v: "validateReplayEvent e = None"
  shows "\<exists>st' result. Replay dlq_store n st = (st', result, None) \<and>
    rp_store st' = (rp_store st)\<lparr>dlq_msgs := AList.delete n (dlq_msgs (rp_store st))\<rparr>"
proof -
  have n: "n \<noteq> 0" using l(1) by (rule letter_stored)
  have i: "deadLetterReplayMessageID e n \<noteq> []" by (simp add: deadLetterReplayMessageID_def)
  obtain j a where p: "PublishDurable (OriginalSubject e) (deadLetterReplayMessageID e n) (GamePayload (OriginalPayload e)) (rp_js st) = (j, Inr a)"
    using i l(3) by (simp add: PublishDurable_def next_reply_def)
  show ?thesis
    by (simp add: Replay_def dlq_store_def n GetGameDeadLetter_ok [OF l(1,2)] DeleteGameDeadLetter_ok [OF l(1,2)] v p Let_def)
qed

lemma command_ok:
  assumes l: "dlq_letters (rp_store st) n = Some e" "dlq_faults (rp_store st) = []" "js_replies (rp_js st) = []"
    and v: "validateReplayEvent e = None"
    and run: "dlq_replay_main n False True None st = (st', out)"
  shows "(\<exists>result. out = Replayed result) \<and> dlq_letters (rp_store st') n = None"
proof -
  have n: "n \<noteq> 0" using l(1) by (rule letter_stored)
  from Replay_ok [OF l v] obtain st2 result where r: "Replay dlq_store n st = (st2, result, None)"
    "rp_store st2 = (rp_store st)\<lparr>dlq_msgs := AList.delete n (dlq_msgs (rp_store st))\<rparr>" by blast
  with run n have "st' = st2" "out = Replayed result"
    by (simp_all add: dlq_replay_main_def GetGameDeadLetter_ok [OF l(1,2)])
  with r(2) show ?thesis by (simp add: dlq_letters_def AList.delete_conv)
qed

section \<open>The event of a dead letter\<close>

text \<open>In a reachable state every dead letter is about an event that the consumer accepts.\<close>

lemma letter_accepted:
  assumes "delivery_reach d seen s" "dlq_letters (rp_store (dv_replay s)) n = Some e"
  shows "\<exists>ev. accepted (OriginalSubject e) (OriginalPayload e) = Some ev \<and> (GeGameID ev, GeRoomID ev) \<in> seen"
proof -
  have inv: "log_inv d s" by (rule delivery_logs [OF assms(1)])
  then have "letters_ok (dv_stream s) (dv_dead s) (dv_consumer s) (rp_store (dv_replay s))"
    and o: "origins (js_sent (pl_js (dv_pipe s))) (dv_stream s) (dv_dead s)" by (simp_all add: log_inv_def)
  from letters_okD(5) [OF this(1) assms(2)] obtain m k where "letter_at (dv_stream s) (dv_dead s) m k e" by blast
  then obtain i where "k < length (dv_stream s)" "dv_stream s ! k = (OriginalSubject e, i, GamePayload (OriginalPayload e))"
    by (auto simp: letter_at_def sourced_def)
  from stream_sent [OF o this] obtain j where "(OriginalSubject e, j, GamePayload (OriginalPayload e)) \<in> set (js_sent (pl_js (dv_pipe s)))" ..
  with pipeline_inv [OF delivery_pipeline [OF assms(1)]] show ?thesis
    by (fastforce simp: pipe_inv_def good_message_def)
qed

lemma accepted_replayable:
  "accepted (OriginalSubject e) (OriginalPayload e) = Some ev \<Longrightarrow> validateReplayEvent e = None"
  by (auto simp: accepted_def validateReplayEvent_def json_valid_def unmarshal_game_event_def split: if_splits sum.splits)

section \<open>An example\<close>

text \<open>The dead letter of the run of \<open>NoLoss\<close>.\<close>

lemma ex_dv4_letter:
  "\<exists>n e. dlq_letters (rp_store (dv_replay ex_dv4)) n = Some e \<and> OriginalSubject e = SubjectGameStarted \<and> OriginalPayload e = ex_bytes"
  using stored_message_safe [OF delivery_logs [OF ex_dv4_reach], of 0 SubjectGameStarted ex_id ex_bytes] ex_dv4_state(2-4) by auto

section \<open>Properties\<close>

text \<open>
  C2: a dead letter can be recovered. In every reachable state, whatever failed before, when the
  services answer: the command with the sequence of a dead letter of a started game reports a
  replay, the letter leaves the store, its event is in the stream under the identifier of this
  replay, and one delivery of it is acknowledged, records the event's key, and unless the event
  was processed before, the session of its game has its room.
\<close>

theorem dead_letter_is_recovered:
  assumes "delivery_reach d seen s" "dlq_letters (rp_store (dv_replay s)) n = Some e" "OriginalSubject e = SubjectGameStarted"
    and "dlq_faults (rp_store (dv_replay s)) = []" "js_replies (rp_js (dv_replay s)) = []"
    and "inbox_faults (pl_inbox (dv_pipe s)) = []" "cb_faults cb = []"
    and "\<And>ev. accepted SubjectGameStarted (OriginalPayload e) = Some ev \<Longrightarrow> \<exists>u. uuid_of d (GeEventID ev) = Inr u"
    and "dlq_replay_main n False True None (dv_replay s) = (rp, out)"
    and "stores (dv_stream s) (new_messages (rp_js (dv_replay s)) (rp_js rp)) stream"
    and "consume_callback (Handle (pg_game_events d t)) rnd now
           \<lparr>MsgSubject = SubjectGameStarted, MsgData = OriginalPayload e, MsgMetadata = md\<rparr> (pl_inbox (dv_pipe s), cb) = (inbox, cb')"
  shows "(\<exists>result. out = Replayed result) \<and> dlq_letters (rp_store rp) n = None \<and>
    (\<exists>k < length stream. stream ! k = (SubjectGameStarted, deadLetterReplayMessageID e n, GamePayload (OriginalPayload e))) \<and>
    cb_actions cb' = cb_actions cb @ [DoubleAck] \<and>
    (\<exists>ev. accepted SubjectGameStarted (OriginalPayload e) = Some ev \<and> event_key d ev \<in> seen_keys inbox \<and>
      (event_key d ev \<in> seen_keys (pl_inbox (dv_pipe s)) \<or>
       (\<exists>g. map_of (game_sessions inbox) (GeGameID ev) = Some g \<and> gs_room g = GeRoomID ev)))"
proof -
  from letter_accepted [OF assms(1,2)] assms(3) obtain ev where ev: "accepted SubjectGameStarted (OriginalPayload e) = Some ev" by auto
  have v: "validateReplayEvent e = None" using accepted_replayable [of e] ev assms(3) by simp
  have cmd: "(\<exists>result. out = Replayed result) \<and> dlq_letters (rp_store rp) n = None"
    by (rule command_ok [OF assms(2,4,5) v assms(9)])
  have "letters_ok (dv_stream s) (dv_dead s) (dv_consumer s) (rp_store (dv_replay s))"
    using delivery_logs [OF assms(1)] by (simp add: log_inv_def)
  from letters_okD(5) [OF this assms(2)] obtain m k where m: "n = Suc m" "letter_at (dv_stream s) (dv_dead s) m k e" by blast
  have "log_inv d (s\<lparr>dv_stream := stream, dv_replay := rp\<rparr>)"
    by (rule delivery_logs [OF delivery_reach.step [OF assms(1) delivery_step.replay [OF assms(9,10)]]])
  then have ok: "letters_ok stream (dv_dead s) (dv_consumer s) (rp_store rp)" by (simp add: log_inv_def)
  from stores_appends [OF assms(10)] m(2) have "letter_at stream (dv_dead s) m k e"
    using letter_at_append [OF m(2), of _ "[]"] by auto
  from letters_okD(6) [OF ok this] cmd m(1) have "replayed stream m k e" by simp
  then have st: "\<exists>k < length stream. stream ! k = (SubjectGameStarted, deadLetterReplayMessageID e n, GamePayload (OriginalPayload e))"
    using m(1) assms(3) by (auto simp: replayed_def dlq.republished_def)
  obtain inbox' out' where h: "Handle (pg_game_events d t) SubjectGameStarted (OriginalPayload e) (pl_inbox (dv_pipe s)) = (inbox', out')"
    by (meson surj_pair)
  from assms(8) [OF ev] obtain u where u: "uuid_of d (GeEventID ev) = Inr u" ..
  note rec = started_message_recorded [OF ev assms(6) u h]
  from rec h assms(7,11) have "inbox = inbox'" "cb_actions cb' = cb_actions cb @ [DoubleAck]"
    by (auto simp: consume_callback_def send_ack_def)
  with cmd st rec ev show ?thesis by blast
qed

theorem dead_letter_is_recovered_witness:
  "\<exists>n. dlq_letters (rp_store (dv_replay ex_dv4)) n \<noteq> None \<and>
     dlq_letters (rp_store (fst (dlq_replay_main n False True None (dv_replay ex_dv4)))) n = None \<and>
     map_of (game_sessions (fst (consume_callback (Handle (pg_game_events ex_driver 20)) ex_rnd 21
       \<lparr>MsgSubject = SubjectGameStarted, MsgData = ex_bytes, MsgMetadata = Inl not_found\<rparr> (pl_inbox (dv_pipe ex_dv4), ex_callback)))) 7 \<noteq> None"
proof -
  obtain n e where e: "dlq_letters (rp_store (dv_replay ex_dv4)) n = Some e" "OriginalSubject e = SubjectGameStarted" "OriginalPayload e = ex_bytes"
    using ex_dv4_letter by blast
  obtain rp out where r: "dlq_replay_main n False True None (dv_replay ex_dv4) = (rp, out)" by (meson surj_pair)
  obtain inbox cb where c: "consume_callback (Handle (pg_game_events ex_driver 20)) ex_rnd 21
       \<lparr>MsgSubject = SubjectGameStarted, MsgData = OriginalPayload e, MsgMetadata = Inl not_found\<rparr> (pl_inbox (dv_pipe ex_dv4), ex_callback) = (inbox, cb)"
    by (meson surj_pair)
  have u: "\<exists>u. uuid_of ex_driver (GeEventID ev) = Inr u" for ev by (simp add: ex_driver_def)
  have "cb_faults ex_callback = []" by (simp add: ex_callback_def)
  note rec = dead_letter_is_recovered [OF ex_dv4_reach e(1,2) ex_dv4_state(8,9,7) this u r stores_all c]
  from letter_accepted [OF ex_dv4_reach e(1)] e(2) obtain ev where ev: "accepted SubjectGameStarted (OriginalPayload e) = Some ev" "GeGameID ev = 7"
    by auto
  with rec ex_dv4_state(6) have "dlq_letters (rp_store rp) n = None" "map_of (game_sessions inbox) 7 \<noteq> None" by auto
  with e(1) r c show ?thesis unfolding e(3) by (intro exI [of _ n]) simp
qed

end
