(* ===== verification/Whole.thy ===== *)
theory Whole
  imports System NoLoss
begin

text \<open>
  The server, the consumer's failures, the dead-letter stream and the replay command as one
  system: \<open>System\<close> and \<open>Delivery\<close> over the same outbox, relay and sessions. Its runs are runs of
  both, so both keep their promises, and the events that travel can be traced to the games that
  the League client showed.
\<close>

section \<open>The system\<close>

text \<open>
  A state of the program and one of the delivery that agree on what they share. A tick forms the
  events, a delivery step moves them, and the rest of the server does not touch them.
\<close>

inductive whole_reach ::
  "'s room_repo \<Rightarrow> (int \<Rightarrow> 'c \<Rightarrow> 'c \<times> (go_error + champion_info)) \<Rightarrow> pg_driver \<Rightarrow> ('s, 'c, outbox_db) server \<Rightarrow>
   champ_select_session set \<Rightarrow> ('s, 'c) program \<Rightarrow> delivery \<Rightarrow> bool" for r cat d s0 where
  start: "sync_games (srv_sync s0) = NewGameLifecycleService db \<Longrightarrow> outbox_rows db = [] \<Longrightarrow> js_sent js = [] \<Longrightarrow>
    game_sessions inbox = [] \<Longrightarrow> js_sent (cb_js cb) = [] \<Longrightarrow> js_sent (rp_js rp) = [] \<Longrightarrow> dlq_msgs (rp_store rp) = [] \<Longrightarrow>
    p = \<lparr>prog_server = s0, prog_js = js, prog_labels = [], prog_inbox = inbox\<rparr> \<Longrightarrow>
    whole_reach r cat d s0 {} p \<lparr>dv_pipe = prog_pipe p, dv_stream = [], dv_settled = {}, dv_consumer = cb, dv_dead = [],
      dv_replay = rp, dv_formed = {}, dv_recorded = seen_keys inbox\<rparr>"
| serve: "whole_reach r cat d s0 shown p v \<Longrightarrow> serve_step r (prog_server p) s' \<Longrightarrow>
    whole_reach r cat d s0 shown (p\<lparr>prog_server := s'\<rparr>) v"
| tick: "whole_reach r cat d s0 shown p v \<Longrightarrow> zero_time < in_now i \<Longrightarrow>
    (\<And>session. selecting i (sync_lol (prog_sync p)) session \<Longrightarrow> distinct (member_ids session)) \<Longrightarrow>
    fresh_id (in_rnd i) v \<Longrightarrow> p' = set_sync (champ_select_tick r cat Enqueue i (prog_sync p)) p \<Longrightarrow>
    whole_reach r cat d s0 (shown \<union> {session. selecting i (sync_lol (prog_sync p)) session}) p'
      (set_games (sync_games (prog_sync p')) v)"
| move: "whole_reach r cat d s0 shown p v \<Longrightarrow> delivery_step d v v' \<Longrightarrow>
    whole_reach r cat d s0 shown (set_pipe (dv_pipe v') p) v'"

section \<open>Its runs are runs of the parts\<close>

lemma set_pipe_id: "set_pipe (prog_pipe p) p = p"
  by (simp add: set_pipe_def prog_pipe_def)

text \<open>An observation that the pipeline makes is one that the delivery makes.\<close>

lemma held_formed: "delivery_reach d seen v \<Longrightarrow> held (pl_games (dv_pipe v)) \<subseteq> dv_formed v"
  using sent_invD(2) [OF delivery_sent] by blast

lemma set_games_same: "delivery_reach d seen v \<Longrightarrow> set_games (pl_games (dv_pipe v)) v = v"
  using held_formed [of d seen v] by (simp add: set_games_def Un_absorb2)

lemma tick_delivery:
  assumes v: "delivery_reach d seen v" "dv_pipe v = prog_pipe p" and i: "zero_time < in_now i" "fresh_id (in_rnd i) v"
    and p': "p' = set_sync (champ_select_tick r cat Enqueue i (prog_sync p)) p"
  shows "\<exists>seen'. seen' \<subseteq> seen \<union> session_key ` {session. selecting i (sync_lol (prog_sync p)) session} \<and>
    delivery_reach d seen' (set_games (sync_games (prog_sync p')) v)"
proof (cases "observation i (sync_lol (prog_sync p))")
  case None
  have "sync_games (prog_sync p') = pl_games (dv_pipe v)" using None by (simp add: p' tick_games v(2) prog_pipe_def)
  with set_games_same [OF v(1)] v(1) show ?thesis by auto
next
  case (Some o3)
  then obtain phase g k where o: "observation i (sync_lol (prog_sync p)) = Some (phase, g, k)" by (cases o3) auto
  obtain games res where ob: "Observe Enqueue (in_rnd i) (in_now i) (in_t1 i) (in_t2 i) phase g k (sync_games (prog_sync p)) = (games, res)"
    by (meson surj_pair)
  then have ob': "Observe Enqueue (in_rnd i) (in_now i) (in_t1 i) (in_t2 i) phase g k (pl_games (dv_pipe v)) = (games, res)"
    by (simp add: v(2) prog_pipe_def)
  have games: "sync_games (prog_sync p') = games" by (simp add: p' tick_games o ob)
  let ?seen = "if phase = ''ChampSelect'' then insert (g, k) seen else seen"
  have "?seen \<subseteq> seen \<union> session_key ` {session. selecting i (sync_lol (prog_sync p)) session}"
    using observation_shown [OF o] by (auto intro: image_eqI [OF sym])
  with delivery_reach.observe [OF v(1) i ob' refl] show ?thesis unfolding games by blast
qed

lemma whole_delivery:
  "whole_reach r cat d s0 shown p v \<Longrightarrow>
   dv_pipe v = prog_pipe p \<and> (\<exists>seen. seen \<subseteq> session_key ` shown \<and> delivery_reach d seen v)"
proof (induction rule: whole_reach.induct)
  case (start db js inbox cb rp p)
  from delivery_reach.start [OF start(2-7), of d] start(1,8) show ?case by (auto simp: prog_pipe_def)
next
  case (serve shown p v s')
  then show ?case by (simp add: prog_pipe_def serve_step_games)
next
  case (tick shown p v i p')
  then obtain seen where seen: "seen \<subseteq> session_key ` shown" "delivery_reach d seen v" by blast
  have pipe: "dv_pipe v = prog_pipe p" using tick.IH by blast
  from tick_delivery [OF seen(2) pipe tick.hyps(2,4,5)] obtain seen' where
    "seen' \<subseteq> seen \<union> session_key ` {session. selecting i (sync_lol (prog_sync p)) session}"
    "delivery_reach d seen' (set_games (sync_games (prog_sync p')) v)" by blast
  moreover have "dv_pipe (set_games (sync_games (prog_sync p')) v) = prog_pipe p'"
    by (simp add: set_games_def pipe prog_pipe_def tick.hyps(5))
  ultimately show ?case using seen(1) by blast
next
  case (move shown p v v')
  with delivery_reach.step show ?case by auto
qed

lemma move_program:
  assumes "delivery_step d v v'" "log_inv d v" "dv_pipe v = prog_pipe p" "program_reach r cat d s0 shown p"
  shows "program_reach r cat d s0 shown (set_pipe (dv_pipe v') p)"
  using assms(1)
proof cases
  case (relay ret locked now st result err stream)
  with program_reach.relay [OF assms(4), of ret locked now st result err] assms(3) show ?thesis by simp
next
  case (clean_outbox now db res')
  with program_reach.clean_outbox [OF assms(4), of now db res'] assms(3) show ?thesis
    by (simp add: prog_pipe_def set_pipe_def)
next
  case (deliver k subject i bytes md t rnd now inbox cb dead)
  with delivered_handled [OF assms(2) deliver(2,3,5)] program_reach.deliver [OF assms(4)] assms(3) show ?thesis
    by (auto simp: after_delivery_def prog_pipe_def set_pipe_def)
next
  case (clean_inbox now inbox deleted)
  with program_reach.clean_inbox [OF assms(4), of now inbox deleted] assms(3) show ?thesis
    by (simp add: prog_pipe_def set_pipe_def)
next
  case (replay sq latest execute connect rp out stream)
  with assms(3,4) show ?thesis by (simp add: set_pipe_id)
qed

lemma whole_program: "whole_reach r cat d s0 shown p v \<Longrightarrow> program_reach r cat d s0 shown p"
proof (induction rule: whole_reach.induct)
  case (start db js inbox cb rp p)
  then show ?case by (simp add: program_reach.start)
next
  case (serve shown p v s')
  from program_reach.serve [OF serve.IH serve.hyps(2)] show ?case .
next
  case (tick shown p v i p')
  from program_reach.tick [OF tick.IH tick.hyps(2,3)] show ?case unfolding tick.hyps(5) .
next
  case (move shown p v v')
  from whole_delivery [OF move.hyps(1)] obtain seen where "dv_pipe v = prog_pipe p" "delivery_reach d seen v" by blast
  from move_program [OF move.hyps(2) delivery_logs [OF this(2)] this(1) move.IH] show ?case .
qed

section \<open>The events\<close>

lemma good_formed: "delivery_reach d seen s \<Longrightarrow> c \<in> dv_formed s \<Longrightarrow> good_message seen c"
proof (induction rule: delivery_reach.induct)
  case (observe seen s now rnd t1 t2 phase g r games res seen')
  have sub: "seen \<subseteq> seen'" by (auto simp: observe.hyps(5))
  have "pipe_inv seen' ((dv_pipe s)\<lparr>pl_games := games\<rparr>)"
    using pipeline_inv [OF delivery_pipeline [OF delivery_reach.observe [OF observe.hyps(1-5)]]] by (simp add: set_games_def)
  then have "good_message seen' c" if "c \<in> held games"
    using that by (auto simp: pipe_inv_def pg_outbox.every_event_def held_def)
  with observe.IH observe.prems good_message_mono [OF _ sub] show ?case
    by (simp add: set_games_def) blast
next
  case (step seen s s')
  from step.hyps(2) have "dv_formed s' = dv_formed s" by cases (simp_all add: after_delivery_def)
  with step show ?case by simp
qed simp

section \<open>An example run\<close>

text \<open>The run of \<open>System\<close> up to the relay of the start event.\<close>

definition ex_v0 :: delivery where
  "ex_v0 = \<lparr>dv_pipe = prog_pipe ex_prog0, dv_stream = [], dv_settled = {}, dv_consumer = ex_callback, dv_dead = [],
     dv_replay = ex_replay\<lparr>rp_store := \<lparr>dlq_msgs = [], dlq_faults = []\<rparr>\<rparr>, dv_formed = {}, dv_recorded = {}\<rparr>"

definition ex_v2 :: delivery where
  "ex_v2 = set_games (sync_games (prog_sync ex_prog2)) (set_games (sync_games (prog_sync ex_prog1)) ex_v0)"

definition ex_v3 :: delivery where
  "ex_v3 = (let st = fst (RelayOnce (\<lambda>_. False) id 10 (pl_relay (dv_pipe ex_v2)))
     in ex_v2\<lparr>dv_pipe := pl_relayed st (dv_pipe ex_v2),
          dv_stream := dv_stream ex_v2 @ new_messages (pl_js (dv_pipe ex_v2)) (relay_js st)\<rparr>)"

lemma ex_v2_reach: "whole_reach in_memory_repo ex_catalog ex_driver ex_start {ex_session} ex_prog2 ex_v2"
proof -
  let ?w = "whole_reach in_memory_repo ex_catalog ex_driver ex_start"
  let ?v1 = "set_games (sync_games (prog_sync ex_prog1)) ex_v0"
  have "?w {} ex_prog0 \<lparr>dv_pipe = prog_pipe ex_prog0, dv_stream = [], dv_settled = {}, dv_consumer = ex_callback, dv_dead = [],
     dv_replay = ex_replay\<lparr>rp_store := \<lparr>dlq_msgs = [], dlq_faults = []\<rparr>\<rparr>, dv_formed = {}, dv_recorded = seen_keys ex_inbox\<rparr>"
    by (rule whole_reach.start [of ex_start "\<lparr>outbox_rows = [], outbox_faults = []\<rparr>"])
       (simp_all add: ex_inbox_def ex_start_def ex_callback_def ex_replay_def ex_prog0_def)
  then have v0: "?w {} ex_prog0 ex_v0" by (simp add: ex_v0_def ex_inbox_def seen_keys_def)
  have "?w ({} \<union> {session. selecting ex_tick (sync_lol (prog_sync ex_prog0)) session}) ex_prog1 ?v1"
    by (rule whole_reach.tick [OF v0 _ _ _ ex_prog1_def])
       (simp add: ex_tick_def, simp add: ex_selecting member_ids_def ex_session_def, simp add: fresh_id_def ex_v0_def)
  then have v1: "?w {ex_session} ex_prog1 ?v1" by (simp add: ex_selecting)
  have "sync_games (prog_sync ex_prog1) = pl_games ex_pipe1"
    by (simp add: ex_prog1_def ex_ticks ex_pipe1_def ex_pipe0_def ex_prog0_def ex_start_def)
  moreover have "held (pl_games ex_pipe1) = {}" by code_simp
  ultimately have f: "fresh_id rnd ?v1" for rnd by (simp add: fresh_id_def set_games_def ex_v0_def)
  have "?w ({ex_session} \<union> {session. selecting ex_tick2 (sync_lol (prog_sync ex_prog1)) session}) ex_prog2 ex_v2"
    unfolding ex_v2_def by (rule whole_reach.tick [OF v1 _ _ f ex_prog2_def]) (simp add: ex_tick2_def, simp add: ex_tick2_selects)
  then show ?thesis by (simp add: ex_tick2_selects)
qed

lemma ex_v3_parts:
  "dv_pipe ex_v3 = ex_pipe3" "dv_stream ex_v3 = [(SubjectGameStarted, ex_id, GamePayload ex_bytes)]" "dv_recorded ex_v3 = {}"
  "(ex_id, SubjectGameStarted, ex_bytes) \<in> dv_formed ex_v3" "dlq_letters (rp_store (dv_replay ex_v3)) n = None"
proof -
  have pipe: "dv_pipe ex_v2 = ex_pipe2" using ex_v2_reach whole_delivery ex_prog_pipes(1) by metis
  have js: "js_sent (pl_js ex_pipe2) = []" by (simp add: ex_pipe2_def ex_pipe1_def ex_pipe0_def)
  have v2: "dv_stream ex_v2 = []" by (simp add: ex_v2_def ex_v0_def set_games_def)
  show "dv_pipe ex_v3 = ex_pipe3" by (simp add: ex_v3_def Let_def pipe ex_pipe3_def)
  show "dv_stream ex_v3 = [(SubjectGameStarted, ex_id, GamePayload ex_bytes)]"
    using ex_pipe3_message by (simp add: ex_v3_def Let_def pipe js v2 ex_pipe3_def pl_relayed_def new_messages_def)
  have "sync_games (prog_sync ex_prog2) = pl_games ex_pipe2" using ex_prog_pipes(1) by (metis pipeline.select_convs(1) prog_pipe_def)
  then show "(ex_id, SubjectGameStarted, ex_bytes) \<in> dv_formed ex_v3"
    by (simp add: ex_v3_def Let_def ex_v2_def set_games_def held_def ex_pipe2_held)
  show "dv_recorded ex_v3 = {}" "dlq_letters (rp_store (dv_replay ex_v3)) n = None"
    by (simp_all add: ex_v3_def Let_def ex_v2_def ex_v0_def set_games_def dlq_letters_def)
qed

lemma ex_v3_reach: "whole_reach in_memory_repo ex_catalog ex_driver ex_start {ex_session} ex_prog3 ex_v3"
proof -
  obtain st result err where r: "RelayOnce (\<lambda>_. False) id 10 (pl_relay (dv_pipe ex_v2)) = (st, result, err)" by (metis prod_cases3)
  have "delivery_step ex_driver ex_v2 ex_v3"
    unfolding ex_v3_def r by (simp, rule delivery_step.relay [OF _ r stores_all]) simp
  from whole_reach.move [OF ex_v2_reach this] have "whole_reach in_memory_repo ex_catalog ex_driver ex_start {ex_session} (set_pipe ex_pipe3 ex_prog2) ex_v3"
    by (simp add: ex_v3_parts)
  moreover have "set_pipe ex_pipe3 ex_prog2 = ex_prog3" by (simp add: ex_prog3_def ex_prog_pipes(1) ex_pipe3_def)
  ultimately show ?thesis by simp
qed

section \<open>Properties\<close>



end
