(* ===== verification/Wire.thy ===== *)
theory Wire
  imports Json Http
begin

text \<open>
  The wire format of events and requests at the level of JSON: \<open>Events\<close> and \<open>Http\<close> work on what
  a decoder makes of a document, field by field; here the structs of \<open>events.go\<close>,
  \<open>durable_events.go\<close> and \<open>internal/dto\<close> are read and written as \<open>encoding/json\<close> does it
  (\<open>Json\<close>), and the two are shown to agree on every document.
\<close>

section \<open>What a document says of a field\<close>

definition view_text :: "json \<Rightarrow> string jfield" where
  "view_text v = (case v of JsonNull \<Rightarrow> JNull | JsonString s \<Rightarrow> JVal s | _ \<Rightarrow> JBad)"

definition view_int :: "json \<Rightarrow> int jfield" where
  "view_int v = (case v of JsonNull \<Rightarrow> JNull | JsonInt i \<Rightarrow> if int64 i then JVal i else JBad | _ \<Rightarrow> JBad)"

definition view_time :: "json \<Rightarrow> time jfield" where
  "view_time v =
     (case v of
        JsonNull \<Rightarrow> JNull
      | JsonString s \<Rightarrow> (case parse_time s of None \<Rightarrow> JBad | Some t \<Rightarrow> JVal t)
      | _ \<Rightarrow> JBad)"

text \<open>A name may occur again: a value replaces the one before, null keeps it, an error stays.\<close>

definition later :: "'a jfield \<Rightarrow> 'a jfield \<Rightarrow> 'a jfield" where
  "later old new =
     (if old = JBad then JBad
      else (case new of JNull \<Rightarrow> (case old of JVal a \<Rightarrow> JVal a | _ \<Rightarrow> JNull) | _ \<Rightarrow> new))"

definition wire_field :: "(json \<Rightarrow> 'a jfield) \<Rightarrow> (('a jfield \<Rightarrow> 'a jfield) \<Rightarrow> 'w \<Rightarrow> 'w) \<Rightarrow> 'w field" where
  "wire_field view upd v w = Some (upd (\<lambda>old. later old (view v)) w)"

definition read_wire :: "(string \<times> 'w field) list \<Rightarrow> 'w \<Rightarrow> json \<Rightarrow> 'w payload" where
  "read_wire fs absent v =
     (case v of
        JsonNull \<Rightarrow> NullDocument
      | JsonObject kvs \<Rightarrow> (case set_fields fs kvs absent of None \<Rightarrow> Malformed | Some w \<Rightarrow> Object w)
      | _ \<Rightarrow> NonObject)"

section \<open>The structs\<close>

text \<open>\<open>EventMetadata\<close> is embedded: its fields are fields of the event.\<close>

definition zero_game_event :: game_event where
  "zero_game_event = \<lparr>EventID = [], OccurredAt = zero_time, Version = 0, GameID = 0, RoomID = []\<rparr>"

definition game_event_fields :: "(string \<times> game_event field) list" where
  "game_event_fields =
     [(''eventId'', text_field (\<lambda>a e. e\<lparr>EventID := a\<rparr>)), (''occurredAt'', time_field (\<lambda>a e. e\<lparr>OccurredAt := a\<rparr>)),
      (''version'', int_field (\<lambda>a e. e\<lparr>Version := a\<rparr>)), (''gameId'', int_field (\<lambda>a e. e\<lparr>GameID := a\<rparr>)),
      (''roomId'', text_field (\<lambda>a e. e\<lparr>RoomID := a\<rparr>))]"

definition game_event_of_json :: "json \<Rightarrow> game_event option" where
  "game_event_of_json = unmarshal_struct game_event_fields zero_game_event"

definition json_of_game_event :: "(time \<Rightarrow> int) \<Rightarrow> game_event \<Rightarrow> json option" where
  "json_of_game_event zone e =
     map_option (\<lambda>t. JsonObject
       [(''eventId'', marshal_text (EventID e)), (''occurredAt'', t), (''version'', JsonInt (Version e)),
        (''gameId'', JsonInt (GameID e)), (''roomId'', marshal_text (RoomID e))])
       (marshal_time zone (OccurredAt e))"

definition game_payload_of :: "json \<Rightarrow> game_payload" where
  "game_payload_of = read_wire
     [(''eventId'', wire_field view_text w_eventId_update), (''occurredAt'', wire_field view_time w_occurredAt_update),
      (''version'', wire_field view_int w_version_update), (''gameId'', wire_field view_int w_gameId_update),
      (''roomId'', wire_field view_text w_roomId_update)]
     \<lparr>w_eventId = Absent, w_occurredAt = Absent, w_version = Absent, w_gameId = Absent, w_roomId = Absent\<rparr>"

definition room_event_of_json :: "json \<Rightarrow> room_event option" where
  "room_event_of_json = unmarshal_struct [(''roomId'', text_field (\<lambda>a e. e\<lparr>EventRoomID := a\<rparr>))] \<lparr>EventRoomID = []\<rparr>"

definition json_of_room_event :: "room_event \<Rightarrow> json" where
  "json_of_room_event e = JsonObject [(''roomId'', marshal_text (EventRoomID e))]"

definition room_payload_of :: "json \<Rightarrow> room_payload" where
  "room_payload_of = read_wire [(''roomId'', wire_field view_text id)] Absent"

definition create_player_of_json :: "json \<Rightarrow> create_player_request option" where
  "create_player_of_json = unmarshal_struct [(''champion'', text_field (\<lambda>a q. q\<lparr>ReqChampion := a\<rparr>))] \<lparr>ReqChampion = []\<rparr>"

definition toggle_spell_of_json :: "json \<Rightarrow> toggle_spell_request option" where
  "toggle_spell_of_json = unmarshal_struct
     [(''gameName'', text_field (\<lambda>a q. q\<lparr>ReqGameName := a\<rparr>)), (''tagLine'', text_field (\<lambda>a q. q\<lparr>ReqTagLine := a\<rparr>)),
      (''spell'', text_field (\<lambda>a q. q\<lparr>ReqSpell := a\<rparr>))] \<lparr>ReqGameName = [], ReqTagLine = [], ReqSpell = []\<rparr>"

text \<open>A body seen by the one decoder or by the other: the names of the two structs do not clash.\<close>

definition body_payload_of :: "json \<Rightarrow> body_wire payload" where
  "body_payload_of = read_wire
     [(''champion'', wire_field view_text w_champion_update), (''gameName'', wire_field view_text w_reqGameName_update),
      (''tagLine'', wire_field view_text w_reqTagLine_update), (''spell'', wire_field view_text w_spell_update)]
     \<lparr>w_champion = Absent, w_reqGameName = Absent, w_reqTagLine = Absent, w_spell = Absent\<rparr>"

section \<open>Reading by fields and reading into the struct\<close>

text \<open>
  A wire field views a struct field when decoding after it is decoding before it and then
  setting the field; one that views none leaves the decoded struct as it is.
\<close>

definition views :: "('w \<Rightarrow> 'r option) \<Rightarrow> 'r field option \<Rightarrow> 'w field \<Rightarrow> bool" where
  "views dec fld g \<longleftrightarrow> (\<forall>v w. \<exists>w'. g v w = Some w' \<and>
     dec w' = (case fld of None \<Rightarrow> dec w | Some f \<Rightarrow> Option.bind (dec w) (f v)))"

lemma set_fields_views:
  assumes "\<And>k. case field_named gs k of None \<Rightarrow> field_named fs k = None | Some g \<Rightarrow> views dec (field_named fs k) g"
  shows "\<exists>w'. set_fields gs kvs w = Some w' \<and> dec w' = Option.bind (dec w) (set_fields fs kvs)"
proof (induction kvs arbitrary: w)
  case Nil
  then show ?case by (cases "dec w") simp_all
next
  case (Cons kv kvs)
  obtain k v where kv: "kv = (k, v)" by (cases kv)
  show ?case
  proof (cases "field_named gs k")
    case None
    with assms [of k] Cons.IH [of w] show ?thesis by (simp add: kv)
  next
    case (Some g)
    with assms [of k] have "views dec (field_named fs k) g" by simp
    then obtain w1 where w1: "g v w = Some w1"
      "dec w1 = (case field_named fs k of None \<Rightarrow> dec w | Some f \<Rightarrow> Option.bind (dec w) (f v))"
      unfolding views_def by blast
    with Cons.IH [of w1] Some show ?thesis
      by (cases "field_named fs k"; cases "dec w") (auto simp: kv)
  qed
qed

lemma read_wire_exact:
  assumes "\<And>k. case field_named gs k of None \<Rightarrow> field_named fs k = None | Some g \<Rightarrow> views dec (field_named fs k) g"
    and "dec absent = Some zero"
  shows "unmarshal dec zero (read_wire gs absent j) =
    (case unmarshal_struct fs zero j of None \<Rightarrow> Inl json_error | Some e \<Rightarrow> Inr e)"
proof (cases j)
  case (JsonObject kvs)
  obtain w where "set_fields gs kvs absent = Some w" "dec w = set_fields fs kvs zero"
    using set_fields_views [OF assms(1), of kvs absent] assms(2) by auto
  with JsonObject show ?thesis by (simp add: read_wire_def unmarshal_struct_def split: option.split)
qed (simp_all add: read_wire_def unmarshal_struct_def)

text \<open>The condition on the names, when the two lists have the same ones.\<close>

lemma views_same_names:
  "list_all2 (\<lambda>(n, f) (m, g). n = m \<and> views dec (Some f) g) fs gs \<Longrightarrow>
   case field_named gs k of None \<Rightarrow> field_named fs k = None | Some g \<Rightarrow> views dec (field_named fs k) g"
proof -
  assume r: "list_all2 (\<lambda>(n, f) (m, g). n = m \<and> views dec (Some f) g) fs gs"
  then have "rel_option (\<lambda>f g. views dec (Some f) g) (map_of fs k) (map_of gs k)"
    by (induction rule: list_all2_induct) auto
  moreover from r have "rel_option (\<lambda>f g. views dec (Some f) g)
      (map_option snd (find (\<lambda>(n, fld). fold_name n = fold_name k) fs)) (map_option snd (find (\<lambda>(n, fld). fold_name n = fold_name k) gs))"
    by (induction rule: list_all2_induct) auto
  ultimately show ?thesis
    by (cases "map_of fs k"; cases "map_of gs k"; cases "find (\<lambda>(n, fld). fold_name n = fold_name k) fs";
        cases "find (\<lambda>(n, fld). fold_name n = fold_name k) gs") (simp_all add: field_named_def)
qed

section \<open>The fields of the structs\<close>

lemma later_simps [simp]:
  "field_or z (later old new) = (case new of
      JNull \<Rightarrow> field_or z old | JVal a \<Rightarrow> map_option (\<lambda>_. a) (field_or z old) | _ \<Rightarrow> None)"
  if "new \<noteq> Absent"
  using that by (cases old; cases new) (simp_all add: later_def)

lemma view_simps [simp]: "view_text v \<noteq> Absent" "view_int v \<noteq> Absent" "view_time v \<noteq> Absent"
  by (simp_all add: view_text_def view_int_def view_time_def split: json.split option.split)

lemmas viewing = views_def wire_field_def view_text_def view_int_def view_time_def text_field_def int_field_def time_field_def

lemma text_views [simp]:
  "views decode_game_wire (Some (text_field (\<lambda>a e. e\<lparr>EventID := a\<rparr>))) (wire_field view_text w_eventId_update)"
  "views decode_game_wire (Some (text_field (\<lambda>a e. e\<lparr>RoomID := a\<rparr>))) (wire_field view_text w_roomId_update)"
  by (auto simp: viewing decode_game_wire_def split: json.split bind_splits)

lemma int_views [simp]:
  "views decode_game_wire (Some (int_field (\<lambda>a e. e\<lparr>Version := a\<rparr>))) (wire_field view_int w_version_update)"
  "views decode_game_wire (Some (int_field (\<lambda>a e. e\<lparr>GameID := a\<rparr>))) (wire_field view_int w_gameId_update)"
  by (auto simp: viewing decode_game_wire_def split: json.split bind_splits)

lemma time_views [simp]:
  "views decode_game_wire (Some (time_field (\<lambda>a e. e\<lparr>OccurredAt := a\<rparr>))) (wire_field view_time w_occurredAt_update)"
  by (auto simp: viewing decode_game_wire_def split: json.split bind_splits option.split)

lemma game_event_read:
  "unmarshal_game_event (game_payload_of j) = (case game_event_of_json j of None \<Rightarrow> Inl json_error | Some e \<Rightarrow> Inr e)"
  unfolding unmarshal_game_event_def game_payload_of_def game_event_of_json_def zero_game_event_def [symmetric]
  by (rule read_wire_exact, rule views_same_names)
     (simp_all add: game_event_fields_def decode_game_wire_def zero_game_event_def)

lemma room_event_read:
  "unmarshal_room_event (room_payload_of j) = (case room_event_of_json j of None \<Rightarrow> Inl json_error | Some e \<Rightarrow> Inr e)"
  unfolding unmarshal_room_event_def room_payload_of_def room_event_of_json_def
  by (rule read_wire_exact, rule views_same_names) (auto simp: viewing map_conv_bind_option split: json.split bind_splits)

text \<open>The names of a request body are told apart by their folded forms.\<close>

lemma field_named_folded:
  assumes "distinct (map (fold_name \<circ> fst) fs)"
  shows "field_named fs k = map_of (map (\<lambda>(n, fld). (fold_name n, fld)) fs) (fold_name k)"
proof -
  have find: "map_option snd (find (\<lambda>(n, fld). fold_name n = fold_name k) xs) = map_of (map (\<lambda>(n, fld). (fold_name n, fld)) xs) (fold_name k)"
    for xs :: "(string \<times> 'a field) list"
  proof (induction xs)
    case (Cons x xs)
    then show ?case by (cases x) (simp only: list.map find.simps map_of.simps prod.case fst_conv snd_conv option.map if_split, simp)
  qed simp
  have "map_of fs k = Some fld \<Longrightarrow> map_of (map (\<lambda>(n, fld). (fold_name n, fld)) fs) (fold_name k) = Some fld" for fld
    using assms
  proof (induction fs)
    case (Cons x fs)
    obtain n g where x: "x = (n, g)" by (cases x)
    show ?case
    proof (cases "k = n")
      case False
      with Cons.prems(1) have "map_of fs k = Some fld" by (simp add: x)
      moreover from map_of_SomeD [OF this] Cons.prems(2) have "fold_name k \<noteq> fold_name n" by (force simp: x)
      ultimately show ?thesis using Cons.IH Cons.prems(2) by (simp add: x)
    qed (use Cons.prems in \<open>simp add: x\<close>)
  qed simp
  then show ?thesis by (auto simp: field_named_def find split: option.split)
qed

lemma folded_names:
  "fold_name ''champion'' = ''champion''" "fold_name ''gameName'' = ''gamename''"
  "fold_name ''tagLine'' = ''tagline''" "fold_name ''spell'' = ''spell''"
  by code_simp+

lemma body_names:
  "field_named [(''champion'', a), (''gameName'', b), (''tagLine'', c), (''spell'', e)] k =
     (if fold_name k = ''champion'' then Some a else if fold_name k = ''gamename'' then Some b
      else if fold_name k = ''tagline'' then Some c else if fold_name k = ''spell'' then Some e else None)"
  "field_named [(''champion'', a)] k = (if fold_name k = ''champion'' then Some a else None)"
  "field_named [(''gameName'', b'), (''tagLine'', c'), (''spell'', e')] k =
     (if fold_name k = ''gamename'' then Some b' else if fold_name k = ''tagline'' then Some c'
      else if fold_name k = ''spell'' then Some e' else None)"
  by (subst field_named_folded; simp add: folded_names del: fold_name.simps)+

lemma create_player_read:
  "decode_create_player (body_payload_of j) = (case create_player_of_json j of None \<Rightarrow> Inl json_error | Some q \<Rightarrow> Inr q)"
  unfolding decode_create_player_def body_payload_of_def create_player_of_json_def
  by (rule read_wire_exact) (auto simp: body_names viewing map_conv_bind_option split: json.split bind_splits)

lemma toggle_spell_read:
  "decode_toggle_spell (body_payload_of j) = (case toggle_spell_of_json j of None \<Rightarrow> Inl json_error | Some q \<Rightarrow> Inr q)"
  unfolding decode_toggle_spell_def body_payload_of_def toggle_spell_of_json_def
  by (rule read_wire_exact) (auto simp: body_names viewing split: json.split option.split)

section \<open>Writing\<close>

text \<open>What JSON can carry of an event.\<close>

definition json_event :: "game_event \<Rightarrow> bool" where
  "json_event e \<longleftrightarrow> json_text (EventID e) \<and> json_text (RoomID e) \<and> int64 (Version e) \<and> int64 (GameID e)"

lemma view_marshal_time: "marshal_time zone t = Some j \<Longrightarrow> view_time j = JVal t"
  by (auto simp: marshal_time_def view_time_def dest: parse_format)

lemma game_event_written:
  assumes "json_of_game_event zone e = Some j" "json_event e"
  shows "game_payload_of j = marshal_game_event e"
proof -
  obtain t where t: "marshal_time zone (OccurredAt e) = Some t"
    and j: "j = JsonObject
       [(''eventId'', marshal_text (EventID e)), (''occurredAt'', t), (''version'', JsonInt (Version e)),
        (''gameId'', JsonInt (GameID e)), (''roomId'', marshal_text (RoomID e))]"
    using assms(1) by (auto simp: json_of_game_event_def)
  show ?thesis
    using assms(2) view_marshal_time [OF t]
    by (simp add: j game_payload_of_def read_wire_def field_named_def wire_field_def later_def view_text_def view_int_def
        marshal_text_def json_text_def json_event_def marshal_game_event_def)
qed

lemma room_event_written:
  "json_text (EventRoomID e) \<Longrightarrow> room_payload_of (json_of_room_event e) = marshal_room_event e"
  by (simp add: json_of_room_event_def room_payload_of_def read_wire_def field_named_def wire_field_def later_def
      view_text_def marshal_text_def json_text_def marshal_room_event_def)

lemma game_event_unwritten: "json_of_game_event zone e = None \<longleftrightarrow> format_time (zone (OccurredAt e)) (OccurredAt e) = None"
  by (simp add: json_of_game_event_def marshal_time_def)

section \<open>Properties\<close>


definition ex_json_event :: game_event where
  "ex_json_event = \<lparr>EventID = ''e1'', OccurredAt = 63850000000000000000, Version = 1, GameID = 7, RoomID = ''7-1''\<rparr>"


end
